(* ===== verification/Prelude.thy ===== *)
theory Prelude
  imports Main "HOL-Library.Word" "HOL-Library.AList" "HOL-Library.Multiset"
    "HOL-Library.Signed_Division"
begin

unbundle bit_operations_syntax

text \<open>
  Shared vocabulary of the development.

  \<^item> Go's fixed-width integers are words: \<open>uint64\<close> is \<open>u64\<close>, \<open>byte\<close> is \<open>u8\<close>; arithmetic
    wraps as Go's does. \<open>int\<close> and \<open>big.Int\<close> values are \<open>int\<close>.
  \<^item> Fixed-length byte arrays are words of the same number of bits: \<open>common.Hash\<close> (32 bytes) is
    \<open>hash\<close>, \<open>common.Address\<close> (20 bytes) is \<open>address\<close>, a serialized BLS public key (48 bytes) is
    \<open>blskey\<close>. Their bytes are read by \<open>be_bytes\<close>, most significant byte first, so byte \<open>0\<close> of the
    array is the head of the list.
  \<^item> A Go map is an association list with distinct keys (\<open>gomap_ok\<close>). Go leaves the order of
    iteration unspecified: the order of the list stands for it, and the theorems hold for every
    list that satisfies the invariant.
\<close>

named_theorems gomap_simps \<open>laws of Go maps as association lists\<close>

section \<open>Machine integers and byte arrays\<close>

type_synonym u8 = "8 word"
type_synonym u32 = "32 word"
type_synonym u64 = "64 word"
type_synonym bytes = "u8 list"
type_synonym hash = "256 word"
type_synonym address = "160 word"
type_synonym blskey = "384 word"

definition le_bytes :: "nat \<Rightarrow> 'a::len word \<Rightarrow> bytes" where
  "le_bytes n w = map (\<lambda>i. ucast (drop_bit (8 * i) w)) [0..<n]"

definition be_bytes :: "nat \<Rightarrow> 'a::len word \<Rightarrow> bytes" where
  "be_bytes n w = rev (le_bytes n w)"

fun le_word :: "bytes \<Rightarrow> 'a::len word" where
  "le_word [] = 0"
| "le_word (b # bs) = ucast b OR push_bit 8 (le_word bs)"

definition be_word :: "bytes \<Rightarrow> 'a::len word" where
  "be_word bs = le_word (rev bs)"

lemma length_le_bytes [simp]: "length (le_bytes n w) = n"
  by (simp add: le_bytes_def)

lemma length_be_bytes [simp]: "length (be_bytes n w) = n"
  by (simp add: be_bytes_def)

lemma le_bytes_Suc:
  "le_bytes (Suc n) w = ucast w # le_bytes n (drop_bit 8 w)"
proof -
  have "[0..<Suc n] = 0 # map Suc [0..<n]"
    by (simp add: map_Suc_upt upt_conv_Cons)
  then show ?thesis
    by (simp add: le_bytes_def comp_def drop_bit_drop_bit add.commute del: upt_Suc)
qed

lemma low_high_byte:
  fixes w :: "'a::len word"
  assumes "8 \<le> LENGTH('a)"
  shows "ucast (ucast w :: u8) OR push_bit 8 (drop_bit 8 w) = w"
proof (rule bit_word_eqI)
  fix n assume "n < LENGTH('a)"
  then show "bit (ucast (ucast w :: u8) OR push_bit 8 (drop_bit 8 w)) n = bit w n"
    by (cases "n < 8") (auto simp: bit_simps)
qed

lemma le_word_le_bytes_gen:
  "8 \<le> LENGTH('a::len) \<Longrightarrow> drop_bit (8 * n) w = 0 \<Longrightarrow> le_word (le_bytes n w) = (w :: 'a word)"
proof (induction n arbitrary: w)
  case 0
  then show ?case by (simp add: le_bytes_def)
next
  case (Suc n)
  have "drop_bit (8 * n) (drop_bit 8 w) = 0"
    using Suc.prems(2) by (simp add: drop_bit_drop_bit add.commute)
  then have "le_word (le_bytes n (drop_bit 8 w)) = drop_bit 8 w"
    using Suc.IH Suc.prems(1) by blast
  then show ?case
    using Suc.prems(1) by (simp add: le_bytes_Suc low_high_byte)
qed

text \<open>Reading back the bytes of a word that fits gives the word.\<close>

lemma le_word_le_bytes:
  fixes w :: "'a::len word"
  assumes "8 \<le> LENGTH('a)" and "LENGTH('a) \<le> 8 * n"
  shows "le_word (le_bytes n w) = w"
proof -
  have "drop_bit (8 * n) w = 0"
    using assms(2) by (intro bit_word_eqI) (simp add: bit_simps bit_imp_le_length)
  then show ?thesis
    using assms(1) by (rule le_word_le_bytes_gen[rotated])
qed

lemma be_word_be_bytes:
  fixes w :: "'a::len word"
  assumes "8 \<le> LENGTH('a)" and "LENGTH('a) \<le> 8 * n"
  shows "be_word (be_bytes n w) = w"
  using assms by (simp add: be_word_def be_bytes_def le_word_le_bytes)

lemma le_bytes_inject:
  fixes v w :: "'a::len word"
  assumes "8 \<le> LENGTH('a)" and "LENGTH('a) \<le> 8 * n"
  shows "le_bytes n v = le_bytes n w \<longleftrightarrow> v = w"
  using assms by (metis le_word_le_bytes)

lemma be_bytes_inject:
  fixes v w :: "'a::len word"
  assumes "8 \<le> LENGTH('a)" and "LENGTH('a) \<le> 8 * n"
  shows "be_bytes n v = be_bytes n w \<longleftrightarrow> v = w"
  using assms by (metis be_word_be_bytes)

lemmas u64_le_inject [simp] = le_bytes_inject [where 'a = 64 and n = 8, simplified]
  and u32_le_inject [simp] = le_bytes_inject [where 'a = 32 and n = 4, simplified]
  and u64_be_inject [simp] = be_bytes_inject [where 'a = 64 and n = 8, simplified]
  and hash_be_inject [simp] = be_bytes_inject [where 'a = 256 and n = 32, simplified]
  and blskey_be_inject [simp] = be_bytes_inject [where 'a = 384 and n = 48, simplified]
  and u64_be_roundtrip [simp] = be_word_be_bytes [where 'a = 64 and n = 8, simplified]
  and hash_be_roundtrip [simp] = be_word_be_bytes [where 'a = 256 and n = 32, simplified]

section \<open>Go maps\<close>

type_synonym ('k, 'v) gomap = "('k \<times> 'v) list"

abbreviation mget :: "('k, 'v) gomap \<Rightarrow> 'k \<Rightarrow> 'v option" where
  "mget m k \<equiv> map_of m k"

abbreviation mput :: "'k \<Rightarrow> 'v \<Rightarrow> ('k, 'v) gomap \<Rightarrow> ('k, 'v) gomap" where
  "mput k v m \<equiv> AList.update k v m"

abbreviation mdel :: "'k \<Rightarrow> ('k, 'v) gomap \<Rightarrow> ('k, 'v) gomap" where
  "mdel k m \<equiv> AList.delete k m"

definition gomap_ok :: "('k, 'v) gomap \<Rightarrow> bool" where
  "gomap_ok m \<longleftrightarrow> distinct (map fst m)"

lemma gomap_ok_Nil [simp]: "gomap_ok []"
  by (simp add: gomap_ok_def)

lemma gomap_ok_mput [simp]: "gomap_ok m \<Longrightarrow> gomap_ok (mput k v m)"
  by (simp add: gomap_ok_def distinct_update)

lemma gomap_ok_mdel [simp]: "gomap_ok m \<Longrightarrow> gomap_ok (mdel k m)"
  by (simp add: gomap_ok_def distinct_delete)

lemma gomap_ok_filter [simp]: "gomap_ok m \<Longrightarrow> gomap_ok (filter P m)"
  by (auto simp: gomap_ok_def distinct_map inj_on_def)

lemma mget_mput [simp, gomap_simps]: "mget (mput k v m) k' = (if k' = k then Some v else mget m k')"
  by (simp add: update_conv')

lemma mget_mdel [simp, gomap_simps]: "mget (mdel k m) k' = (if k' = k then None else mget m k')"
  by (simp add: delete_conv')

lemma mget_Some_iff [gomap_simps]: "gomap_ok m \<Longrightarrow> mget m k = Some v \<longleftrightarrow> (k, v) \<in> set m"
  by (simp add: gomap_ok_def)

lemma mget_None_iff: "mget m k = None \<longleftrightarrow> k \<notin> fst ` set m"
  by (simp add: map_of_eq_None_iff)

lemma mget_filter:
  "gomap_ok m \<Longrightarrow>
   mget (filter (\<lambda>(k, v). P k v) m) k =
     (case mget m k of None \<Rightarrow> None | Some v \<Rightarrow> if P k v then Some v else None)"
proof (induction m)
  case Nil
  then show ?case by simp
next
  case (Cons kv m)
  then have "gomap_ok m" and fresh: "fst kv \<notin> fst ` set m"
    by (auto simp: gomap_ok_def)
  then have "mget m (fst kv) = None" by (simp add: mget_None_iff)
  then show ?case
    using Cons.IH \<open>gomap_ok m\<close> by (cases kv) (auto split: option.splits)
qed

lemma set_mput:
  "gomap_ok m \<Longrightarrow> set (mput k v m) = {kv \<in> set m. fst kv \<noteq> k} \<union> {(k, v)}"
proof -
  assume ok: "gomap_ok m"
  have "\<And>a b. (a, b) \<in> set (mput k v m) \<longleftrightarrow> mget (mput k v m) a = Some b"
    using ok by (simp only: mget_Some_iff gomap_ok_mput)
  moreover have "\<And>a b. (a, b) \<in> set m \<longleftrightarrow> mget m a = Some b"
    using ok by (simp add: mget_Some_iff)
  ultimately show ?thesis by (auto split: if_splits)
qed

lemma keys_mput [simp, gomap_simps]: "fst ` set (mput k v m) = insert k (fst ` set m)"
  by (simp add: dom_update image_image)

lemma set_mdel: "set (mdel k m) = {kv \<in> set m. fst kv \<noteq> k}"
  by (auto simp: AList.delete_eq)

lemma length_mput_new: "mget m k = None \<Longrightarrow> length (mput k v m) = Suc (length m)"
  by (induction m) (auto split: if_splits)

lemma length_mput_old: "mget m k \<noteq> None \<Longrightarrow> length (mput k v m) = length m"
  by (induction m) (auto split: if_splits)

lemma length_gomap: "gomap_ok m \<Longrightarrow> length m = card (dom (map_of m))"
  by (simp add: gomap_ok_def dom_map_of_conv_image_fst distinct_card flip: set_map)

text \<open>A map whose entries are stored under a key computed from the entry.\<close>

definition keyed :: "('v \<Rightarrow> 'k) \<Rightarrow> ('k, 'v) gomap \<Rightarrow> bool" where
  "keyed key m \<longleftrightarrow> gomap_ok m \<and> (\<forall>(k, v) \<in> set m. key v = k)"

lemma keyed_Nil [simp]: "keyed key []"
  by (simp add: keyed_def)

lemma keyed_gomap: "keyed key m \<Longrightarrow> gomap_ok m"
  by (simp add: keyed_def)

lemma keyed_mput: "keyed key m \<Longrightarrow> key v = k \<Longrightarrow> keyed key (mput k v m)"
  by (auto simp: keyed_def set_mput)

lemma keyed_mdel: "keyed key m \<Longrightarrow> keyed key (mdel k m)"
  by (auto simp: keyed_def set_mdel)

lemma keyed_filter: "keyed key m \<Longrightarrow> keyed key (filter P m)"
  by (auto simp: keyed_def)

lemma keyed_mget: "keyed key m \<Longrightarrow> mget m k = Some v \<Longrightarrow> key v = k"
  unfolding keyed_def using mget_Some_iff [of m k v] by blast

lemma keyed_mget_iff: "keyed key m \<Longrightarrow> mget m (key v) = Some v \<longleftrightarrow> v \<in> snd ` set m"
  unfolding keyed_def using mget_Some_iff [of m "key v" v] by force

text \<open>The sum of a quantity over the entries of a map; with singletons, the multiset of its values.\<close>

definition msum :: "('v \<Rightarrow> 'b::comm_monoid_add) \<Rightarrow> ('k, 'v) gomap \<Rightarrow> 'b" where
  "msum f m = sum_list (map (\<lambda>(k, v). f v) m)"

definition at_key :: "('v \<Rightarrow> 'b::comm_monoid_add) \<Rightarrow> ('k, 'v) gomap \<Rightarrow> 'k \<Rightarrow> 'b" where
  "at_key f m k = (case mget m k of None \<Rightarrow> 0 | Some v \<Rightarrow> f v)"

lemma msum_Nil [simp]: "msum f [] = 0"
  by (simp add: msum_def)

lemma msum_mput: "msum f (mput k v m) + at_key f m k = msum f m + f v"
  by (induction m) (auto simp: msum_def at_key_def ac_simps)

lemma msum_mdel: "gomap_ok m \<Longrightarrow> msum f (mdel k m) + at_key f m k = msum f m"
proof (induction m)
  case (Cons e m)
  have ih: "msum f (mdel k m) + at_key f m k = msum f m" using Cons by (simp add: gomap_ok_def)
  show ?case
  proof (cases "fst e = k")
    case True
    then have "k \<notin> fst ` set m" using Cons.prems by (auto simp: gomap_ok_def)
    then have "mdel k m = m" by (simp add: delete_id)
    then show ?thesis using True by (cases e) (simp add: msum_def at_key_def ac_simps)
  next
    case False
    then show ?thesis using ih by (cases e) (auto simp: msum_def at_key_def ac_simps)
  qed
qed (simp add: at_key_def)

lemma mset_values: "mset (map snd m) = msum (\<lambda>v. {#v#}) m"
  by (induction m) (auto simp: msum_def)

section \<open>Decimal and hexadecimal text\<close>

text \<open>
  \<open>decimal\<close> is the base-10 text of \<open>strconv.FormatUint\<close> and \<open>fmt\<close>'s \<open>%d\<close>; \<open>hex_encode\<close> and
  \<open>hex_decode\<close> are \<open>hex.EncodeToString\<close> and the bytes that \<open>hex.DecodeString\<close> returns, which on a bad
  digit or an odd end are those decoded before it.
\<close>

definition digit_char :: "nat \<Rightarrow> char" where
  "digit_char n = ''0123456789abcdef'' ! n"

definition digit_value :: "char \<Rightarrow> nat option" where
  "digit_value c = map_of (zip ''0123456789abcdefABCDEF'' ([0..<16] @ [10..<16])) c"

fun decimal :: "nat \<Rightarrow> string" where
  "decimal n = (if n < 10 then [digit_char n] else decimal (n div 10) @ [digit_char (n mod 10)])"

declare decimal.simps [simp del]

definition is_digit :: "char \<Rightarrow> bool" where
  "is_digit c \<longleftrightarrow> c \<in> set ''0123456789''"

definition parse_decimal :: "string \<Rightarrow> nat" where
  "parse_decimal s = foldl (\<lambda>n c. 10 * n + the (digit_value c)) 0 s"

definition hex_encode :: "bytes \<Rightarrow> string" where
  "hex_encode bs = concat (map (\<lambda>b. [digit_char (unat b div 16), digit_char (unat b mod 16)]) bs)"

fun hex_decode :: "string \<Rightarrow> bytes" where
  "hex_decode (p # q # r) =
     (case (digit_value p, digit_value q) of
        (Some a, Some b) \<Rightarrow> word_of_nat (16 * a + b) # hex_decode r
      | _ \<Rightarrow> [])"
| "hex_decode _ = []"

lemma less_16_cases:
  "n < 16 \<Longrightarrow> n \<in> {0, 1, 2, 3, 4, 5, 6, 7, 8, 9, 10, 11, 12, 13, 14, 15::nat}"
  by (simp only: insert_iff empty_iff) arith

lemma digit_value_char [simp]: "n < 16 \<Longrightarrow> digit_value (digit_char n) = Some n"
  by (drule less_16_cases) (auto simp: digit_value_def digit_char_def upt_rec)

lemma is_digit_char: "n < 10 \<Longrightarrow> is_digit (digit_char n)"
  using less_16_cases [of n] by (auto simp: is_digit_def digit_char_def)

lemma decimal_digits: "c \<in> set (decimal n) \<Longrightarrow> is_digit c"
proof (induction n rule: decimal.induct)
  case (1 n)
  then show ?case
    by (subst (asm) (2) decimal.simps) (auto simp: is_digit_char split: if_splits)
qed

lemma decimal_not_Nil [simp]: "decimal n \<noteq> []"
  by (subst decimal.simps) simp

lemma parse_decimal_decimal [simp]: "parse_decimal (decimal n) = n"
proof (induction n rule: decimal.induct)
  case (1 n)
  show ?case
  proof (cases "n < 10")
    case True
    then show ?thesis by (subst decimal.simps) (simp add: parse_decimal_def)
  next
    case False
    then have "parse_decimal (decimal (n div 10)) = n div 10" using 1 by blast
    then show ?thesis
      using False by (subst decimal.simps) (simp add: parse_decimal_def)
  qed
qed

lemma decimal_inject [simp]: "decimal m = decimal n \<longleftrightarrow> m = n"
  by (metis parse_decimal_decimal)

lemma length_hex_encode [simp]: "length (hex_encode bs) = 2 * length bs"
  by (induction bs) (auto simp: hex_encode_def)

lemma byte_nibbles: "unat (b :: u8) div 16 < 16" "unat b mod 16 < 16"
proof -
  have "unat b < 256" using unsigned_less [of b, where 'a = nat] by simp
  then show "unat b div 16 < 16" "unat b mod 16 < 16" by auto
qed

lemma hex_decode_encode [simp]: "hex_decode (hex_encode bs) = bs"
proof (induction bs)
  case (Cons b bs)
  have "word_of_nat (16 * (unat b div 16) + unat b mod 16) = b"
    by (simp only: mult_div_mod_eq of_nat_unat unsigned_ucast_eq) simp
  then show ?case
    using Cons by (simp add: hex_encode_def byte_nibbles)
qed (simp add: hex_encode_def)

lemma hex_encode_inject [simp]: "hex_encode a = hex_encode b \<longleftrightarrow> a = b"
  by (metis hex_decode_encode)

section \<open>Lists\<close>

text \<open>Splitting at the first separator is unambiguous.\<close>

lemma append_separator_inject:
  "sep \<notin> set a \<Longrightarrow> sep \<notin> set a' \<Longrightarrow>
   a @ sep # b = a' @ sep # b' \<longleftrightarrow> a = a' \<and> b = b'"
proof (induction a arbitrary: a')
  case Nil
  then show ?case by (cases a') auto
next
  case (Cons x a)
  then show ?case by (cases a') auto
qed

lemma filter_False_iff: "filter P xs = [] \<longleftrightarrow> (\<forall>x \<in> set xs. \<not> P x)"
  by (simp add: filter_empty_conv)

lemma set_filterI: "x \<in> set xs \<Longrightarrow> P x \<Longrightarrow> x \<in> set (filter P xs)"
  by simp

end
