(* ===== verification/Go_Heap.thy ===== *)
theory Go_Heap
  imports Prelude
begin

text \<open>
  The binary heap of Go's standard library (\<open>container/heap\<close>), which the transaction pool uses for
  its nonce index and its price index. The functions follow \<open>Init\<close>, \<open>Push\<close>, \<open>Pop\<close>, \<open>Remove\<close>, \<open>up\<close>
  and \<open>down\<close> statement by statement over a slice and a \<open>Less\<close> on its elements. The locale
  \<open>heap_order\<close> states what a \<open>Less\<close> must satisfy; inside it every operation is proved to keep the
  contents (as a multiset) and the heap order, so a client gets the minimum at the root. It is
  interpreted on the two orders of \<open>core/tx_list.go\<close> in the theory of the transaction lists.
\<close>

section \<open>The operations of container/heap\<close>

definition slice_swap :: "'a list \<Rightarrow> nat \<Rightarrow> nat \<Rightarrow> 'a list" where
  "slice_swap h i j = h[i := h ! j, j := h ! i]"

function heap_up :: "('a \<Rightarrow> 'a \<Rightarrow> bool) \<Rightarrow> 'a list \<Rightarrow> nat \<Rightarrow> 'a list" where
  "heap_up lt h j =
     (let i = (j - 1) div 2 in
      if i = j \<or> \<not> lt (h ! j) (h ! i) then h else heap_up lt (slice_swap h i j) i)"
  by pat_completeness auto
termination
  by (relation "measure (\<lambda>(lt, h, j). j)") (auto simp: Let_def)

function heap_down :: "('a \<Rightarrow> 'a \<Rightarrow> bool) \<Rightarrow> 'a list \<Rightarrow> nat \<Rightarrow> nat \<Rightarrow> 'a list \<times> nat" where
  "heap_down lt h i n =
     (let j1 = 2 * i + 1 in
      if n \<le> j1 then (h, i)
      else let j = (if j1 + 1 < n \<and> lt (h ! (j1 + 1)) (h ! j1) then j1 + 1 else j1) in
        if \<not> lt (h ! j) (h ! i) then (h, i) else heap_down lt (slice_swap h i j) j n)"
  by pat_completeness auto
termination
  by (relation "measure (\<lambda>(lt, h, i, n). n - i)") (auto simp: Let_def split: if_splits)

declare heap_up.simps [simp del] heap_down.simps [simp del]

definition heap_push :: "('a \<Rightarrow> 'a \<Rightarrow> bool) \<Rightarrow> 'a list \<Rightarrow> 'a \<Rightarrow> 'a list" where
  "heap_push lt h x = heap_up lt (h @ [x]) (length h)"

definition heap_pop :: "('a \<Rightarrow> 'a \<Rightarrow> bool) \<Rightarrow> 'a list \<Rightarrow> 'a \<times> 'a list" where
  "heap_pop lt h =
     (let n = length h - 1; h' = fst (heap_down lt (slice_swap h 0 n) 0 n)
      in (last h', butlast h'))"

definition heap_remove :: "('a \<Rightarrow> 'a \<Rightarrow> bool) \<Rightarrow> 'a list \<Rightarrow> nat \<Rightarrow> 'a \<times> 'a list" where
  "heap_remove lt h i =
     (let n = length h - 1;
          h' = (if n \<noteq> i
                then (case heap_down lt (slice_swap h i n) i n of
                        (g, i') \<Rightarrow> if i < i' then g else heap_up lt g i)
                else h)
      in (last h', butlast h'))"

fun heap_init_from :: "('a \<Rightarrow> 'a \<Rightarrow> bool) \<Rightarrow> 'a list \<Rightarrow> nat \<Rightarrow> 'a list" where
  "heap_init_from lt h 0 = h"
| "heap_init_from lt h (Suc i) = heap_init_from lt (fst (heap_down lt h i (length h))) i"

definition heap_init :: "('a \<Rightarrow> 'a \<Rightarrow> bool) \<Rightarrow> 'a list \<Rightarrow> 'a list" where
  "heap_init lt h = heap_init_from lt h (length h div 2)"

section \<open>Heap order\<close>

abbreviation parent :: "nat \<Rightarrow> nat" where
  "parent k \<equiv> (k - 1) div 2"

text \<open>Every edge whose parent is at least \<open>s\<close>, inside the first \<open>n\<close> elements, is ordered.\<close>

definition heap_from :: "('a \<Rightarrow> 'a \<Rightarrow> bool) \<Rightarrow> 'a list \<Rightarrow> nat \<Rightarrow> nat \<Rightarrow> bool" where
  "heap_from lt h n s \<longleftrightarrow>
     (\<forall>k < n. 0 < k \<longrightarrow> s \<le> parent k \<longrightarrow> \<not> lt (h ! k) (h ! parent k))"

definition is_heap :: "('a \<Rightarrow> 'a \<Rightarrow> bool) \<Rightarrow> 'a list \<Rightarrow> bool" where
  "is_heap lt h \<longleftrightarrow> heap_from lt h (length h) 0"

lemma length_slice_swap [simp]: "length (slice_swap h i j) = length h"
  by (simp add: slice_swap_def)

lemma nth_slice_swap:
  "i < length h \<Longrightarrow> j < length h \<Longrightarrow> k < length h \<Longrightarrow>
   slice_swap h i j ! k = (if k = j then h ! i else if k = i then h ! j else h ! k)"
  by (simp add: slice_swap_def nth_list_update)

lemma mset_slice_swap [simp]:
  "i < length h \<Longrightarrow> j < length h \<Longrightarrow> mset (slice_swap h i j) = mset h"
  unfolding slice_swap_def by (rule mset_swap)

lemma parent_cases: "0 < k \<Longrightarrow> parent k = i \<longleftrightarrow> k = 2 * i + 1 \<or> k = 2 * i + 2"
  by arith

lemma heap_up_mset: "j < length h \<Longrightarrow> mset (heap_up lt h j) = mset h"
proof (induction lt h j rule: heap_up.induct)
  case (1 lt h j)
  then show ?case
    by (subst heap_up.simps) (auto simp: Let_def)
qed

lemma heap_up_length [simp]: "length (heap_up lt h j) = length h"
proof (induction lt h j rule: heap_up.induct)
  case (1 lt h j)
  then show ?case
    by (subst heap_up.simps) (auto simp: Let_def)
qed

lemma heap_down_length [simp]: "length (fst (heap_down lt h i n)) = length h"
proof (induction lt h i n rule: heap_down.induct)
  case (1 lt h i n)
  then show ?case
    by (subst heap_down.simps) (auto simp: Let_def)
qed

lemma heap_down_mset: "n \<le> length h \<Longrightarrow> mset (fst (heap_down lt h i n)) = mset h"
proof (induction lt h i n rule: heap_down.induct)
  case (1 lt h i n)
  then show ?case
    by (subst heap_down.simps) (auto simp: Let_def)
qed

lemma heap_down_beyond:
  "n \<le> length h \<Longrightarrow> n \<le> k \<Longrightarrow> k < length h \<Longrightarrow> fst (heap_down lt h i n) ! k = h ! k"
proof (induction lt h i n rule: heap_down.induct)
  case (1 lt h i n)
  then show ?case
    by (subst heap_down.simps) (auto simp: Let_def nth_slice_swap)
qed

lemma heap_down_ge: "i \<le> snd (heap_down lt h i n)"
proof (induction lt h i n rule: heap_down.induct)
  case (1 lt h i n)
  then show ?case
    by (subst heap_down.simps) (fastforce simp: Let_def)
qed

lemma heap_up_beyond: "j < k \<Longrightarrow> k < length h \<Longrightarrow> heap_up lt h j ! k = h ! k"
proof (induction lt h j rule: heap_up.induct)
  case (1 lt h j)
  then show ?case
    by (subst heap_up.simps) (auto simp: Let_def nth_slice_swap)
qed

lemma heap_push_mset [simp]: "mset (heap_push lt h x) = add_mset x (mset h)"
  by (simp add: heap_push_def heap_up_mset)

lemma heap_init_from_mset: "mset (heap_init_from lt h i) = mset h"
  by (induction i arbitrary: h) (simp_all add: heap_down_mset)

lemma heap_init_mset [simp]: "mset (heap_init lt h) = mset h"
  by (simp add: heap_init_def heap_init_from_mset)

lemma heap_pop_length: "length (snd (heap_pop lt h)) = length h - 1"
  by (simp add: heap_pop_def Let_def)

lemma is_heap_Nil [simp]: "is_heap lt []"
  by (simp add: is_heap_def heap_from_def)

section \<open>Correctness for a strict weak order\<close>

locale heap_order =
  fixes lt :: "'a \<Rightarrow> 'a \<Rightarrow> bool"
  assumes lt_asym: "lt a b \<Longrightarrow> \<not> lt b a"
    and not_lt_trans: "\<not> lt b a \<Longrightarrow> \<not> lt c b \<Longrightarrow> \<not> lt c a"
begin

lemma not_lt_refl [simp]: "\<not> lt a a"
  using lt_asym by blast

lemma heap_root_least:
  "heap_from lt h n 0 \<Longrightarrow> k < n \<Longrightarrow> \<not> lt (h ! k) (h ! 0)"
proof (induction k rule: less_induct)
  case (less k)
  show ?case
  proof (cases "k = 0")
    case False
    then have "\<not> lt (h ! k) (h ! parent k)"
      using less.prems by (simp add: heap_from_def)
    moreover have "\<not> lt (h ! parent k) (h ! 0)"
      using False less.prems by (intro less.IH) auto
    ultimately show ?thesis using not_lt_trans by blast
  qed simp
qed

text \<open>
  What \<open>down\<close> starts from: every edge is ordered but those below \<open>i\<close>, and the children of \<open>i\<close> are
  not smaller than the parent of \<open>i\<close>. The weak form leaves the edge above \<open>i\<close> open too, as \<open>Remove\<close>
  does.
\<close>

definition sift_pre :: "'a list \<Rightarrow> nat \<Rightarrow> nat \<Rightarrow> nat \<Rightarrow> bool" where
  "sift_pre h i n s \<longleftrightarrow> n \<le> length h \<and>
     (\<forall>k < n. 0 < k \<longrightarrow> s \<le> parent k \<longrightarrow> parent k \<noteq> i \<longrightarrow> \<not> lt (h ! k) (h ! parent k)) \<and>
     (\<forall>c < n. 0 < c \<longrightarrow> parent c = i \<longrightarrow> 0 < i \<longrightarrow> s \<le> parent i \<longrightarrow> \<not> lt (h ! c) (h ! parent i))"

definition sift_weak :: "'a list \<Rightarrow> nat \<Rightarrow> nat \<Rightarrow> nat \<Rightarrow> bool" where
  "sift_weak h i n s \<longleftrightarrow> n \<le> length h \<and>
     (\<forall>k < n. 0 < k \<longrightarrow> s \<le> parent k \<longrightarrow> parent k \<noteq> i \<longrightarrow> k \<noteq> i \<longrightarrow> \<not> lt (h ! k) (h ! parent k)) \<and>
     (\<forall>c < n. 0 < c \<longrightarrow> parent c = i \<longrightarrow> 0 < i \<longrightarrow> s \<le> parent i \<longrightarrow> \<not> lt (h ! c) (h ! parent i))"

lemma sift_pre_weak: "sift_pre h i n s \<Longrightarrow> sift_weak h i n s"
  by (simp add: sift_pre_def sift_weak_def)

definition smaller_child :: "'a list \<Rightarrow> nat \<Rightarrow> nat \<Rightarrow> nat" where
  "smaller_child h i n =
     (if 2 * i + 2 < n \<and> lt (h ! (2 * i + 2)) (h ! (2 * i + 1)) then 2 * i + 2 else 2 * i + 1)"

lemma heap_down_unfold:
  "heap_down lt h i n =
     (if n \<le> 2 * i + 1 then (h, i)
      else if \<not> lt (h ! smaller_child h i n) (h ! i) then (h, i)
      else heap_down lt (slice_swap h i (smaller_child h i n)) (smaller_child h i n) n)"
  by (subst heap_down.simps) (simp add: Let_def smaller_child_def)

lemma smaller_child_bounds:
  "\<not> n \<le> 2 * i + 1 \<Longrightarrow> smaller_child h i n < n"
  "parent (smaller_child h i n) = i" "i < smaller_child h i n"
  by (auto simp: smaller_child_def)

lemma smaller_child_least:
  "c < n \<Longrightarrow> 0 < c \<Longrightarrow> parent c = i \<Longrightarrow> \<not> lt (h ! c) (h ! smaller_child h i n)"
  using parent_cases [of c i] lt_asym by (auto simp: smaller_child_def split: if_splits)

lemma sift_pre_step:
  assumes pre: "sift_weak h i n s" and child: "\<not> n \<le> 2 * i + 1"
    and j: "j = smaller_child h i n" and lt: "lt (h ! j) (h ! i)"
  shows "sift_pre (slice_swap h i j) j n s"
proof -
  let ?h = "slice_swap h i j"
  have jn: "j < n" "parent j = i" "i < j"
    using smaller_child_bounds child j by auto
  have len: "n \<le> length h" using pre by (simp add: sift_weak_def)
  have nth: "?h ! k = (if k = j then h ! i else if k = i then h ! j else h ! k)" if "k < n" for k
    using that jn len by (simp add: nth_slice_swap)
  have A: "\<not> lt (h ! k) (h ! parent k)"
    if "k < n" "0 < k" "s \<le> parent k" "parent k \<noteq> i" "k \<noteq> i" for k
    using pre that by (simp add: sift_weak_def)
  have B: "\<not> lt (h ! c) (h ! parent i)" if "c < n" "0 < c" "parent c = i" "0 < i" "s \<le> parent i" for c
    using pre that by (simp add: sift_weak_def)
  have "\<not> lt (?h ! k) (?h ! parent k)" if k: "k < n" "0 < k" "s \<le> parent k" "parent k \<noteq> j" for k
  proof -
    have pk: "parent k < n" "parent k < k" using k by auto
    consider "parent k = i" | "parent k \<noteq> i" "k = i" | "parent k \<noteq> i" "k \<noteq> i" by blast
    then show ?thesis
    proof cases
      case 1
      have "?h ! parent k = h ! j" using nth [OF pk(1)] 1 jn by simp
      moreover have "?h ! k = (if k = j then h ! i else h ! k)" using nth [OF k(1)] pk 1 by simp
      ultimately show ?thesis
        using smaller_child_least [OF k(1,2) 1, of h] lt_asym [OF lt] j by simp
    next
      case 2
      then show ?thesis using k pk jn B [of j] by (auto simp: nth)
    next
      case 3
      then show ?thesis using k pk jn A [of k] by (auto simp: nth)
    qed
  qed
  moreover have "\<not> lt (?h ! c) (?h ! parent j)"
    if "c < n" "0 < c" "parent c = j" "0 < j" "s \<le> parent j" for c
    using that jn A [of c] by (auto simp: nth)
  ultimately show ?thesis using len by (simp add: sift_pre_def)
qed

lemma sift_pre_done:
  assumes "sift_pre h i n s" and "n \<le> 2 * i + 1 \<or> \<not> lt (h ! smaller_child h i n) (h ! i)"
  shows "heap_from lt h n s"
  unfolding heap_from_def
proof (intro allI impI)
  fix k assume k: "k < n" "0 < k" "s \<le> parent k"
  show "\<not> lt (h ! k) (h ! parent k)"
  proof (cases "parent k = i")
    case True
    then have "\<not> n \<le> 2 * i + 1" using k parent_cases [of k i] by auto
    then have "\<not> lt (h ! smaller_child h i n) (h ! i)" using assms(2) by blast
    then show ?thesis using smaller_child_least [OF k(1,2) True] not_lt_trans True by metis
  next
    case False
    then show ?thesis using assms(1) k by (simp add: sift_pre_def)
  qed
qed

lemma heap_down_heap: "sift_pre h i n s \<Longrightarrow> heap_from lt (fst (heap_down lt h i n)) n s"
proof (induction "n - i" arbitrary: h i rule: less_induct)
  case less
  let ?j = "smaller_child h i n"
  show ?case
  proof (cases "n \<le> 2 * i + 1 \<or> \<not> lt (h ! ?j) (h ! i)")
    case True
    then show ?thesis
      using sift_pre_done [OF less.prems] by (subst heap_down_unfold) auto
  next
    case False
    have "heap_from lt (fst (heap_down lt (slice_swap h i ?j) ?j n)) n s"
    proof (rule less.hyps)
      show "n - ?j < n - i" using smaller_child_bounds(1) [of n i h] smaller_child_bounds(3) [of i h n] False by auto
      show "sift_pre (slice_swap h i ?j) ?j n s" using sift_pre_step [OF sift_pre_weak] less.prems False by blast
    qed
    then show ?thesis using False by (subst heap_down_unfold) auto
  qed
qed

text \<open>What \<open>up\<close> starts from: every edge is ordered but the one above \<open>j\<close>.\<close>

definition rise_pre :: "'a list \<Rightarrow> nat \<Rightarrow> nat \<Rightarrow> bool" where
  "rise_pre h j n \<longleftrightarrow> j < n \<and> n \<le> length h \<and>
     (\<forall>k < n. 0 < k \<longrightarrow> k \<noteq> j \<longrightarrow> \<not> lt (h ! k) (h ! parent k)) \<and>
     (\<forall>c < n. 0 < c \<longrightarrow> parent c = j \<longrightarrow> 0 < j \<longrightarrow> \<not> lt (h ! c) (h ! parent j))"

lemma rise_pre_step:
  assumes pre: "rise_pre h j n" and j0: "0 < j" and lt: "lt (h ! j) (h ! parent j)"
  shows "rise_pre (slice_swap h (parent j) j) (parent j) n"
proof -
  define i where "i = parent j"
  let ?h = "slice_swap h i j"
  have ij: "i < j" "j < n" "n \<le> length h" using pre j0 by (auto simp: rise_pre_def i_def)
  have nth: "?h ! k = (if k = j then h ! i else if k = i then h ! j else h ! k)" if "k < n" for k
    using that ij by (simp add: nth_slice_swap)
  have A: "\<not> lt (h ! k) (h ! parent k)" if "k < n" "0 < k" "k \<noteq> j" for k
    using pre that by (simp add: rise_pre_def)
  have B: "\<not> lt (h ! c) (h ! i)" if "c < n" "0 < c" "parent c = j" for c
    using pre that j0 by (simp add: rise_pre_def i_def)
  have lt': "\<not> lt (h ! i) (h ! j)" using lt_asym [OF lt] by (simp add: i_def)
  have "\<not> lt (?h ! k) (?h ! parent k)" if k: "k < n" "0 < k" "k \<noteq> i" for k
  proof -
    have pk: "parent k < n" "parent k < k" using k by auto
    consider "k = j" | "k \<noteq> j" "parent k = j" | "k \<noteq> j" "parent k = i" |
      "k \<noteq> j" "parent k \<noteq> j" "parent k \<noteq> i" by blast
    then show ?thesis
    proof cases
      case 1
      then have "parent k = i" by (simp add: i_def)
      then show ?thesis using nth [OF k(1)] nth [OF pk(1)] 1 ij lt' by simp
    next
      case 2
      then show ?thesis using nth [OF k(1)] nth [OF pk(1)] k B [of k] by simp
    next
      case 3
      then have "\<not> lt (h ! k) (h ! j)" using A [of k] k not_lt_trans [OF lt', of "h ! k"] by simp
      then show ?thesis using nth [OF k(1)] nth [OF pk(1)] 3 ij k by simp
    next
      case 4
      then show ?thesis using nth [OF k(1)] nth [OF pk(1)] k A [of k] by simp
    qed
  qed
  moreover have "\<not> lt (?h ! c) (?h ! parent i)" if c: "c < n" "0 < c" "parent c = i" "0 < i" for c
  proof -
    have pi: "parent i < i" "parent i < n" using c ij by auto
    have up: "\<not> lt (h ! i) (h ! parent i)" using A [of i] c ij by auto
    have top: "?h ! parent i = h ! parent i" using nth [OF pi(2)] pi ij by simp
    show ?thesis
    proof (cases "c = j")
      case True
      then show ?thesis using top nth [OF c(1)] up by simp
    next
      case False
      moreover have "c \<noteq> i" using c by auto
      moreover have "\<not> lt (h ! c) (h ! parent i)"
        using A [of c] c False not_lt_trans [OF up, of "h ! c"] by simp
      ultimately show ?thesis using top nth [OF c(1)] by simp
    qed
  qed
  ultimately show ?thesis using ij by (simp add: rise_pre_def i_def)
qed

lemma heap_up_heap: "rise_pre h j n \<Longrightarrow> heap_from lt (heap_up lt h j) n 0"
proof (induction j arbitrary: h rule: less_induct)
  case (less j)
  show ?case
  proof (cases "parent j = j \<or> \<not> lt (h ! j) (h ! parent j)")
    case True
    then have "heap_up lt h j = h" by (subst heap_up.simps) (auto simp: Let_def)
    moreover have "\<not> lt (h ! k) (h ! parent k)" if "k < n" "0 < k" for k
      using less.prems that True by (cases "k = j") (auto simp: rise_pre_def)
    ultimately show ?thesis by (simp add: heap_from_def)
  next
    case False
    then have j: "0 < j" "parent j < j" by auto
    have "heap_up lt h j = heap_up lt (slice_swap h (parent j) j) (parent j)"
      using False by (subst heap_up.simps) (auto simp: Let_def)
    then show ?thesis
      using less.IH [OF j(2)] rise_pre_step [OF less.prems j(1)] False by auto
  qed
qed

lemma heap_push_heap: "is_heap lt h \<Longrightarrow> is_heap lt (heap_push lt h x)"
proof -
  assume h: "is_heap lt h"
  have "rise_pre (h @ [x]) (length h) (Suc (length h))"
    using h by (auto simp: rise_pre_def is_heap_def heap_from_def nth_append)
  then show ?thesis
    using heap_up_heap by (simp add: is_heap_def heap_push_def)
qed

lemma heap_init_heap: "is_heap lt (heap_init lt h)"
proof -
  have len: "length (heap_init_from lt g i) = length g" for g i
    by (induction i arbitrary: g) auto
  have "heap_from lt g (length g) i \<Longrightarrow> heap_from lt (heap_init_from lt g i) (length g) 0" for g i
  proof (induction i arbitrary: g)
    case (Suc i)
    then have "sift_pre g i (length g) i"
      by (auto simp: heap_from_def sift_pre_def)
    then have "heap_from lt (fst (heap_down lt g i (length g))) (length g) i"
      by (rule heap_down_heap)
    then show ?case using Suc.IH [of "fst (heap_down lt g i (length g))"] by simp
  qed simp
  moreover have "heap_from lt h (length h) (length h div 2)"
    by (auto simp: heap_from_def)
  ultimately show ?thesis by (simp add: is_heap_def heap_init_def len)
qed

lemma heap_pop_split:
  assumes "length h' = Suc n" and "h' ! n = x" and "mset h' = mset h" and "heap_from lt h' n 0"
  shows "last h' = x" "add_mset x (mset (butlast h')) = mset h" "is_heap lt (butlast h')"
proof -
  have "h' \<noteq> []" using assms(1) by auto
  then have split: "butlast h' @ [last h'] = h'" by simp
  show "last h' = x" using assms(1,2) \<open>h' \<noteq> []\<close> by (simp add: last_conv_nth)
  then show "add_mset x (mset (butlast h')) = mset h"
    using arg_cong [OF split, of mset] assms(3) by simp
  show "is_heap lt (butlast h')"
    using assms(1,4) by (auto simp: is_heap_def heap_from_def nth_butlast)
qed

lemma heap_pop_correct:
  assumes heap: "is_heap lt h" and ne: "h \<noteq> []" and pop: "heap_pop lt h = (x, r)"
  shows "x = h ! 0" "add_mset x (mset r) = mset h" "is_heap lt r"
proof -
  define n where "n = length h - 1"
  define g where "g = slice_swap h 0 n"
  define h' where "h' = fst (heap_down lt g 0 n)"
  have r: "x = last h'" "r = butlast h'"
    using pop unfolding heap_pop_def Let_def n_def [symmetric] g_def [symmetric] h'_def [symmetric]
    by simp_all
  have n: "length h = Suc n" using ne by (simp add: n_def)
  have nth: "g ! k = (if k = n then h ! 0 else if k = 0 then h ! n else h ! k)" if "k \<le> n" for k
    using that n by (simp add: g_def nth_slice_swap)
  have "\<not> lt (g ! k) (g ! parent k)" if k: "k < n" "0 < k" "parent k \<noteq> 0" for k
  proof -
    have "parent k < n" using k by auto
    then show ?thesis using k nth [of k] nth [of "parent k"] heap n
      by (simp add: is_heap_def heap_from_def)
  qed
  then have "sift_pre g 0 n 0" using n by (simp add: sift_pre_def g_def)
  then have "heap_from lt h' n 0" unfolding h'_def by (rule heap_down_heap)
  moreover have "h' ! n = h ! 0"
    using n nth by (simp add: h'_def heap_down_beyond g_def)
  ultimately show "x = h ! 0" "add_mset x (mset r) = mset h" "is_heap lt r"
    using heap_pop_split [of h' n "h ! 0" h] r n by (auto simp: h'_def g_def heap_down_mset)
qed

lemma heap_remove_weak:
  assumes "is_heap lt h" and i: "i < n" and n: "length h = Suc n"
  shows "sift_weak (slice_swap h i n) i n 0"
proof -
  let ?g = "slice_swap h i n"
  have nth: "?g ! k = (if k = i then h ! n else h ! k)" if "k < n" for k
    using that i n by (simp add: nth_slice_swap)
  have ord: "\<not> lt (h ! k) (h ! parent k)" if "k < n" "0 < k" for k
    using assms(1) that n by (simp add: is_heap_def heap_from_def)
  have "\<not> lt (?g ! k) (?g ! parent k)" if "k < n" "0 < k" "parent k \<noteq> i" "k \<noteq> i" for k
  proof -
    have "parent k < n" using that by auto
    then show ?thesis using that nth [of k] nth [of "parent k"] ord by simp
  qed
  moreover have "\<not> lt (?g ! c) (?g ! parent i)" if c: "c < n" "0 < c" "parent c = i" "0 < i" for c
  proof -
    have "parent i < n" "parent i \<noteq> i" "c \<noteq> i" using c i by auto
    moreover have "\<not> lt (h ! c) (h ! parent i)"
      using ord [of c] ord [of i] c i not_lt_trans [of "h ! i" "h ! parent i" "h ! c"] by simp
    ultimately show ?thesis using c nth [of c] nth [of "parent i"] by simp
  qed
  ultimately show ?thesis using n by (simp add: sift_weak_def)
qed

text \<open>
  \<open>Remove\<close> sifts the moved element down and, only when it did not move, up: both ways the heap is
  restored.
\<close>

lemma heap_fix_heap:
  assumes weak: "sift_weak g i n 0" and i: "i < n"
    and g': "g' = (case heap_down lt g i n of (f, i') \<Rightarrow> if i < i' then f else heap_up lt f i)"
  shows "heap_from lt g' n 0" "mset g' = mset g" "\<forall>k. n \<le> k \<longrightarrow> k < length g \<longrightarrow> g' ! k = g ! k"
proof -
  let ?j = "smaller_child g i n"
  have len: "n \<le> length g" using weak by (simp add: sift_weak_def)
  obtain f i' where f: "heap_down lt g i n = (f, i')" by fastforce
  have f_mset: "mset f = mset g" and f_len: "length f = length g"
    and f_nth: "\<And>k. n \<le> k \<Longrightarrow> k < length g \<Longrightarrow> f ! k = g ! k"
    using heap_down_mset [OF len, of lt i] heap_down_length [of lt g i n]
      heap_down_beyond [OF len, of _ lt i] f by auto
  show "mset g' = mset g"
    using g' f f_mset f_len len i by (simp add: heap_up_mset)
  show "\<forall>k. n \<le> k \<longrightarrow> k < length g \<longrightarrow> g' ! k = g ! k"
    using g' f f_nth f_len i by (simp add: heap_up_beyond)
  show "heap_from lt g' n 0"
  proof (cases "n \<le> 2 * i + 1 \<or> \<not> lt (g ! ?j) (g ! i)")
    case True
    then have "heap_down lt g i n = (g, i)" by (subst heap_down_unfold) auto
    moreover have "rise_pre g i n"
    proof -
      have "\<not> lt (g ! k) (g ! parent k)" if k: "k < n" "0 < k" "k \<noteq> i" for k
      proof (cases "parent k = i")
        case pk: True
        then have "\<not> n \<le> 2 * i + 1" using k parent_cases [of k i] by auto
        then show ?thesis
          using True smaller_child_least [OF k(1,2) pk, of g] pk not_lt_trans by metis
      next
        case False
        then show ?thesis using weak k by (simp add: sift_weak_def)
      qed
      then show ?thesis using weak i len by (auto simp: rise_pre_def sift_weak_def)
    qed
    ultimately show ?thesis using g' heap_up_heap by simp
  next
    case False
    then have step: "heap_down lt g i n = heap_down lt (slice_swap g i ?j) ?j n"
      by (subst heap_down_unfold) auto
    have "sift_pre (slice_swap g i ?j) ?j n 0" using sift_pre_step [OF weak] False by blast
    then have "heap_from lt (fst (heap_down lt g i n)) n 0"
      using step heap_down_heap by simp
    moreover have "i < snd (heap_down lt g i n)"
      using smaller_child_bounds(3) [of i g n] heap_down_ge [of ?j lt "slice_swap g i ?j" n] step by simp
    ultimately show ?thesis using g' by (simp split: prod.splits)
  qed
qed

lemma heap_remove_correct:
  assumes heap: "is_heap lt h" and i: "i < length h" and rem: "heap_remove lt h i = (x, r)"
  shows "x = h ! i" "add_mset x (mset r) = mset h" "is_heap lt r"
proof -
  define n where "n = length h - 1"
  have n: "length h = Suc n" using i by (auto simp: n_def)
  define h' where "h' = (if n \<noteq> i then (case heap_down lt (slice_swap h i n) i n of
      (g, i') \<Rightarrow> if i < i' then g else heap_up lt g i) else h)"
  have r: "x = last h'" "r = butlast h'"
    using rem unfolding heap_remove_def Let_def n_def [symmetric] h'_def [symmetric] by simp_all
  have "length h' = Suc n \<and> h' ! n = h ! i \<and> mset h' = mset h \<and> heap_from lt h' n 0"
  proof (cases "n = i")
    case True
    then show ?thesis using heap n by (simp add: h'_def is_heap_def heap_from_def)
  next
    case False
    then have "i < n" using i n by simp
    note restored = heap_fix_heap [OF heap_remove_weak [OF heap \<open>i < n\<close> n] \<open>i < n\<close>, of h']
    have "mset h' = mset h" using restored(2) False i n by (simp add: h'_def)
    moreover from this have "length h' = Suc n" using n mset_eq_length by metis
    moreover have "h' ! n = h ! i" using restored(3) False i n by (simp add: h'_def nth_slice_swap)
    ultimately show ?thesis using restored(1) False by (simp add: h'_def)
  qed
  then show "x = h ! i" "add_mset x (mset r) = mset h" "is_heap lt r"
    using heap_pop_split [of h' n "h ! i" h] r by auto
qed

end

end
