(* ===== verification/Utils.thy ===== *)
theory Utils
  imports Prelude
begin

text \<open>
  The pure helpers of \<open>internal/utils\<close>: hexadecimal and bit counting (\<open>bytes.go\<close>), key and xs
  helpers (\<open>utils.go\<close>) and the timeout clock of the consensus (\<open>timer.go\<close>). A reading of
  \<open>time.Now()\<close> is an argument, in nanoseconds.
\<close>

section \<open>bytes.go\<close>

definition halfByteLookup :: "nat list" where
  "halfByteLookup = [0, 1, 1, 2, 1, 2, 2, 3, 1, 2, 2, 3, 2, 3, 3, 4]"

definition Hex2Bytes :: "string \<Rightarrow> bytes" where
  "Hex2Bytes str = hex_decode str"

definition FromHex :: "string \<Rightarrow> bytes" where
  "FromHex s =
     (let s = (if 1 < length s \<and> (take 2 s = ''0x'' \<or> take 2 s = ''0X'') then drop 2 s else s);
          s = (if length s mod 2 = 1 then CHR ''0'' # s else s)
      in Hex2Bytes s)"

definition countOneBitsInByte :: "u8 \<Rightarrow> nat" where
  "countOneBitsInByte b =
     halfByteLookup ! unat (b AND 0x0F) + halfByteLookup ! unat (drop_bit 4 b)"

fun countOneBits_loop :: "nat \<Rightarrow> bytes \<Rightarrow> nat" where
  "countOneBits_loop n [] = n"
| "countOneBits_loop n (b # bs) = countOneBits_loop (n + countOneBitsInByte b) bs"

definition CountOneBits :: "bytes option \<Rightarrow> int" where
  "CountOneBits arr =
     (case arr of
        None \<Rightarrow> 0
      | Some bs \<Rightarrow> if length bs = 0 then 0 else int (countOneBits_loop 0 bs))"

section \<open>utils.go\<close>

definition GetUniqueIDFromIPPort :: "string \<Rightarrow> string \<Rightarrow> u32" where
  "GetUniqueIDFromIPPort ip port =
     (let socketID = filter is_digit (ip @ port);
          n = min (parse_decimal socketID) (2 ^ 63 - 1)
      in word_of_nat n)"

definition chopPath :: "string \<Rightarrow> string" where
  "chopPath original = rev (takeWhile (\<lambda>c. c \<noteq> CHR ''/'') (rev original))"

definition GetPendingCXKey :: "u32 \<Rightarrow> u64 \<Rightarrow> string" where
  "GetPendingCXKey shardID blockNum = decimal (unat shardID) @ ''-'' @ decimal (unat blockNum)"

definition AppendIfMissing :: "address list \<Rightarrow> address \<Rightarrow> address list \<times> bool" where
  "AppendIfMissing xs addr =
     (if list_ex (\<lambda>ele. ele = addr) xs then (xs, False) else (xs @ [addr], True))"

section \<open>timer.go\<close>

datatype TimeoutState = Active | Inactive | Expired

record Timeout =
  tm_state :: TimeoutState
  tm_d :: int
  tm_start :: int

definition NewTimeout :: "int \<Rightarrow> int \<Rightarrow> Timeout" where
  "NewTimeout now d = \<lparr>tm_state = Inactive, tm_d = d, tm_start = now\<rparr>"

definition Timeout_Start :: "int \<Rightarrow> Timeout \<Rightarrow> Timeout" where
  "Timeout_Start now t = t\<lparr>tm_state := Active, tm_start := now\<rparr>"

definition Timeout_Stop :: "int \<Rightarrow> Timeout \<Rightarrow> Timeout" where
  "Timeout_Stop now t = t\<lparr>tm_state := Inactive, tm_start := now\<rparr>"

definition CheckExpire :: "int \<Rightarrow> Timeout \<Rightarrow> bool \<times> Timeout" where
  "CheckExpire now t =
     (let t = (if tm_state t = Active \<and> tm_d t < now - tm_start t
               then t\<lparr>tm_state := Expired\<rparr> else t)
      in if tm_state t = Expired then (True, t) else (False, t))"

definition Timeout_Duration :: "Timeout \<Rightarrow> int" where
  "Timeout_Duration t = tm_d t"

definition SetDuration :: "int \<Rightarrow> Timeout \<Rightarrow> Timeout" where
  "SetDuration nd t = t\<lparr>tm_d := nd\<rparr>"

definition Timeout_IsActive :: "Timeout \<Rightarrow> bool" where
  "Timeout_IsActive t \<longleftrightarrow> tm_state t = Active"

section \<open>Facts\<close>

text \<open>The number of bits set in a byte, and in a byte array.\<close>

definition ones :: "u8 \<Rightarrow> nat" where
  "ones b = length (filter (bit b) [0..<8])"

lemma countOneBitsInByte_upto: "\<forall>n \<in> set [0..<256]. countOneBitsInByte (word_of_nat n) = ones (word_of_nat n)"
  by code_simp

lemma countOneBitsInByte_ones: "countOneBitsInByte b = ones b"
proof -
  have "unat b \<in> set [0..<256]" using unsigned_less [of b, where 'a = nat] by simp
  then have "countOneBitsInByte (word_of_nat (unat b)) = ones (word_of_nat (unat b))"
    using countOneBitsInByte_upto by blast
  then show ?thesis by simp
qed

lemma countOneBits_loop_ones: "countOneBits_loop c bs = c + sum_list (map ones bs)"
  by (induction bs arbitrary: c) (simp_all add: countOneBitsInByte_ones)

lemma ones_le: "ones b \<le> 8"
  unfolding ones_def by (rule order_trans [OF length_filter_le]) simp

lemma CountOneBits_Some: "CountOneBits (Some bs) = int (sum_list (map ones bs))"
  by (simp add: CountOneBits_def countOneBits_loop_ones)

lemma CountOneBits_bounds: "0 \<le> CountOneBits arr"
  "CountOneBits (Some bs) \<le> 8 * int (length bs)"
proof -
  show "0 \<le> CountOneBits arr" by (simp add: CountOneBits_def split: option.split)
  have "sum_list (map ones bs) \<le> 8 * length bs"
    using sum_list_mono [of bs ones "\<lambda>_. 8"] ones_le by (simp add: sum_list_triv)
  then show "CountOneBits (Some bs) \<le> 8 * int (length bs)"
    by (simp add: CountOneBits_Some)
qed

lemma hex_encode_no_x: "c \<in> set (hex_encode bs) \<Longrightarrow> c \<noteq> CHR ''x'' \<and> c \<noteq> CHR ''X''"
proof (induction bs)
  case (Cons b bs)
  have digit: "n < 16 \<Longrightarrow> digit_char n \<noteq> CHR ''x'' \<and> digit_char n \<noteq> CHR ''X''" for n
    using digit_value_char [of n] by (auto simp: digit_value_def upt_rec split: if_splits)
  from Cons show ?case
    using digit byte_nibbles [of b] by (auto simp: hex_encode_def)
qed (simp add: hex_encode_def)

text \<open>Hexadecimal text is read back with or without its prefix.\<close>

lemma FromHex_roundtrip:
  "FromHex (hex_encode bs) = bs"
  "FromHex (''0x'' @ hex_encode bs) = bs"
proof -
  have "take 2 (hex_encode bs) \<noteq> CHR ''0'' # [x]" if "x = CHR ''x'' \<or> x = CHR ''X''" for x
  proof
    assume "take 2 (hex_encode bs) = CHR ''0'' # [x]"
    then have "x \<in> set (take 2 (hex_encode bs))" by simp
    then have "x \<in> set (hex_encode bs)" by (rule in_set_takeD)
    then show False using that hex_encode_no_x by blast
  qed
  then show "FromHex (hex_encode bs) = bs"
    by (simp add: FromHex_def Hex2Bytes_def Let_def)
  show "FromHex (''0x'' @ hex_encode bs) = bs"
    by (simp add: FromHex_def Hex2Bytes_def Let_def)
qed

lemma dash_not_decimal: "CHR ''-'' \<notin> set (decimal n)"
  using decimal_digits by (force simp: is_digit_def)

lemma GetPendingCXKey_inject:
  "GetPendingCXKey s b = GetPendingCXKey s' b' \<longleftrightarrow> s = s' \<and> b = b'"
  by (simp add: GetPendingCXKey_def append_separator_inject dash_not_decimal word_unat_eq_iff)

lemma AppendIfMissing_set:
  "AppendIfMissing xs a = (ys, added) \<Longrightarrow>
   set ys = insert a (set xs) \<and> (added \<longleftrightarrow> a \<notin> set xs) \<and> (distinct xs \<longrightarrow> distinct ys)"
  by (auto simp: AppendIfMissing_def list_ex_iff split: if_splits)

end
