(* ===== verification/Quorum.thy ===== *)
theory Quorum
  imports Utils
begin

text \<open>
  The voting state of a committee: \<open>consensus/quorum/quorum.go\<close> (\<open>cIdentities\<close> and the decider),
  \<open>consensus/quorum/one-node-one-vote.go\<close> (\<open>uniformVoteWeight\<close>), the ballot and round of
  \<open>consensus/votepower/roster.go\<close> and the key lists of \<open>multibls/multibls.go\<close>.

  Objects of the BLS library (public keys, signatures) are represented by byte strings, and every
  operation of that library on them is a parameter (\<open>bls_lib\<close>). A mask is read only through its
  \<open>Bitmap\<close>.
\<close>

section \<open>The BLS library as a parameter\<close>

type_synonym bls_public = bytes
type_synonym bls_secret = bytes
type_synonym bls_sign = bytes

record PublicKeyWrapper =
  pk_Bytes :: blskey
  pk_Object :: bls_public

record PrivateKeyWrapper =
  sk_Pri :: bls_secret
  sk_Pub :: PublicKeyWrapper

record bls_lib =
  bl_IsEqual :: "bls_public \<Rightarrow> bls_public \<Rightarrow> bool"
  bl_SerializeToHexStr :: "bls_sign \<Rightarrow> string"
  bl_DeserializeHexStr :: "string \<Rightarrow> bls_sign"
  bl_AggregateSig :: "bls_sign list \<Rightarrow> bls_sign"
  bl_WrapperFromPrivateKey :: "bls_secret \<Rightarrow> PrivateKeyWrapper"
  bl_Bytes2Hex :: "bytes \<Rightarrow> string"
  bl_Hex2Bytes :: "string \<Rightarrow> bytes"
  bl_KeyHex :: "blskey \<Rightarrow> string"

section \<open>multibls.go\<close>

definition PublicKeys_SerializeToHexStr :: "bls_lib \<Rightarrow> PublicKeyWrapper list option \<Rightarrow> string" where
  "PublicKeys_SerializeToHexStr L multiKey =
     (case multiKey of
        None \<Rightarrow> ''''
      | Some keys \<Rightarrow> concat (map (\<lambda>k. bl_KeyHex L (pk_Bytes k) @ '';'') keys))"

definition PublicKeys_Contains :: "bls_lib \<Rightarrow> PublicKeyWrapper list \<Rightarrow> bls_public \<Rightarrow> bool" where
  "PublicKeys_Contains L multiKey pubKey = list_ex (\<lambda>key. bl_IsEqual L (pk_Object key) pubKey) multiKey"

definition GetPublicKeys :: "PrivateKeyWrapper list \<Rightarrow> PublicKeyWrapper list" where
  "GetPublicKeys multiKey = map sk_Pub multiKey"

fun Dedup_loop :: "blskey list \<Rightarrow> PrivateKeyWrapper list \<Rightarrow> PrivateKeyWrapper list" where
  "Dedup_loop uniqueKeys [] = []"
| "Dedup_loop uniqueKeys (priKey # rest) =
     (if pk_Bytes (sk_Pub priKey) \<in> set uniqueKeys
      then Dedup_loop uniqueKeys rest
      else priKey # Dedup_loop (pk_Bytes (sk_Pub priKey) # uniqueKeys) rest)"

definition Dedup :: "PrivateKeyWrapper list \<Rightarrow> PrivateKeyWrapper list" where
  "Dedup multiKey = Dedup_loop [] multiKey"

definition GetPrivateKeys :: "bls_lib \<Rightarrow> bls_secret list \<Rightarrow> PrivateKeyWrapper list" where
  "GetPrivateKeys L secretKeys = map (bl_WrapperFromPrivateKey L) secretKeys"

section \<open>Ballots and rounds\<close>

record Ballot =
  SignerPubKeys :: "blskey list"
  BlockHeaderHash :: hash
  Signature :: bytes
  Height :: u64
  ViewID :: u64

record Round =
  AggregatedVote :: bls_sign
  BallotBox :: "(blskey, Ballot) gomap"

definition NewRound :: Round where
  "NewRound = \<lparr>AggregatedVote = [], BallotBox = []\<rparr>"

section \<open>Phases and policies\<close>

datatype Phase = Prepare | Commit | ViewChange | UnknownPhase u8

datatype Policy = SuperMajorityVote | SuperMajorityStake | UnknownPolicy u8

definition Phase_String :: "Phase \<Rightarrow> string" where
  "Phase_String p =
     (case p of
        Prepare \<Rightarrow> ''Prepare''
      | Commit \<Rightarrow> ''Commit''
      | ViewChange \<Rightarrow> ''viewChange''
      | UnknownPhase b \<Rightarrow> ''Unknown Quorum Phase '' @ decimal (unat b))"

definition Policy_String :: "Policy \<Rightarrow> string" where
  "Policy_String p =
     (case p of
        SuperMajorityStake \<Rightarrow> ''SuperMajorityStake''
      | SuperMajorityVote \<Rightarrow> ''SuperMajorityVote''
      | UnknownPolicy b \<Rightarrow> ''Unknown Quorum Policy '' @ decimal (unat b))"

section \<open>cIdentities\<close>

record cIdentities =
  publicKeys :: "PublicKeyWrapper list"
  keyIndexMap :: "(blskey, int) gomap"
  ci_prepare :: Round
  ci_commit :: Round
  ci_viewChange :: Round

datatype vote_error =
    DuplicateKey blskey
  | AlreadySubmitted blskey
  | PhaseUnknown Phase

definition newBallotsBackedSignatureReader :: cIdentities where
  "newBallotsBackedSignatureReader =
     \<lparr>publicKeys = [], keyIndexMap = [], ci_prepare = NewRound, ci_commit = NewRound,
      ci_viewChange = NewRound\<rparr>"

definition box_of :: "cIdentities \<Rightarrow> Phase \<Rightarrow> (blskey, Ballot) gomap" where
  "box_of s p =
     (case p of
        Prepare \<Rightarrow> BallotBox (ci_prepare s)
      | Commit \<Rightarrow> BallotBox (ci_commit s)
      | ViewChange \<Rightarrow> BallotBox (ci_viewChange s)
      | UnknownPhase _ \<Rightarrow> [])"

definition ReadBallot :: "cIdentities \<Rightarrow> Phase \<Rightarrow> blskey \<Rightarrow> Ballot option" where
  "ReadBallot s p pubkey = mget (box_of s p) pubkey"

definition ReadAllBallots :: "cIdentities \<Rightarrow> Phase \<Rightarrow> Ballot list" where
  "ReadAllBallots s p = map snd (box_of s p)"

fun AggregateVotes_loop :: "blskey list \<Rightarrow> Ballot list \<Rightarrow> Ballot list" where
  "AggregateVotes_loop collectedKeys [] = []"
| "AggregateVotes_loop collectedKeys (ballot # rest) =
     (if list_ex (\<lambda>key. key \<in> set collectedKeys) (SignerPubKeys ballot)
      then AggregateVotes_loop collectedKeys rest
      else ballot # AggregateVotes_loop (SignerPubKeys ballot @ collectedKeys) rest)"

definition AggregateVotes :: "bls_lib \<Rightarrow> cIdentities \<Rightarrow> Phase \<Rightarrow> bls_sign" where
  "AggregateVotes L s p =
     (let picked = AggregateVotes_loop [] (ReadAllBallots s p);
          sigs = map (\<lambda>ballot. bl_DeserializeHexStr L (bl_Bytes2Hex L (Signature ballot))) picked
      in bl_AggregateSig L sigs)"

definition IndexOf :: "cIdentities \<Rightarrow> blskey \<Rightarrow> int" where
  "IndexOf s pubKey = (case mget (keyIndexMap s) pubKey of Some index \<Rightarrow> index | None \<Rightarrow> -1)"

definition ParticipantsCount :: "cIdentities \<Rightarrow> int" where
  "ParticipantsCount s = int (length (publicKeys s))"

text \<open>
  Indexing a slice with a negative or too large index panics, and so does \<open>%\<close> by zero: both are
  \<open>None\<close>. Go's \<open>%\<close> truncates, so its result has the sign of the dividend (\<open>smod\<close>).
\<close>

definition slice_at :: "'a list \<Rightarrow> int \<Rightarrow> 'a option" where
  "slice_at xs i = (if 0 \<le> i \<and> i < int (length xs) then Some (xs ! nat i) else None)"

definition nth_next :: "cIdentities \<Rightarrow> int \<Rightarrow> PublicKeyWrapper \<Rightarrow> int \<Rightarrow> (bool \<times> PublicKeyWrapper) option" where
  "nth_next s numNodes pubKey next_n =
     (let idx = IndexOf s (pk_Bytes pubKey);
          found = (idx \<noteq> -1);
          numNodes = (if numNodes \<le> 0 \<or> int (length (publicKeys s)) < numNodes
                      then int (length (publicKeys s)) else numNodes)
      in if numNodes = 0 then None
         else map_option (\<lambda>k. (found, k)) (slice_at (publicKeys s) ((idx + next_n) smod numNodes)))"

definition NthNext :: "cIdentities \<Rightarrow> PublicKeyWrapper \<Rightarrow> int \<Rightarrow> (bool \<times> PublicKeyWrapper) option" where
  "NthNext s pubKey next_n = nth_next s (ParticipantsCount s) pubKey next_n"

text \<open>
  \<open>instance.NumHarmonyOperatedNodesPerShard()\<close> is the only use of the instance, so it is passed as
  a number.
\<close>

definition NthNextHmy ::
  "int \<Rightarrow> cIdentities \<Rightarrow> PublicKeyWrapper \<Rightarrow> int \<Rightarrow> (bool \<times> PublicKeyWrapper) option" where
  "NthNextHmy numHarmonyNodes s pubKey next_n = nth_next s numHarmonyNodes pubKey next_n"

definition FirstParticipant :: "cIdentities \<Rightarrow> PublicKeyWrapper option" where
  "FirstParticipant s = slice_at (publicKeys s) 0"

definition Participants :: "cIdentities \<Rightarrow> PublicKeyWrapper list" where
  "Participants s = publicKeys s"

fun index_keys :: "nat \<Rightarrow> PublicKeyWrapper list \<Rightarrow> (blskey, int) gomap \<Rightarrow> (blskey, int) gomap" where
  "index_keys i [] m = m"
| "index_keys i (k # ks) m = index_keys (Suc i) ks (mput (pk_Bytes k) (int i) m)"

definition UpdateParticipants :: "PublicKeyWrapper list \<Rightarrow> cIdentities \<Rightarrow> cIdentities" where
  "UpdateParticipants pubKeys s = s\<lparr>publicKeys := pubKeys, keyIndexMap := index_keys 0 pubKeys []\<rparr>"

definition SignersCount :: "cIdentities \<Rightarrow> Phase \<Rightarrow> int" where
  "SignersCount s p =
     (case p of
        Prepare \<Rightarrow> int (length (BallotBox (ci_prepare s)))
      | Commit \<Rightarrow> int (length (BallotBox (ci_commit s)))
      | ViewChange \<Rightarrow> int (length (BallotBox (ci_viewChange s)))
      | UnknownPhase _ \<Rightarrow> 0)"

fun check_vote_keys :: "cIdentities \<Rightarrow> Phase \<Rightarrow> blskey list \<Rightarrow> blskey list \<Rightarrow> vote_error option" where
  "check_vote_keys s p seenKeys [] = None"
| "check_vote_keys s p seenKeys (pubKey # rest) =
     (if pubKey \<in> set seenKeys then Some (DuplicateKey pubKey)
      else if ReadBallot s p pubKey \<noteq> None then Some (AlreadySubmitted pubKey)
      else check_vote_keys s p (pubKey # seenKeys) rest)"

definition record_ballot :: "Phase \<Rightarrow> Ballot \<Rightarrow> blskey \<Rightarrow> cIdentities \<Rightarrow> vote_error + cIdentities" where
  "record_ballot p ballot pubKey s =
     (case p of
        Prepare \<Rightarrow> Inr (s\<lparr>ci_prepare := (ci_prepare s)\<lparr>BallotBox := mput pubKey ballot (BallotBox (ci_prepare s))\<rparr>\<rparr>)
      | Commit \<Rightarrow> Inr (s\<lparr>ci_commit := (ci_commit s)\<lparr>BallotBox := mput pubKey ballot (BallotBox (ci_commit s))\<rparr>\<rparr>)
      | ViewChange \<Rightarrow> Inr (s\<lparr>ci_viewChange := (ci_viewChange s)\<lparr>BallotBox := mput pubKey ballot (BallotBox (ci_viewChange s))\<rparr>\<rparr>)
      | UnknownPhase b \<Rightarrow> Inl (PhaseUnknown p))"

fun record_ballots :: "Phase \<Rightarrow> Ballot \<Rightarrow> blskey list \<Rightarrow> cIdentities \<Rightarrow> vote_error + cIdentities" where
  "record_ballots p ballot [] s = Inr s"
| "record_ballots p ballot (pubKey # rest) s =
     (case record_ballot p ballot pubKey s of
        Inl e \<Rightarrow> Inl e
      | Inr s' \<Rightarrow> record_ballots p ballot rest s')"

definition submitVote ::
  "bls_lib \<Rightarrow> Phase \<Rightarrow> blskey list \<Rightarrow> bls_sign \<Rightarrow> hash \<Rightarrow> u64 \<Rightarrow> u64 \<Rightarrow> cIdentities
     \<Rightarrow> vote_error + (Ballot \<times> cIdentities)" where
  "submitVote L p pubkeys sig headerHash height viewID s =
     (case check_vote_keys s p [] pubkeys of
        Some e \<Rightarrow> Inl e
      | None \<Rightarrow>
          (let ballot = \<lparr>SignerPubKeys = pubkeys, BlockHeaderHash = headerHash,
                         Signature = bl_Hex2Bytes L (bl_SerializeToHexStr L sig),
                         Height = height, ViewID = viewID\<rparr>
           in (case record_ballots p ballot pubkeys s of
                 Inl e \<Rightarrow> Inl e
               | Inr s' \<Rightarrow> Inr (ballot, s'))))"

fun ci_reset :: "Phase list \<Rightarrow> cIdentities \<Rightarrow> cIdentities" where
  "ci_reset [] s = s"
| "ci_reset (p # ps) s =
     ci_reset ps
       (case p of
          Prepare \<Rightarrow> s\<lparr>ci_prepare := NewRound\<rparr>
        | Commit \<Rightarrow> s\<lparr>ci_commit := NewRound\<rparr>
        | ViewChange \<Rightarrow> s\<lparr>ci_viewChange := NewRound\<rparr>
        | UnknownPhase _ \<Rightarrow> s)"

definition TwoThirdsSignersCount :: "cIdentities \<Rightarrow> int" where
  "TwoThirdsSignersCount s = ParticipantsCount s * 2 div 3 + 1"

section \<open>The decider\<close>

type_synonym key_provider = "(PublicKeyWrapper list \<times> string option) option"

record Decider =
  dc_provider :: key_provider
  dc_store :: cIdentities

definition NewDecider :: "Policy \<Rightarrow> u32 \<Rightarrow> Decider option" where
  "NewDecider p shardID =
     (case p of
        SuperMajorityVote \<Rightarrow>
          Some \<lparr>dc_provider = None, dc_store = newBallotsBackedSignatureReader\<rparr>
      | _ \<Rightarrow> None)"

definition SetMyPublicKeyProvider :: "key_provider \<Rightarrow> Decider \<Rightarrow> Decider" where
  "SetMyPublicKeyProvider p d = d\<lparr>dc_provider := p\<rparr>"

definition MyPublicKey :: "Decider \<Rightarrow> key_provider" where
  "MyPublicKey d = dc_provider d"

definition uniform_Policy :: "Decider \<Rightarrow> Policy" where
  "uniform_Policy d = SuperMajorityVote"

definition AddNewVote ::
  "bls_lib \<Rightarrow> Phase \<Rightarrow> PublicKeyWrapper list \<Rightarrow> bls_sign \<Rightarrow> hash \<Rightarrow> u64 \<Rightarrow> u64 \<Rightarrow> Decider
     \<Rightarrow> vote_error + (Ballot \<times> Decider)" where
  "AddNewVote L p pubKeys sig headerHash height viewID d =
     (case submitVote L p (map pk_Bytes pubKeys) sig headerHash height viewID (dc_store d) of
        Inl e \<Rightarrow> Inl e
      | Inr (ballot, s') \<Rightarrow> Inr (ballot, d\<lparr>dc_store := s'\<rparr>))"

definition IsQuorumAchieved :: "Decider \<Rightarrow> Phase \<Rightarrow> bool" where
  "IsQuorumAchieved d p \<longleftrightarrow> TwoThirdsSignersCount (dc_store d) \<le> SignersCount (dc_store d) p"

definition IsQuorumAchievedByMask :: "Decider \<Rightarrow> bytes option \<Rightarrow> bool" where
  "IsQuorumAchievedByMask d msk =
     (case msk of
        None \<Rightarrow> False
      | Some bitmap \<Rightarrow>
          (let threshold = TwoThirdsSignersCount (dc_store d);
               currentTotalPower = CountOneBits (Some bitmap)
           in if currentTotalPower < threshold then False else True))"

text \<open>\<open>numeric.NewDec\<close> is the constructor of the decimal library.\<close>

definition QuorumThreshold :: "(int \<Rightarrow> 'dec) \<Rightarrow> Decider \<Rightarrow> 'dec" where
  "QuorumThreshold NewDec d = NewDec (TwoThirdsSignersCount (dc_store d))"

definition IsAllSigsCollected :: "Decider \<Rightarrow> bool" where
  "IsAllSigsCollected d \<longleftrightarrow> SignersCount (dc_store d) Commit = ParticipantsCount (dc_store d)"

definition AmIMemberOfCommitee :: "bls_lib \<Rightarrow> Decider \<Rightarrow> bool" where
  "AmIMemberOfCommitee L d =
     (case MyPublicKey d of
        None \<Rightarrow> False
      | Some (identity, _) \<Rightarrow>
          list_ex (\<lambda>key. list_ex (\<lambda>m. bl_IsEqual L (pk_Object key) (pk_Object m)) (Participants (dc_store d)))
            identity)"

definition ResetPrepareAndCommitVotes :: "Decider \<Rightarrow> Decider" where
  "ResetPrepareAndCommitVotes d = d\<lparr>dc_store := ci_reset [Prepare, Commit] (dc_store d)\<rparr>"

definition ResetViewChangeVotes :: "Decider \<Rightarrow> Decider" where
  "ResetViewChangeVotes d = d\<lparr>dc_store := ci_reset [ViewChange] (dc_store d)\<rparr>"

section \<open>Committee index\<close>

lemma index_keys_gomap_ok: "gomap_ok m \<Longrightarrow> gomap_ok (index_keys i ks m)"
  by (induction i ks m rule: index_keys.induct) auto

lemma index_keys_notin:
  "k \<notin> pk_Bytes ` set ks \<Longrightarrow> mget (index_keys i ks m) k = mget m k"
  by (induction i ks m rule: index_keys.induct) auto

text \<open>When a key occurs more than once, the index map holds its last position.\<close>

lemma index_keys_Some:
  "mget (index_keys i ks m) k = Some j \<Longrightarrow> mget m k \<noteq> Some j \<or> k \<in> pk_Bytes ` set ks \<Longrightarrow>
   int i \<le> j \<and> j < int (i + length ks) \<and> pk_Bytes (ks ! nat (j - int i)) = k"
proof (induction i ks m rule: index_keys.induct)
  case (2 i x ks m)
  show ?case
  proof (cases "k \<in> pk_Bytes ` set ks")
    case True
    then have "int (Suc i) \<le> j \<and> j < int (Suc i + length ks) \<and> pk_Bytes (ks ! nat (j - int (Suc i))) = k"
      using 2 by simp
    moreover from this have "nat (j - int i) = Suc (nat (j - int (Suc i)))" by arith
    ultimately show ?thesis by auto
  next
    case False
    then show ?thesis
      using 2 by (auto simp: index_keys_notin split: if_splits)
  qed
qed auto

lemma index_keys_nth:
  "distinct (map pk_Bytes ks) \<Longrightarrow> n < length ks \<Longrightarrow>
   mget (index_keys i ks m) (pk_Bytes (ks ! n)) = Some (int (i + n))"
proof (induction i ks m arbitrary: n rule: index_keys.induct)
  case (2 i x ks m)
  then show ?case
    by (cases n) (auto simp: index_keys_notin)
qed simp

definition index_ok :: "cIdentities \<Rightarrow> bool" where
  "index_ok s \<longleftrightarrow> keyIndexMap s = index_keys 0 (publicKeys s) []"

lemma index_ok_UpdateParticipants [simp]: "index_ok (UpdateParticipants ks s)"
  by (simp add: index_ok_def UpdateParticipants_def)

lemma IndexOf_member:
  assumes "index_ok s" and "IndexOf s k \<noteq> -1"
  shows "0 \<le> IndexOf s k" "IndexOf s k < ParticipantsCount s"
    "pk_Bytes (publicKeys s ! nat (IndexOf s k)) = k"
proof -
  obtain j where "mget (index_keys 0 (publicKeys s) []) k = Some j" "IndexOf s k = j"
    using assms by (auto simp: IndexOf_def index_ok_def split: option.splits)
  then show "0 \<le> IndexOf s k" "IndexOf s k < ParticipantsCount s"
    "pk_Bytes (publicKeys s ! nat (IndexOf s k)) = k"
    using index_keys_Some [of 0 "publicKeys s" "[]" k j] by (auto simp: ParticipantsCount_def)
qed

lemma IndexOf_nth:
  "index_ok s \<Longrightarrow> distinct (map pk_Bytes (publicKeys s)) \<Longrightarrow> i < length (publicKeys s) \<Longrightarrow>
   IndexOf s (pk_Bytes (publicKeys s ! i)) = int i"
  by (simp add: IndexOf_def index_ok_def index_keys_nth)

lemma smod_nonneg: "0 \<le> a \<Longrightarrow> 0 < n \<Longrightarrow> a smod n = a mod n" for a n :: int
  by (simp add: signed_modulo_int_def signed_divide_int_def minus_div_mult_eq_mod [symmetric]
      sgn_if abs_if minus_mult_div_eq_mod)

lemma smod_neg: "a < 0 \<Longrightarrow> 0 < n \<Longrightarrow> a smod n = - ((- a) mod n)" for a n :: int
  by (simp add: signed_modulo_int_def signed_divide_int_def minus_div_mult_eq_mod [symmetric]
      sgn_if abs_if)

lemma NthNext_eq:
  assumes "index_ok s" "IndexOf s (pk_Bytes k) \<noteq> -1" "0 \<le> IndexOf s (pk_Bytes k) + next_n"
  shows "NthNext s k next_n =
    Some (True, publicKeys s ! nat ((IndexOf s (pk_Bytes k) + next_n) mod ParticipantsCount s))"
proof -
  have "0 < ParticipantsCount s" using IndexOf_member [OF assms(1,2)] by simp
  then show ?thesis
    using assms(2,3) pos_mod_bound [of "ParticipantsCount s"] pos_mod_sign [of "ParticipantsCount s"]
    by (simp add: NthNext_def nth_next_def Let_def slice_at_def smod_nonneg ParticipantsCount_def)
qed

section \<open>Ballot boxes\<close>

text \<open>
  The invariant of a box: every recorded ballot is stored under each of its signers, and under no
  other key; so two ballots with a common signer are the same ballot.
\<close>

definition box_ok :: "(blskey, Ballot) gomap \<Rightarrow> bool" where
  "box_ok m \<longleftrightarrow> gomap_ok m \<and>
     (\<forall>(k, b) \<in> set m. k \<in> set (SignerPubKeys b) \<and> distinct (SignerPubKeys b) \<and>
        (\<forall>k' \<in> set (SignerPubKeys b). mget m k' = Some b))"

lemma box_ok_Nil [simp]: "box_ok []"
  by (simp add: box_ok_def)

lemma box_ok_gomap: "box_ok m \<Longrightarrow> gomap_ok m"
  unfolding box_ok_def by blast

lemma box_okD:
  assumes "box_ok m" "mget m k = Some b"
  shows "k \<in> set (SignerPubKeys b)" "distinct (SignerPubKeys b)"
    "\<And>k'. k' \<in> set (SignerPubKeys b) \<Longrightarrow> mget m k' = Some b"
proof -
  have "(k, b) \<in> set m" using assms(2) mget_Some_iff [OF box_ok_gomap [OF assms(1)]] by simp
  then have "k \<in> set (SignerPubKeys b) \<and> distinct (SignerPubKeys b) \<and>
      (\<forall>k' \<in> set (SignerPubKeys b). mget m k' = Some b)"
    using assms(1) unfolding box_ok_def by blast
  then show "k \<in> set (SignerPubKeys b)" "distinct (SignerPubKeys b)"
    "\<And>k'. k' \<in> set (SignerPubKeys b) \<Longrightarrow> mget m k' = Some b" by blast+
qed

definition put_all :: "Ballot \<Rightarrow> blskey list \<Rightarrow> (blskey, Ballot) gomap \<Rightarrow> (blskey, Ballot) gomap" where
  "put_all b ks m = fold (\<lambda>k. mput k b) ks m"

lemma mget_put_all [simp]: "mget (put_all b ks m) k = (if k \<in> set ks then Some b else mget m k)"
  unfolding put_all_def by (induction ks arbitrary: m) auto

lemma gomap_ok_put_all [simp]: "gomap_ok m \<Longrightarrow> gomap_ok (put_all b ks m)"
  unfolding put_all_def by (induction ks arbitrary: m) auto

lemma length_put_all:
  "distinct ks \<Longrightarrow> (\<forall>k \<in> set ks. mget m k = None) \<Longrightarrow> length (put_all b ks m) = length m + length ks"
  unfolding put_all_def
proof (induction ks arbitrary: m)
  case (Cons k ks)
  then have "\<forall>k' \<in> set ks. mget (mput k b m) k' = None" by auto
  then show ?case using Cons by (simp add: length_mput_new)
qed simp

lemma keys_put_all: "fst ` set (put_all b ks m) = set ks \<union> fst ` set m"
  unfolding put_all_def by (induction ks arbitrary: m) auto

lemma box_okI:
  assumes "gomap_ok m"
    and "\<And>k b. mget m k = Some b \<Longrightarrow> k \<in> set (SignerPubKeys b) \<and> distinct (SignerPubKeys b) \<and>
           (\<forall>k' \<in> set (SignerPubKeys b). mget m k' = Some b)"
  shows "box_ok m"
  unfolding box_ok_def
proof (intro conjI ballI, rule assms(1), clarify)
  fix k b assume "(k, b) \<in> set m"
  then have "mget m k = Some b" using assms(1) by (simp add: mget_Some_iff)
  then show "k \<in> set (SignerPubKeys b) \<and> distinct (SignerPubKeys b) \<and>
      (\<forall>k' \<in> set (SignerPubKeys b). mget m k' = Some b)" by (rule assms(2))
qed

lemma box_ok_put_all:
  assumes ok: "box_ok m" and ks: "distinct ks" "\<forall>k \<in> set ks. mget m k = None" "SignerPubKeys b = ks"
  shows "box_ok (put_all b ks m)"
proof (rule box_okI)
  show "gomap_ok (put_all b ks m)" using box_ok_gomap [OF ok] by simp
  fix k c assume kc: "mget (put_all b ks m) k = Some c"
  show "k \<in> set (SignerPubKeys c) \<and> distinct (SignerPubKeys c) \<and>
      (\<forall>k' \<in> set (SignerPubKeys c). mget (put_all b ks m) k' = Some c)"
  proof (cases "k \<in> set ks")
    case True
    then have "c = b" using kc by simp
    then show ?thesis using True ks(1,3) by simp
  next
    case False
    then have "mget m k = Some c" using kc by simp
    note c = box_okD [OF ok this]
    have "k' \<notin> set ks" if "k' \<in> set (SignerPubKeys c)" for k'
      using c(3) [OF that] ks(2) by auto
    then show ?thesis using c by simp
  qed
qed

definition known :: "Phase \<Rightarrow> bool" where
  "known p \<longleftrightarrow> p \<in> {Prepare, Commit, ViewChange}"

lemma known_simps [simp]: "known Prepare" "known Commit" "known ViewChange" "\<not> known (UnknownPhase b)"
  by (simp_all add: known_def)

lemma SignersCount_box: "SignersCount s p = int (length (box_of s p))"
  by (cases p) (simp_all add: SignersCount_def box_of_def)

lemma check_vote_keys_None:
  "check_vote_keys s p seen ks = None \<longleftrightarrow>
     distinct ks \<and> set ks \<inter> set seen = {} \<and> (\<forall>k \<in> set ks. ReadBallot s p k = None)"
  by (induction s p seen ks rule: check_vote_keys.induct) auto

lemma record_ballot_known:
  assumes "known p"
  obtains s' where "record_ballot p b k s = Inr s'" "box_of s' p = mput k b (box_of s p)"
    "\<And>q. q \<noteq> p \<Longrightarrow> box_of s' q = box_of s q"
    "publicKeys s' = publicKeys s" "keyIndexMap s' = keyIndexMap s"
proof -
  have "\<exists>s'. record_ballot p b k s = Inr s' \<and> box_of s' p = mput k b (box_of s p) \<and>
      (\<forall>q. q \<noteq> p \<longrightarrow> box_of s' q = box_of s q) \<and>
      publicKeys s' = publicKeys s \<and> keyIndexMap s' = keyIndexMap s"
    using assms by (cases p) (auto simp: record_ballot_def box_of_def split: Phase.splits)
  then show ?thesis using that by blast
qed

lemma record_ballots_known:
  "known p \<Longrightarrow> \<exists>s'. record_ballots p b ks s = Inr s' \<and> box_of s' p = put_all b ks (box_of s p) \<and>
     (\<forall>q. q \<noteq> p \<longrightarrow> box_of s' q = box_of s q) \<and>
     publicKeys s' = publicKeys s \<and> keyIndexMap s' = keyIndexMap s"
proof (induction ks arbitrary: s)
  case (Cons k ks)
  obtain s1 where s1: "record_ballot p b k s = Inr s1" "box_of s1 p = mput k b (box_of s p)"
    "\<And>q. q \<noteq> p \<Longrightarrow> box_of s1 q = box_of s q"
    "publicKeys s1 = publicKeys s" "keyIndexMap s1 = keyIndexMap s"
    using record_ballot_known [OF Cons.prems] by metis
  then show ?case using Cons.IH [OF Cons.prems, of s1] by (auto simp: put_all_def)
qed (simp add: put_all_def)

text \<open>A vote is accepted exactly when its keys are distinct and none of them has voted.\<close>

lemma submitVote_known:
  assumes "known p"
  shows "(\<exists>r. submitVote L p ks sig h ht v s = Inr r) \<longleftrightarrow>
     distinct ks \<and> (\<forall>k \<in> set ks. mget (box_of s p) k = None)"
proof -
  have "(\<exists>r. submitVote L p ks sig h ht v s = Inr r) \<longleftrightarrow> check_vote_keys s p [] ks = None"
  proof (cases "check_vote_keys s p [] ks")
    case None
    obtain s' where "record_ballots p \<lparr>SignerPubKeys = ks, BlockHeaderHash = h,
        Signature = bl_Hex2Bytes L (bl_SerializeToHexStr L sig), Height = ht, ViewID = v\<rparr> ks s = Inr s'"
      using record_ballots_known [OF assms] by metis
    then show ?thesis using None by (simp add: submitVote_def Let_def)
  qed (simp add: submitVote_def)
  then show ?thesis by (simp add: check_vote_keys_None ReadBallot_def)
qed

lemma submitVote_InrD:
  assumes "submitVote L p ks sig h ht v s = Inr (b, s')"
  shows "distinct ks" "\<forall>k \<in> set ks. mget (box_of s p) k = None"
    "b = \<lparr>SignerPubKeys = ks, BlockHeaderHash = h,
          Signature = bl_Hex2Bytes L (bl_SerializeToHexStr L sig), Height = ht, ViewID = v\<rparr>"
    "known p \<Longrightarrow> box_of s' p = put_all b ks (box_of s p)"
    "\<And>q. known p \<Longrightarrow> q \<noteq> p \<Longrightarrow> box_of s' q = box_of s q"
    "publicKeys s' = publicKeys s \<and> keyIndexMap s' = keyIndexMap s"
    "\<not> known p \<Longrightarrow> s' = s"
proof -
  have chk: "check_vote_keys s p [] ks = None"
    using assms by (auto simp: submitVote_def split: option.splits)
  then show "distinct ks" "\<forall>k \<in> set ks. mget (box_of s p) k = None"
    by (auto simp: check_vote_keys_None ReadBallot_def)
  have rec: "record_ballots p b ks s = Inr s'"
    and b: "b = \<lparr>SignerPubKeys = ks, BlockHeaderHash = h,
          Signature = bl_Hex2Bytes L (bl_SerializeToHexStr L sig), Height = ht, ViewID = v\<rparr>"
    using assms chk by (auto simp: submitVote_def Let_def split: option.splits sum.splits)
  then show "b = \<lparr>SignerPubKeys = ks, BlockHeaderHash = h,
          Signature = bl_Hex2Bytes L (bl_SerializeToHexStr L sig), Height = ht, ViewID = v\<rparr>" by simp
  show "known p \<Longrightarrow> box_of s' p = put_all b ks (box_of s p)"
    "\<And>q. known p \<Longrightarrow> q \<noteq> p \<Longrightarrow> box_of s' q = box_of s q"
    using record_ballots_known [of p b ks s] rec by auto
  show eq: "\<not> known p \<Longrightarrow> s' = s"
    using rec by (cases ks; cases p) (auto simp: record_ballot_def)
  show "publicKeys s' = publicKeys s \<and> keyIndexMap s' = keyIndexMap s"
    using record_ballots_known [of p b ks s] rec eq by (cases "known p") auto
qed

lemma box_of_reset:
  "box_of (ci_reset ps s) p = (if p \<in> set ps then [] else box_of s p)"
proof (induction ps arbitrary: s)
  case (Cons q ps)
  show ?case
    unfolding ci_reset.simps Cons.IH
    by (cases q; cases p) (simp_all add: box_of_def NewRound_def)
qed simp

lemma reset_committee [simp]:
  "publicKeys (ci_reset ps s) = publicKeys s" "keyIndexMap (ci_reset ps s) = keyIndexMap s"
  by (induction ps arbitrary: s) (auto split: Phase.splits)

lemma box_of_UpdateParticipants [simp]: "box_of (UpdateParticipants ks s) p = box_of s p"
  by (simp add: box_of_def UpdateParticipants_def split: Phase.splits)

section \<open>Reachable voting states\<close>

inductive vote_reach :: "bls_lib \<Rightarrow> cIdentities \<Rightarrow> bool" for L where
  start: "vote_reach L newBallotsBackedSignatureReader"
| vote: "vote_reach L s \<Longrightarrow> submitVote L p ks sig h ht v s = Inr (b, s') \<Longrightarrow> vote_reach L s'"
| reset: "vote_reach L s \<Longrightarrow> vote_reach L (ci_reset ps s)"
| committee: "vote_reach L s \<Longrightarrow> vote_reach L (UpdateParticipants ks s)"

lemma box_ok_submitVote:
  assumes "submitVote L p ks sig h ht v s = Inr (b, s')" "\<And>q. box_ok (box_of s q)"
  shows "box_ok (box_of s' q)"
proof (cases "known p")
  case True
  show ?thesis
  proof (cases "q = p")
    case True
    then show ?thesis
      using submitVote_InrD [OF assms(1)] \<open>known p\<close> box_ok_put_all [OF assms(2)] by simp
  next
    case False
    then show ?thesis using submitVote_InrD(5) [OF assms(1) \<open>known p\<close>] assms(2) by simp
  qed
next
  case False
  then show ?thesis using submitVote_InrD(7) [OF assms(1)] assms(2) by simp
qed

lemma vote_reach_ok: "vote_reach L s \<Longrightarrow> (\<forall>p. box_ok (box_of s p)) \<and> index_ok s"
proof (induction rule: vote_reach.induct)
  case start
  have "box_of newBallotsBackedSignatureReader p = []" for p
    by (cases p) (simp_all add: box_of_def newBallotsBackedSignatureReader_def NewRound_def)
  then show ?case
    by (simp add: index_ok_def newBallotsBackedSignatureReader_def)
next
  case (vote s p ks sig h ht v b s')
  then show ?case
    using box_ok_submitVote [OF vote.hyps(2)] submitVote_InrD(6) [OF vote.hyps(2)]
    by (simp add: index_ok_def)
next
  case (reset s ps)
  then show ?case by (simp add: box_of_reset index_ok_def)
next
  case (committee s ks)
  then show ?case by simp
qed

section \<open>Aggregation\<close>

abbreviation signers :: "Ballot list \<Rightarrow> blskey list" where
  "signers bs \<equiv> concat (map SignerPubKeys bs)"

lemma AggregateVotes_loop_distinct:
  "(\<forall>b \<in> set bs. distinct (SignerPubKeys b)) \<Longrightarrow>
   distinct (signers (AggregateVotes_loop C bs)) \<and>
   set (signers (AggregateVotes_loop C bs)) \<inter> set C = {}"
  by (induction C bs rule: AggregateVotes_loop.induct) (auto simp: list_ex_iff)

lemma AggregateVotes_loop_subset: "set (AggregateVotes_loop C bs) \<subseteq> set bs"
  by (induction C bs rule: AggregateVotes_loop.induct) auto

text \<open>
  No signer is lost when ballots that share a signer have the same signers, which also holds of the
  ballots collected before.
\<close>

lemma AggregateVotes_loop_covers:
  "(\<forall>b \<in> set bs. set (SignerPubKeys b) \<inter> set C \<noteq> {} \<longrightarrow> set (SignerPubKeys b) \<subseteq> set C) \<Longrightarrow>
   (\<forall>b \<in> set bs. \<forall>b' \<in> set bs. set (SignerPubKeys b) \<inter> set (SignerPubKeys b') \<noteq> {} \<longrightarrow>
      set (SignerPubKeys b) = set (SignerPubKeys b')) \<Longrightarrow>
   set (signers bs) \<subseteq> set (signers (AggregateVotes_loop C bs)) \<union> set C"
proof (induction C bs rule: AggregateVotes_loop.induct)
  case (2 C b bs)
  show ?case
  proof (cases "list_ex (\<lambda>k. k \<in> set C) (SignerPubKeys b)")
    case True
    then have "set (SignerPubKeys b) \<inter> set C \<noteq> {}" by (auto simp: list_ex_iff)
    then have "set (SignerPubKeys b) \<subseteq> set C" using "2.prems"(1) by simp
    moreover have "set (signers bs) \<subseteq> set (signers (AggregateVotes_loop C bs)) \<union> set C"
      using "2.prems" by (intro "2.IH"(1) [OF True]) simp_all
    ultimately show ?thesis using True by auto
  next
    case False
    have "set (signers bs) \<subseteq> set (signers (AggregateVotes_loop (SignerPubKeys b @ C) bs)) \<union>
        set (SignerPubKeys b @ C)"
    proof (rule "2.IH"(2) [OF False])
      show "\<forall>c \<in> set bs. set (SignerPubKeys c) \<inter> set (SignerPubKeys b @ C) \<noteq> {} \<longrightarrow>
          set (SignerPubKeys c) \<subseteq> set (SignerPubKeys b @ C)"
      proof (intro ballI impI)
        fix c assume c: "c \<in> set bs" "set (SignerPubKeys c) \<inter> set (SignerPubKeys b @ C) \<noteq> {}"
        then consider "set (SignerPubKeys c) \<inter> set (SignerPubKeys b) \<noteq> {}"
          | "set (SignerPubKeys c) \<inter> set C \<noteq> {}" by auto
        then show "set (SignerPubKeys c) \<subseteq> set (SignerPubKeys b @ C)"
          using "2.prems" c(1) by cases auto
      qed
      show "\<forall>c \<in> set bs. \<forall>c' \<in> set bs. set (SignerPubKeys c) \<inter> set (SignerPubKeys c') \<noteq> {} \<longrightarrow>
          set (SignerPubKeys c) = set (SignerPubKeys c')"
        using "2.prems"(2) by simp
    qed
    then show ?thesis using False by auto
  qed
qed simp

lemma box_ballots:
  assumes "box_ok m" "b \<in> snd ` set m"
  shows "distinct (SignerPubKeys b)" "SignerPubKeys b \<noteq> []"
    "\<And>k. k \<in> set (SignerPubKeys b) \<Longrightarrow> mget m k = Some b"
proof -
  obtain k where "(k, b) \<in> set m" using assms(2) by auto
  then have "mget m k = Some b" using mget_Some_iff [OF box_ok_gomap [OF assms(1)]] by simp
  from box_okD [OF assms(1) this]
  show "distinct (SignerPubKeys b)" "SignerPubKeys b \<noteq> []"
    "\<And>k. k \<in> set (SignerPubKeys b) \<Longrightarrow> mget m k = Some b" by auto
qed

lemma box_signers: "box_ok m \<Longrightarrow> set (signers (map snd m)) = fst ` set m"
proof (intro set_eqI iffI)
  fix k assume ok: "box_ok m" and "k \<in> set (signers (map snd m))"
  then obtain b where "b \<in> snd ` set m" "k \<in> set (SignerPubKeys b)" by auto
  then have "mget m k = Some b" using box_ballots(3) [OF ok] by blast
  then show "k \<in> fst ` set m" by (metis mget_None_iff option.distinct(1))
next
  fix k assume ok: "box_ok m" and "k \<in> fst ` set m"
  then obtain b where kb: "(k, b) \<in> set m" by auto
  then have "mget m k = Some b" using mget_Some_iff [OF box_ok_gomap [OF ok]] by simp
  then have "k \<in> set (SignerPubKeys b)" by (rule box_okD(1) [OF ok])
  then show "k \<in> set (signers (map snd m))" using kb by force
qed

lemma AggregateVotes_loop_mset:
  assumes ok: "box_ok m"
  shows "mset (signers (AggregateVotes_loop [] (map snd m))) = mset (map fst m)"
proof -
  have dist: "\<forall>b \<in> set (map snd m). distinct (SignerPubKeys b)"
    using box_ballots(1) [OF ok] by simp
  have "b = b'" if "b \<in> snd ` set m" "b' \<in> snd ` set m"
    "k \<in> set (SignerPubKeys b)" "k \<in> set (SignerPubKeys b')" for b b' k
    using box_ballots(3) [OF ok that(1) that(3)] box_ballots(3) [OF ok that(2) that(4)] by simp
  then have "\<forall>b \<in> set (map snd m). \<forall>b' \<in> set (map snd m).
      set (SignerPubKeys b) \<inter> set (SignerPubKeys b') \<noteq> {} \<longrightarrow>
      set (SignerPubKeys b) = set (SignerPubKeys b')" by (metis disjoint_iff set_map)
  then have "set (signers (map snd m)) \<subseteq> set (signers (AggregateVotes_loop [] (map snd m)))"
    using AggregateVotes_loop_covers [of "map snd m" "[]"] by simp
  moreover have "set (signers (AggregateVotes_loop [] (map snd m))) \<subseteq> set (signers (map snd m))"
    using AggregateVotes_loop_subset [of "[]" "map snd m"] by auto
  ultimately have "set (signers (AggregateVotes_loop [] (map snd m))) = set (map fst m)"
    using box_signers [OF ok] by simp
  moreover have "distinct (signers (AggregateVotes_loop [] (map snd m)))"
    using AggregateVotes_loop_distinct [OF dist] by simp
  moreover have "distinct (map fst m)" using box_ok_gomap [OF ok] by (simp add: gomap_ok_def)
  ultimately show ?thesis using set_eq_iff_mset_eq_distinct by blast
qed

section \<open>Quorum intersection\<close>

locale quorum_threshold =
  fixes n t :: nat
  assumes above_two_thirds: "2 * n < 3 * t" and reachable_threshold: "0 < n \<Longrightarrow> t \<le> n"
begin

lemma overlap:
  assumes "finite C" "card C = n" "A \<subseteq> C" "B \<subseteq> C" "t \<le> card A" "t \<le> card B"
  shows "n < 3 * card (A \<inter> B)"
proof -
  have fin: "finite A" "finite B" using assms finite_subset by auto
  have "card (A \<union> B) \<le> n" using assms by (metis Un_least card_mono)
  moreover have "card A + card B = card (A \<union> B) + card (A \<inter> B)"
    using fin by (rule card_Un_Int)
  ultimately show ?thesis using assms(5,6) above_two_thirds by linarith
qed

end

lemma TwoThirdsSignersCount_bounds:
  "2 * ParticipantsCount s < 3 * TwoThirdsSignersCount s"
  "3 * TwoThirdsSignersCount s \<le> 2 * ParticipantsCount s + 3"
  "0 < TwoThirdsSignersCount s"
  by (simp_all add: TwoThirdsSignersCount_def ParticipantsCount_def)

interpretation two_thirds: quorum_threshold "length (publicKeys s)" "nat (TwoThirdsSignersCount s)" for s
proof
  show "2 * length (publicKeys s) < 3 * nat (TwoThirdsSignersCount s)"
    using TwoThirdsSignersCount_bounds [of s] by (simp add: ParticipantsCount_def)
  show "nat (TwoThirdsSignersCount s) \<le> length (publicKeys s)" if "0 < length (publicKeys s)"
    using that TwoThirdsSignersCount_bounds [of s] unfolding ParticipantsCount_def by linarith
qed

section \<open>The contract of a ballot store\<close>

text \<open>
  What the consensus relies on when it counts votes: a store that accepts a multi-key vote only when
  none of its keys has voted, adds exactly those keys, and is emptied by a reset.
\<close>

locale ballot_store =
  fixes ok :: "'s \<Rightarrow> bool"
    and voted :: "'s \<Rightarrow> blskey set"
    and votes :: "'s \<Rightarrow> int"
    and submit :: "'v \<Rightarrow> blskey list \<Rightarrow> 's \<Rightarrow> 's option"
    and clear :: "'s \<Rightarrow> 's"
  assumes submit_ok: "ok s \<Longrightarrow> submit v ks s = Some s' \<Longrightarrow> ok s'"
    and submit_fresh: "submit v ks s = Some s' \<Longrightarrow> distinct ks \<and> set ks \<inter> voted s = {}"
    and submit_voted: "submit v ks s = Some s' \<Longrightarrow> voted s' = voted s \<union> set ks"
    and clear_ok: "ok s \<Longrightarrow> ok (clear s)"
    and clear_voted: "voted (clear s) = {}"
    and votes_count: "ok s \<Longrightarrow> finite (voted s) \<and> votes s = int (card (voted s))"
begin

primrec submit_all :: "('v \<times> blskey list) list \<Rightarrow> 's \<Rightarrow> 's option" where
  "submit_all [] s = Some s"
| "submit_all (vk # vks) s =
     (case submit (fst vk) (snd vk) s of None \<Rightarrow> None | Some s' \<Rightarrow> submit_all vks s')"

lemma submit_all_run:
  "ok s \<Longrightarrow> submit_all vks s = Some s' \<Longrightarrow>
   ok s' \<and> distinct (concat (map snd vks)) \<and> set (concat (map snd vks)) \<inter> voted s = {} \<and>
   voted s' = voted s \<union> set (concat (map snd vks))"
proof (induction vks arbitrary: s)
  case (Cons vk vks)
  then obtain s1 where s1: "submit (fst vk) (snd vk) s = Some s1" "submit_all vks s1 = Some s'"
    by (auto split: option.splits)
  note sub = submit_fresh [OF s1(1)] submit_voted [OF s1(1)]
  have "ok s' \<and> distinct (concat (map snd vks)) \<and> set (concat (map snd vks)) \<inter> voted s1 = {} \<and>
      voted s' = voted s1 \<union> set (concat (map snd vks))"
    using Cons.IH [OF submit_ok [OF Cons.prems(1) s1(1)] s1(2)] .
  then show ?case using sub by auto
qed simp

text \<open>From an empty store, the count is the number of keys of all accepted votes.\<close>

lemma votes_after_clear:
  assumes "ok s" "submit_all vks (clear s) = Some s'"
  shows "votes s' = int (length (concat (map snd vks)))"
    and "distinct (concat (map snd vks))"
proof -
  have run: "ok s'" "distinct (concat (map snd vks))" "voted s' = set (concat (map snd vks))"
    using submit_all_run [OF clear_ok [OF assms(1)] assms(2)] by (auto simp: clear_voted)
  then show "votes s' = int (length (concat (map snd vks)))"
    using votes_count [OF run(1)] distinct_card [OF run(2)] by simp
  show "distinct (concat (map snd vks))" by (rule run(2))
qed

end

type_synonym vote_data = "bls_sign \<times> hash \<times> u64 \<times> u64"

definition submit_in :: "bls_lib \<Rightarrow> Phase \<Rightarrow> vote_data \<Rightarrow> blskey list \<Rightarrow> cIdentities \<Rightarrow> cIdentities option" where
  "submit_in L p v ks s =
     (case v of (sig, h, ht, vw) \<Rightarrow>
        (case submitVote L p ks sig h ht vw s of Inl _ \<Rightarrow> None | Inr (_, s') \<Rightarrow> Some s'))"

definition boxes_ok :: "cIdentities \<Rightarrow> bool" where
  "boxes_ok s \<longleftrightarrow> (\<forall>p. box_ok (box_of s p))"

lemma boxes_ok_code [code]:
  "boxes_ok s \<longleftrightarrow> box_ok (BallotBox (ci_prepare s)) \<and> box_ok (BallotBox (ci_commit s)) \<and>
     box_ok (BallotBox (ci_viewChange s))"
proof
  assume "boxes_ok s"
  then have "box_ok (box_of s Prepare)" "box_ok (box_of s Commit)" "box_ok (box_of s ViewChange)"
    unfolding boxes_ok_def by blast+
  then show "box_ok (BallotBox (ci_prepare s)) \<and> box_ok (BallotBox (ci_commit s)) \<and>
      box_ok (BallotBox (ci_viewChange s))" by (simp add: box_of_def)
next
  assume "box_ok (BallotBox (ci_prepare s)) \<and> box_ok (BallotBox (ci_commit s)) \<and>
      box_ok (BallotBox (ci_viewChange s))"
  then show "boxes_ok s" unfolding boxes_ok_def box_of_def by (auto split: Phase.split)
qed

definition voters :: "Phase \<Rightarrow> cIdentities \<Rightarrow> blskey set" where
  "voters p s = fst ` set (box_of s p)"

lemma submit_in_SomeD:
  "submit_in L p v ks s = Some s' \<Longrightarrow>
   \<exists>b. submitVote L p ks (fst v) (fst (snd v)) (fst (snd (snd v))) (snd (snd (snd v))) s = Inr (b, s')"
  by (auto simp: submit_in_def split: prod.splits sum.splits)

lemma voters_count: "boxes_ok s \<Longrightarrow> finite (voters p s) \<and> SignersCount s p = int (card (voters p s))"
proof
  assume "boxes_ok s"
  then have "gomap_ok (box_of s p)" by (simp add: boxes_ok_def box_ok_gomap)
  then have "card (fst ` set (box_of s p)) = length (box_of s p)"
    unfolding gomap_ok_def by (metis distinct_card length_map set_map)
  then show "SignersCount s p = int (card (voters p s))"
    by (simp add: voters_def SignersCount_box)
qed (simp add: voters_def)

lemma ballot_store_phase:
  assumes "known p"
  shows "ballot_store boxes_ok (voters p) (\<lambda>s. SignersCount s p) (submit_in L p) (ci_reset [p])"
proof
  fix s s' v ks
  assume sub: "submit_in L p v ks s = Some s'"
  then obtain b where b: "submitVote L p ks (fst v) (fst (snd v)) (fst (snd (snd v))) (snd (snd (snd v))) s = Inr (b, s')"
    using submit_in_SomeD by blast
  note D = submitVote_InrD [OF b]
  show "boxes_ok s'" if "boxes_ok s"
    using that box_ok_submitVote [OF b] by (simp add: boxes_ok_def)
  show "distinct ks \<and> set ks \<inter> voters p s = {}"
    using D(1,2) by (auto simp: voters_def mget_None_iff)
  show "voters p s' = voters p s \<union> set ks"
    using D(4) [OF assms] by (auto simp: voters_def keys_put_all)
next
  fix s
  show "boxes_ok (ci_reset [p] s)" if "boxes_ok s"
    using that by (simp add: boxes_ok_def box_of_reset del: ci_reset.simps)
  show "voters p (ci_reset [p] s) = {}"
    by (simp add: voters_def box_of_reset del: ci_reset.simps)
  show "finite (voters p s) \<and> SignersCount s p = int (card (voters p s))" if "boxes_ok s"
    using that by (rule voters_count)
qed

interpretation prepare_votes: ballot_store boxes_ok "voters Prepare" "\<lambda>s. SignersCount s Prepare"
  "submit_in L Prepare" "ci_reset [Prepare]" for L
  by (rule ballot_store_phase) simp

interpretation commit_votes: ballot_store boxes_ok "voters Commit" "\<lambda>s. SignersCount s Commit"
  "submit_in L Commit" "ci_reset [Commit]" for L
  by (rule ballot_store_phase) simp

interpretation viewchange_votes: ballot_store boxes_ok "voters ViewChange" "\<lambda>s. SignersCount s ViewChange"
  "submit_in L ViewChange" "ci_reset [ViewChange]" for L
  by (rule ballot_store_phase) simp

section \<open>Properties of the voting state\<close>

primrec cast_votes :: "bls_lib \<Rightarrow> Phase \<Rightarrow> (vote_data \<times> blskey list) list \<Rightarrow> cIdentities \<Rightarrow> cIdentities option" where
  "cast_votes L p [] s = Some s"
| "cast_votes L p (vk # vks) s =
     (case submit_in L p (fst vk) (snd vk) s of None \<Rightarrow> None | Some s' \<Rightarrow> cast_votes L p vks s')"

lemma cast_votes_submit_all:
  "cast_votes L Prepare vks s = prepare_votes.submit_all L vks s"
  "cast_votes L Commit vks s = commit_votes.submit_all L vks s"
  "cast_votes L ViewChange vks s = viewchange_votes.submit_all L vks s"
  by (induction vks arbitrary: s; simp split: option.splits)+

text \<open>A BLS library and committees for concrete runs: signatures are byte strings, aggregation is concatenation.\<close>

definition sample_bls :: bls_lib where
  "sample_bls = \<lparr>bl_IsEqual = (=), bl_SerializeToHexStr = hex_encode, bl_DeserializeHexStr = hex_decode,
     bl_AggregateSig = concat, bl_WrapperFromPrivateKey = (\<lambda>b. \<lparr>sk_Pri = b, sk_Pub = \<lparr>pk_Bytes = be_word b, pk_Object = b\<rparr>\<rparr>),
     bl_Bytes2Hex = hex_encode, bl_Hex2Bytes = hex_decode, bl_KeyHex = (\<lambda>k. hex_encode (be_bytes 48 k))\<rparr>"

definition sample_key :: "nat \<Rightarrow> PublicKeyWrapper" where
  "sample_key n = \<lparr>pk_Bytes = word_of_nat n, pk_Object = [word_of_nat n]\<rparr>"

definition sample_ballot :: "blskey list \<Rightarrow> Ballot" where
  "sample_ballot ks = \<lparr>SignerPubKeys = ks, BlockHeaderHash = 7, Signature = [1], Height = 1, ViewID = 1\<rparr>"

definition sample_decider :: "nat list \<Rightarrow> Decider" where
  "sample_decider votes =
     \<lparr>dc_provider = None,
      dc_store = (UpdateParticipants (map sample_key [1, 2, 3, 4]) newBallotsBackedSignatureReader)
        \<lparr>ci_commit := \<lparr>AggregatedVote = [],
           BallotBox = map (\<lambda>n. (word_of_nat n, sample_ballot [word_of_nat n])) votes\<rparr>\<rparr>\<rparr>"





text \<open>
  C8: A vote is accepted exactly when its keys are distinct and none of them has voted in the phase;
  the box then holds the ballot under each of its keys, the other boxes are unchanged and the count
  grows by the number of keys.
\<close>

theorem submitVote_correct:
  assumes "known p"
  shows "((\<exists>r. submitVote L p ks sig h ht v s = Inr r) \<longleftrightarrow>
           distinct ks \<and> (\<forall>k \<in> set ks. ReadBallot s p k = None)) \<and>
         (\<forall>b s'. submitVote L p ks sig h ht v s = Inr (b, s') \<longrightarrow>
           (\<forall>k. ReadBallot s' p k = (if k \<in> set ks then Some b else ReadBallot s p k)) \<and>
           (\<forall>q k. q \<noteq> p \<longrightarrow> ReadBallot s' q k = ReadBallot s q k) \<and>
           SignersCount s' p = SignersCount s p + int (length ks))"
proof (intro conjI allI impI)
  show "(\<exists>r. submitVote L p ks sig h ht v s = Inr r) \<longleftrightarrow>
      distinct ks \<and> (\<forall>k \<in> set ks. ReadBallot s p k = None)"
    using submitVote_known [OF assms] by (simp add: ReadBallot_def)
  fix b s' assume "submitVote L p ks sig h ht v s = Inr (b, s')"
  note D = submitVote_InrD [OF this]
  show "ReadBallot s' p k = (if k \<in> set ks then Some b else ReadBallot s p k)" for k
    using D(4) [OF assms] by (simp add: ReadBallot_def)
  show "ReadBallot s' q k = ReadBallot s q k" if "q \<noteq> p" for q k
    using D(5) [OF assms that] by (simp add: ReadBallot_def)
  show "SignersCount s' p = SignersCount s p + int (length ks)"
    using D(4) [OF assms] length_put_all [OF D(1,2)] by (simp add: SignersCount_box)
qed

theorem submitVote_correct_witness:
  "\<exists>r. submitVote sample_bls Commit [4] [9] 7 1 1 (dc_store (sample_decider [1, 2, 3])) = Inr r"
  by (subst submitVote_correct [THEN conjunct1]) code_simp+

text \<open>
  C9: The aggregate signature of a phase is computed from ballots in which every key that voted
  occurs exactly once, so no signature is counted twice and none is left out.
\<close>

theorem AggregateVotes_once:
  assumes "vote_reach L s"
  shows "\<exists>picked.
    AggregateVotes L s p =
      bl_AggregateSig L (map (\<lambda>b. bl_DeserializeHexStr L (bl_Bytes2Hex L (Signature b))) picked) \<and>
    set picked \<subseteq> set (ReadAllBallots s p) \<and>
    mset (concat (map SignerPubKeys picked)) = mset (map fst (box_of s p))"
proof -
  have "box_ok (box_of s p)" using vote_reach_ok [OF assms] by blast
  from AggregateVotes_loop_mset [OF this] show ?thesis
    using AggregateVotes_loop_subset [of "[]" "ReadAllBallots s p"]
    by (intro exI [of _ "AggregateVotes_loop [] (ReadAllBallots s p)"])
       (simp add: AggregateVotes_def ReadAllBallots_def)
qed

definition sample_voted :: cIdentities where
  "sample_voted = snd (projr (submitVote sample_bls Commit [1, 2] [9] 7 1 1 newBallotsBackedSignatureReader))"

lemma sample_voted_reach: "vote_reach sample_bls sample_voted"
proof -
  have "\<exists>b. submitVote sample_bls Commit [1, 2] [9] 7 1 1 newBallotsBackedSignatureReader = Inr (b, sample_voted)"
    by (rule exI [of _ "\<lparr>SignerPubKeys = [1, 2], BlockHeaderHash = 7, Signature = [9], Height = 1, ViewID = 1\<rparr>"])
       code_simp
  then show ?thesis by (metis vote_reach.vote vote_reach.start)
qed

theorem AggregateVotes_once_witness:
  "\<exists>picked.
    AggregateVotes sample_bls sample_voted Commit =
      bl_AggregateSig sample_bls
        (map (\<lambda>b. bl_DeserializeHexStr sample_bls (bl_Bytes2Hex sample_bls (Signature b))) picked) \<and>
    set picked \<subseteq> set (ReadAllBallots sample_voted Commit) \<and>
    mset (concat (map SignerPubKeys picked)) = mset (map fst (box_of sample_voted Commit))"
  by (rule AggregateVotes_once [OF sample_voted_reach])

text \<open>
  C2: One key, one vote: after a reset, however votes are submitted, the signer count of the phase is
  the number of keys of the accepted votes, and these keys are distinct.
\<close>

theorem one_key_one_vote:
  assumes "known p" "boxes_ok s" "cast_votes L p vks (ci_reset [p] s) = Some s'"
  shows "SignersCount s' p = int (length (concat (map snd vks))) \<and> distinct (concat (map snd vks))"
proof -
  consider "p = Prepare" | "p = Commit" | "p = ViewChange" using assms(1) by (auto simp: known_def)
  then show ?thesis
  proof cases
    case 1
    note run = assms(3) [unfolded 1 cast_votes_submit_all]
    show ?thesis unfolding 1 using prepare_votes.votes_after_clear [OF assms(2) run] by blast
  next
    case 2
    note run = assms(3) [unfolded 2 cast_votes_submit_all]
    show ?thesis unfolding 2 using commit_votes.votes_after_clear [OF assms(2) run] by blast
  next
    case 3
    note run = assms(3) [unfolded 3 cast_votes_submit_all]
    show ?thesis unfolding 3 using viewchange_votes.votes_after_clear [OF assms(2) run] by blast
  qed
qed

theorem one_key_one_vote_witness:
  "\<exists>s'. cast_votes sample_bls Commit [(([9], 7, 1, 1), [1, 2]), (([8], 7, 1, 1), [3])]
      (ci_reset [Commit] newBallotsBackedSignatureReader) = Some s' \<and>
    SignersCount s' Commit = 3 \<and> distinct [1, 2, 3 :: blskey]"
proof -
  define s' where "s' = the (cast_votes sample_bls Commit [(([9], 7, 1, 1), [1, 2]), (([8], 7, 1, 1), [3])]
      (ci_reset [Commit] newBallotsBackedSignatureReader))"
  have run: "cast_votes sample_bls Commit [(([9], 7, 1, 1), [1, 2]), (([8], 7, 1, 1), [3])]
      (ci_reset [Commit] newBallotsBackedSignatureReader) = Some s'"
    unfolding s'_def by code_simp
  moreover have "boxes_ok newBallotsBackedSignatureReader" by code_simp
  ultimately show ?thesis
    using one_key_one_vote [of Commit newBallotsBackedSignatureReader sample_bls _ s'] by fastforce
qed

text \<open>
  C10: Leader rotation: from any member of a committee without duplicate keys, the successors
  \<open>0, 1, ..., n - 1\<close> positions ahead are found and are together the whole committee.
\<close>

theorem NthNext_rotates:
  assumes "index_ok s" "distinct (map pk_Bytes (publicKeys s))" "i < length (publicKeys s)"
  shows "(\<forall>j. NthNext s (publicKeys s ! i) (int j) =
             Some (True, publicKeys s ! ((i + j) mod length (publicKeys s)))) \<and>
         {k. \<exists>j < length (publicKeys s). NthNext s (publicKeys s ! i) (int j) = Some (True, k)} =
           set (publicKeys s)"
proof -
  define n where "n = length (publicKeys s)"
  have step: "NthNext s (publicKeys s ! i) (int j) = Some (True, publicKeys s ! ((i + j) mod n))" for j
    using NthNext_eq [OF assms(1), of "publicKeys s ! i" "int j"] IndexOf_nth [OF assms]
    by (simp add: ParticipantsCount_def n_def nat_mod_distrib flip: of_nat_add of_nat_mod)
  have "\<exists>j < n. m = (i + j) mod n" if "m < n" for m
  proof (intro exI conjI)
    show "(m + (n - i)) mod n < n" using that by (intro mod_less_divisor) simp
    have "(i + (m + (n - i)) mod n) mod n = (i + (m + (n - i))) mod n" by (rule mod_add_right_eq)
    also have "i + (m + (n - i)) = m + n" using assms(3) n_def by simp
    finally show "m = (i + (m + (n - i)) mod n) mod n" using that by simp
  qed
  then have "set (publicKeys s) \<subseteq> {k. \<exists>j < n. k = publicKeys s ! ((i + j) mod n)}"
    unfolding n_def by (auto simp: in_set_conv_nth) metis
  moreover have "{k. \<exists>j < n. k = publicKeys s ! ((i + j) mod n)} \<subseteq> set (publicKeys s)"
    using assms(3) unfolding n_def by (auto intro!: nth_mem mod_less_divisor)
  ultimately show ?thesis
    using step unfolding n_def by auto
qed

theorem NthNext_rotates_witness:
  "NthNext (dc_store (sample_decider [])) (publicKeys (dc_store (sample_decider [])) ! 2) (int 3) =
   Some (True, publicKeys (dc_store (sample_decider [])) ! ((2 + 3) mod length (publicKeys (dc_store (sample_decider [])))))"
  by (rule NthNext_rotates [THEN conjunct1, rule_format]) code_simp+

text \<open>
  C12: A negative step is not supported, against the comment of \<open>NthNext\<close>: Go's remainder is then
  negative, and the access panics unless the remainder is zero.
\<close>

theorem NthNext_negative_panics:
  assumes "publicKeys s \<noteq> []" "IndexOf s (pk_Bytes k) + next_n < 0"
    "\<not> ParticipantsCount s dvd IndexOf s (pk_Bytes k) + next_n"
  shows "NthNext s k next_n = None"
proof -
  define n where "n = ParticipantsCount s"
  define a where "a = IndexOf s (pk_Bytes k) + next_n"
  have n: "0 < n" using assms(1) by (simp add: n_def ParticipantsCount_def)
  have "(- a) mod n \<noteq> 0" using assms(3) unfolding n_def a_def by (metis dvd_eq_mod_eq_0 dvd_minus_iff)
  then have "0 < (- a) mod n" using pos_mod_sign [OF n, of "- a"] by linarith
  moreover have "a < 0" using assms(2) by (simp only: a_def)
  ultimately have "a smod n < 0" using n by (simp add: smod_neg)
  then show ?thesis
    using n by (simp add: NthNext_def nth_next_def Let_def slice_at_def n_def [symmetric] a_def [symmetric])
       (simp add: n_def ParticipantsCount_def)
qed

theorem NthNext_negative_panics_witness:
  "NthNext (dc_store (sample_decider [])) (sample_key 1) (-1) = None"
  by (rule NthNext_negative_panics) code_simp+

text \<open>
  C10: A mask reaches the quorum exactly when the number of bits set in its bitmap, counted through the
  half-byte table, exceeds two thirds of the committee.
\<close>

theorem IsQuorumAchievedByMask_bits:
  "IsQuorumAchievedByMask d (Some bitmap) \<longleftrightarrow>
     2 * ParticipantsCount (dc_store d) <
       3 * int (\<Sum>b \<leftarrow> bitmap. length (filter (bit b) [0..<8]))"
proof -
  have "CountOneBits (Some bitmap) = int (\<Sum>b \<leftarrow> bitmap. length (filter (bit b) [0..<8]))"
    by (simp add: CountOneBits_Some ones_def [abs_def])
  moreover have "m < TwoThirdsSignersCount (dc_store d) \<longleftrightarrow> 3 * m \<le> 2 * ParticipantsCount (dc_store d)" for m
    unfolding TwoThirdsSignersCount_def by auto
  ultimately show ?thesis
    by (auto simp: IsQuorumAchievedByMask_def Let_def)
qed

text \<open>
  The signer count does not depend on the committee: votes of keys outside it are recorded and
  counted, so they reach the quorum of a committee none of whose members has voted.
\<close>

theorem outsiders_reach_quorum:
  "case AddNewVote sample_bls Commit [sample_key 7, sample_key 8, sample_key 9] [1] 7 1 1 (sample_decider []) of
     Inl _ \<Rightarrow> False
   | Inr (b, d') \<Rightarrow>
       IsQuorumAchieved d' Commit \<and>
       voters Commit (dc_store d') \<inter> pk_Bytes ` set (publicKeys (dc_store d')) = {}"
  by code_simp

end
