(* ===== verification/Tx_Types.thy ===== *)
theory Tx_Types
  imports Prelude
begin

text \<open>
  Transactions and their signatures: \<open>core/types/transaction.go\<close> and
  \<open>core/types/transaction_signing.go\<close>.

  Keccak, RLP and secp256k1 are outside the repository: they are the functions of \<open>crypto_lib\<close>. What
  is handed to the RLP encoder is an \<open>rlp\<close> value, the list of Go values the code passes. A
  \<open>*big.Int\<close> is an \<open>int\<close>; \<open>big_bytes\<close>, \<open>bytes_big\<close> and \<open>BitLen\<close> are \<open>Bytes\<close>, \<open>SetBytes\<close> and \<open>BitLen\<close>
  of \<open>math/big\<close>. A reading of \<open>time.Now()\<close> is an argument.
\<close>

section \<open>math/big\<close>

fun bitlen :: "nat \<Rightarrow> nat" where
  "bitlen n = (if n = 0 then 0 else Suc (bitlen (n div 2)))"

declare bitlen.simps [simp del]

definition BitLen :: "int \<Rightarrow> nat" where
  "BitLen x = bitlen (nat \<bar>x\<bar>)"

definition big_Uint64 :: "int \<Rightarrow> u64" where
  "big_Uint64 x = word_of_nat (nat \<bar>x\<bar>)"

definition bytes_big :: "bytes \<Rightarrow> int" where
  "bytes_big bs = int (foldl (\<lambda>n b. 256 * n + unat b) 0 bs)"

fun nat_bytes :: "nat \<Rightarrow> bytes" where
  "nat_bytes n = (if n = 0 then [] else nat_bytes (n div 256) @ [word_of_nat n])"

declare nat_bytes.simps [simp del]

definition big_bytes :: "int \<Rightarrow> bytes" where
  "big_bytes x = nat_bytes (nat \<bar>x\<bar>)"

section \<open>The libraries outside the repository\<close>

datatype rlp =
    RUint u64
  | RBig int
  | RAddr "address option"
  | RHash hash
  | RBytes bytes
  | RList "rlp list"

record crypto_lib =
  cr_rlp :: "rlp \<Rightarrow> bytes"
  cr_Keccak256 :: "bytes \<Rightarrow> bytes"
  cr_ValidateSignatureValues :: "u8 \<Rightarrow> int \<Rightarrow> int \<Rightarrow> bool \<Rightarrow> bool"
  cr_Ecrecover :: "bytes \<Rightarrow> bytes \<Rightarrow> bytes option"
  cr_Sign :: "bytes \<Rightarrow> bytes \<Rightarrow> bytes option"
  cr_CreateAddress :: "address \<Rightarrow> u64 \<Rightarrow> address"

definition rlpHash :: "crypto_lib \<Rightarrow> rlp \<Rightarrow> hash" where
  "rlpHash C x = be_word (take 32 (cr_Keccak256 C (cr_rlp C x)))"

section \<open>Transactions\<close>

record txdata =
  td_AccountNonce :: u64
  td_Price :: int
  td_GasLimit :: u64
  td_ShardID :: u64
  td_ToShardID :: u64
  td_Recipient :: "address option"
  td_Amount :: int
  td_Payload :: bytes
  td_V :: int
  td_R :: int
  td_S :: int
  td_Hash :: "hash option"

datatype Signer =
    EIP155Signer (chainId: int) (chainIdMul: int)
  | HomesteadSigner
  | FrontierSigner

record Transaction =
  tx_data :: txdata
  tx_time :: int
  tx_hash :: "hash option"
  tx_size :: "nat option"
  tx_from :: "(Signer \<times> address) option"

datatype tx_error = ErrInvalidSig | ErrInvalidChainId | ErrInvalidPublicKey | ErrEcrecover | ErrSign | ErrDecode
  | SigPanic

definition newTransaction ::
  "int \<Rightarrow> u64 \<Rightarrow> address option \<Rightarrow> u64 \<Rightarrow> u64 \<Rightarrow> int option \<Rightarrow> u64 \<Rightarrow> int option \<Rightarrow> bytes \<Rightarrow> Transaction" where
  "newTransaction now nonce to shardID toShardID amount gasLimit gasPrice data =
     (let d = \<lparr>td_AccountNonce = nonce, td_Price = 0, td_GasLimit = gasLimit, td_ShardID = shardID,
               td_ToShardID = toShardID, td_Recipient = to, td_Amount = 0, td_Payload = data,
               td_V = 0, td_R = 0, td_S = 0, td_Hash = None\<rparr>;
          d = (case amount of None \<Rightarrow> d | Some a \<Rightarrow> d\<lparr>td_Amount := a\<rparr>);
          d = (case gasPrice of None \<Rightarrow> d | Some p \<Rightarrow> d\<lparr>td_Price := p\<rparr>)
      in \<lparr>tx_data = d, tx_time = now, tx_hash = None, tx_size = None, tx_from = None\<rparr>)"

definition NewTransaction ::
  "int \<Rightarrow> u64 \<Rightarrow> address \<Rightarrow> u64 \<Rightarrow> u64 \<Rightarrow> int option \<Rightarrow> u64 \<Rightarrow> int option \<Rightarrow> bytes \<Rightarrow> Transaction" where
  "NewTransaction now nonce to shardID toShardID amount gasLimit gasPrice data =
     newTransaction now nonce (Some to) shardID toShardID amount gasLimit gasPrice data"

definition NewContractCreation ::
  "int \<Rightarrow> u64 \<Rightarrow> u64 \<Rightarrow> int option \<Rightarrow> u64 \<Rightarrow> int option \<Rightarrow> bytes \<Rightarrow> Transaction" where
  "NewContractCreation now nonce shardID amount gasLimit gasPrice data =
     newTransaction now nonce None shardID shardID amount gasLimit gasPrice data"

definition deriveChainID :: "int \<Rightarrow> int" where
  "deriveChainID v =
     (if BitLen v \<le> 64
      then (let v = big_Uint64 v in if v = 27 \<or> v = 28 then 0 else uint ((v - 35) div 2))
      else (v - 35) div 2)"

definition tx_ChainID :: "Transaction \<Rightarrow> int" where
  "tx_ChainID tx = deriveChainID (td_V (tx_data tx))"

definition isProtectedV :: "int \<Rightarrow> bool" where
  "isProtectedV V =
     (if BitLen V \<le> 8 then (let v = big_Uint64 V in v \<noteq> 27 \<and> v \<noteq> 28) else True)"

definition tx_Protected :: "Transaction \<Rightarrow> bool" where
  "tx_Protected tx = isProtectedV (td_V (tx_data tx))"

abbreviation tx_Nonce :: "Transaction \<Rightarrow> u64" where
  "tx_Nonce tx \<equiv> td_AccountNonce (tx_data tx)"

abbreviation tx_Gas :: "Transaction \<Rightarrow> u64" where
  "tx_Gas tx \<equiv> td_GasLimit (tx_data tx)"

abbreviation tx_GasPrice :: "Transaction \<Rightarrow> int" where
  "tx_GasPrice tx \<equiv> td_Price (tx_data tx)"

definition big_Cmp :: "int \<Rightarrow> int \<Rightarrow> int" where
  "big_Cmp x y = (if x < y then -1 else if x = y then 0 else 1)"

definition GasPriceCmp :: "Transaction \<Rightarrow> Transaction \<Rightarrow> int" where
  "GasPriceCmp tx other = big_Cmp (tx_GasPrice tx) (tx_GasPrice other)"

definition GasPriceIntCmp :: "Transaction \<Rightarrow> int \<Rightarrow> int" where
  "GasPriceIntCmp tx other = big_Cmp (tx_GasPrice tx) other"

definition tx_Cost :: "Transaction \<Rightarrow> int" where
  "tx_Cost tx = 0 + td_Amount (tx_data tx)"

text \<open>What \<open>EncodeRLP\<close> hands to the encoder: the fields of \<open>txdata\<close> but \<open>Hash\<close>, which is tagged out.\<close>

definition txdata_rlp :: "txdata \<Rightarrow> rlp" where
  "txdata_rlp d =
     RList [RUint (td_AccountNonce d), RBig (td_Price d), RUint (td_GasLimit d), RUint (td_ShardID d),
            RUint (td_ToShardID d), RAddr (td_Recipient d), RBig (td_Amount d), RBytes (td_Payload d),
            RBig (td_V d), RBig (td_R d), RBig (td_S d)]"

definition tx_Hash :: "crypto_lib \<Rightarrow> Transaction \<Rightarrow> hash \<times> Transaction" where
  "tx_Hash C tx =
     (case tx_hash tx of
        Some h \<Rightarrow> (h, tx)
      | None \<Rightarrow> (let v = rlpHash C (txdata_rlp (tx_data tx)) in (v, tx\<lparr>tx_hash := Some v\<rparr>)))"

definition tx_Size :: "crypto_lib \<Rightarrow> Transaction \<Rightarrow> nat \<times> Transaction" where
  "tx_Size C tx =
     (case tx_size tx of
        Some n \<Rightarrow> (n, tx)
      | None \<Rightarrow> (let c = length (cr_rlp C (txdata_rlp (tx_data tx))) in (c, tx\<lparr>tx_size := Some c\<rparr>)))"

definition UnmarshalJSON_tx :: "crypto_lib \<Rightarrow> int \<Rightarrow> txdata option \<Rightarrow> tx_error + Transaction" where
  "UnmarshalJSON_tx C now decoded =
     (case decoded of
        None \<Rightarrow> Inl ErrDecode
      | Some dec \<Rightarrow>
          (let withSignature = (td_V dec \<noteq> 0 \<or> td_R dec \<noteq> 0 \<or> td_S dec \<noteq> 0);
               V = (if isProtectedV (td_V dec)
                    then ucast (big_Uint64 (td_V dec) - 35 - 2 * big_Uint64 (deriveChainID (td_V dec)))
                    else ucast (big_Uint64 (td_V dec) - 27)) :: u8
           in if withSignature \<and> \<not> cr_ValidateSignatureValues C V (td_R dec) (td_S dec) False
              then Inl ErrInvalidSig
              else Inr \<lparr>tx_data = dec, tx_time = now, tx_hash = None, tx_size = None, tx_from = None\<rparr>))"

definition TxByNonce_Less :: "Transaction list \<Rightarrow> nat \<Rightarrow> nat \<Rightarrow> bool" where
  "TxByNonce_Less s i j \<longleftrightarrow> tx_Nonce (s ! i) < tx_Nonce (s ! j)"

text \<open>
  \<open>TxDifference\<close> works on hashes only: \<open>hashOf\<close> is \<open>tx.Hash()\<close>.
\<close>

definition TxDifference :: "(Transaction \<Rightarrow> hash) \<Rightarrow> Transaction list \<Rightarrow> Transaction list \<Rightarrow> Transaction list" where
  "TxDifference hashOf a b =
     (let remove = map hashOf b in filter (\<lambda>tx. hashOf tx \<notin> set remove) a)"

section \<open>Signers\<close>

definition NewEIP155Signer :: "int option \<Rightarrow> Signer" where
  "NewEIP155Signer c =
     (let c = (case c of None \<Rightarrow> 0 | Some c \<Rightarrow> c) in EIP155Signer c (c * 2))"

definition MakeSigner :: Signer where
  "MakeSigner = NewEIP155Signer None"

fun Signer_Equal :: "Signer \<Rightarrow> Signer \<Rightarrow> bool" where
  "Signer_Equal (EIP155Signer c _) (EIP155Signer c' _) = (c' = c)"
| "Signer_Equal HomesteadSigner HomesteadSigner = True"
| "Signer_Equal FrontierSigner FrontierSigner = True"
| "Signer_Equal _ _ = False"

definition sighash_fields :: "txdata \<Rightarrow> rlp list" where
  "sighash_fields d =
     [RUint (td_AccountNonce d), RUint (td_ShardID d), RUint (td_ToShardID d), RAddr (td_Recipient d),
      RBig (td_Amount d)]"

fun Signer_Hash :: "crypto_lib \<Rightarrow> Signer \<Rightarrow> Transaction \<Rightarrow> hash" where
  "Signer_Hash C (EIP155Signer c _) tx =
     rlpHash C (RList (sighash_fields (tx_data tx) @ [RBig c, RUint 0, RUint 0]))"
| "Signer_Hash C HomesteadSigner tx = rlpHash C (RList (sighash_fields (tx_data tx)))"
| "Signer_Hash C FrontierSigner tx = rlpHash C (RList (sighash_fields (tx_data tx)))"

definition frontier_SignatureValues :: "bytes \<Rightarrow> tx_error + (int \<times> int \<times> int)" where
  "frontier_SignatureValues sig =
     (if length sig \<noteq> 65 then Inl SigPanic
      else Inr (bytes_big (take 32 sig), bytes_big (take 32 (drop 32 sig)), bytes_big [sig ! 64 + 27]))"

fun SignatureValues :: "Signer \<Rightarrow> bytes \<Rightarrow> tx_error + (int \<times> int \<times> int)" where
  "SignatureValues (EIP155Signer c cm) sig =
     (case frontier_SignatureValues sig of
        Inl e \<Rightarrow> Inl e
      | Inr (R, S, V) \<Rightarrow>
          (if c \<noteq> 0 then Inr (R, S, uint (sig ! 64 + 35) + cm) else Inr (R, S, V)))"
| "SignatureValues HomesteadSigner sig = frontier_SignatureValues sig"
| "SignatureValues FrontierSigner sig = frontier_SignatureValues sig"

definition WithSignature :: "Signer \<Rightarrow> bytes \<Rightarrow> Transaction \<Rightarrow> tx_error + Transaction" where
  "WithSignature signer sig tx =
     (case SignatureValues signer sig of
        Inl e \<Rightarrow> Inl e
      | Inr (r, s, v) \<Rightarrow>
          Inr \<lparr>tx_data = (tx_data tx)\<lparr>td_R := r, td_S := s, td_V := v\<rparr>, tx_time = tx_time tx,
               tx_hash = None, tx_size = None, tx_from = None\<rparr>)"

definition SignTx :: "crypto_lib \<Rightarrow> Signer \<Rightarrow> bytes \<Rightarrow> Transaction \<Rightarrow> tx_error + Transaction" where
  "SignTx C s prv tx =
     (case cr_Sign C (be_bytes 32 (Signer_Hash C s tx)) prv of
        None \<Rightarrow> Inl ErrSign
      | Some sig \<Rightarrow> WithSignature s sig tx)"

text \<open>
  \<open>copy(sig[32-len(r):32], r)\<close>: the bytes of the integer, right-aligned in a zeroed field. A longer
  integer makes the slice bound negative, which panics.
\<close>

definition right_align :: "nat \<Rightarrow> bytes \<Rightarrow> bytes option" where
  "right_align n bs = (if n < length bs then None else Some (replicate (n - length bs) 0 @ bs))"

definition pub_address :: "crypto_lib \<Rightarrow> bytes \<Rightarrow> address" where
  "pub_address C pub = be_word (take 20 (drop 12 (cr_Keccak256 C (drop 1 pub))))"

definition recoverPlain :: "crypto_lib \<Rightarrow> hash \<Rightarrow> int \<Rightarrow> int \<Rightarrow> int \<Rightarrow> bool \<Rightarrow> tx_error + address" where
  "recoverPlain C sighash R S Vb homestead =
     (if 8 < BitLen Vb then Inl ErrInvalidSig
      else
        let V = ucast (big_Uint64 Vb - 27) :: u8 in
        if \<not> cr_ValidateSignatureValues C V R S homestead then Inl ErrInvalidSig
        else (case (right_align 32 (big_bytes R), right_align 32 (big_bytes S)) of
                (Some r, Some s) \<Rightarrow>
                  (case cr_Ecrecover C (be_bytes 32 sighash) (r @ s @ [V]) of
                     None \<Rightarrow> Inl ErrEcrecover
                   | Some pub \<Rightarrow>
                       (if length pub = 0 \<or> pub ! 0 \<noteq> 4 then Inl ErrInvalidPublicKey
                        else Inr (pub_address C pub)))
              | _ \<Rightarrow> Inl SigPanic))"

fun Signer_Sender :: "crypto_lib \<Rightarrow> Signer \<Rightarrow> Transaction \<Rightarrow> tx_error + address" where
  "Signer_Sender C FrontierSigner tx =
     recoverPlain C (Signer_Hash C FrontierSigner tx) (td_R (tx_data tx)) (td_S (tx_data tx)) (td_V (tx_data tx)) False"
| "Signer_Sender C HomesteadSigner tx =
     recoverPlain C (Signer_Hash C HomesteadSigner tx) (td_R (tx_data tx)) (td_S (tx_data tx)) (td_V (tx_data tx)) True"
| "Signer_Sender C (EIP155Signer c cm) tx =
     (if \<not> tx_Protected tx
      then recoverPlain C (Signer_Hash C HomesteadSigner tx) (td_R (tx_data tx)) (td_S (tx_data tx)) (td_V (tx_data tx)) True
      else if tx_ChainID tx \<noteq> c then Inl ErrInvalidChainId
      else recoverPlain C (Signer_Hash C (EIP155Signer c cm) tx) (td_R (tx_data tx)) (td_S (tx_data tx))
             (td_V (tx_data tx) - cm - 8) True)"

definition Sender :: "crypto_lib \<Rightarrow> Signer \<Rightarrow> Transaction \<Rightarrow> (tx_error + address) \<times> Transaction" where
  "Sender C signer tx =
     (let derive = (case Signer_Sender C signer tx of
                      Inl e \<Rightarrow> (Inl e, tx)
                    | Inr addr \<Rightarrow> (Inr addr, tx\<lparr>tx_from := Some (signer, addr)\<rparr>))
      in (case tx_from tx of
            Some (sg, from) \<Rightarrow> if Signer_Equal sg signer then (Inr from, tx) else derive
          | None \<Rightarrow> derive))"

section \<open>Facts about math/big\<close>

lemma bitlen_le: "bitlen n \<le> k \<longleftrightarrow> n < 2 ^ k"
proof (induction n arbitrary: k rule: bitlen.induct)
  case (1 n)
  show ?case
  proof (cases "n = 0 \<or> k = 0")
    case True
    then show ?thesis by (subst bitlen.simps) auto
  next
    case False
    then obtain j where k: "k = Suc j" by (cases k) auto
    have "bitlen n \<le> k \<longleftrightarrow> bitlen (n div 2) \<le> j"
      using False k by (subst bitlen.simps) simp
    also have "\<dots> \<longleftrightarrow> n div 2 < 2 ^ j" using 1 False by blast
    also have "\<dots> \<longleftrightarrow> n < 2 ^ k" using k by auto
    finally show ?thesis .
  qed
qed

lemma BitLen_le: "BitLen x \<le> k \<longleftrightarrow> \<bar>x\<bar> < 2 ^ k"
  by (simp add: BitLen_def bitlen_le nat_less_iff)

lemma bytes_big_snoc: "bytes_big (bs @ [b]) = 256 * bytes_big bs + int (unat b)"
  by (simp add: bytes_big_def)

lemma bytes_big_nonneg [simp]: "0 \<le> bytes_big bs"
  by (simp add: bytes_big_def)

lemma word_256_zero: "(256 :: u8) = 0"
  by simp

text \<open>The minimal bytes of an integer read from a field, right-aligned, are the field again.\<close>

lemma right_align_bytes_big: "right_align (length bs) (big_bytes (bytes_big bs)) = Some bs"
proof (induction bs rule: rev_induct)
  case Nil
  then show ?case by (simp add: right_align_def big_bytes_def bytes_big_def nat_bytes.simps)
next
  case (snoc b bs)
  define v where "v = nat (bytes_big bs)"
  have v: "big_bytes (bytes_big bs) = nat_bytes v" by (simp add: big_bytes_def v_def)
  have IH: "length (nat_bytes v) \<le> length bs"
    "replicate (length bs - length (nat_bytes v)) 0 @ nat_bytes v = bs"
    using snoc.IH by (auto simp: v right_align_def split: if_splits)
  have b: "unat b < 256" using unsigned_less [of b, where 'a = nat] by simp
  have w: "nat (bytes_big (bs @ [b])) = 256 * v + unat b"
    by (simp add: bytes_big_snoc v_def nat_add_distrib nat_mult_distrib)
  have big: "big_bytes (bytes_big (bs @ [b])) = nat_bytes (256 * v + unat b)"
    using w by (simp add: big_bytes_def)
  show ?case
  proof (cases "256 * v + unat b = 0")
    case True
    then have "v = 0" "b = 0" by (simp_all add: unat_0_iff)
    then have "bs = replicate (length bs) 0" using IH by (simp add: nat_bytes.simps)
    then have "replicate (Suc (length bs)) 0 = bs @ [b]"
      using \<open>b = 0\<close> by (metis replicate_Suc replicate_append_same)
    moreover have "big_bytes (bytes_big (bs @ [b])) = []"
      unfolding big True by (simp add: nat_bytes.simps)
    ultimately show ?thesis by (simp add: right_align_def)
  next
    case False
    have "word_of_nat (256 * v + unat b) = b"
      by (simp add: word_256_zero)
    moreover have "(256 * v + unat b) div 256 = v" using b by simp
    ultimately have "nat_bytes (256 * v + unat b) = nat_bytes v @ [b]"
      using False by (subst nat_bytes.simps) simp
    then show ?thesis using IH by (simp add: big right_align_def)
  qed
qed

section \<open>Signature values\<close>

lemma signed_v:
  assumes "b = 0 \<or> b = (1 :: u8)"
  shows "bytes_big [b + 27] = 27 + int (unat b)" "uint (b + 35) = 35 + int (unat b)"
  using assms by (auto simp: bytes_big_def)

lemma big_Uint64_small: "0 \<le> x \<Longrightarrow> x < 2 ^ 64 \<Longrightarrow> uint (big_Uint64 x) = x"
  by (simp add: big_Uint64_def uint_word_of_int_eq take_bit_int_eq_self)

lemma big_Uint64_eq: "0 \<le> x \<Longrightarrow> x < 2 ^ 64 \<Longrightarrow> big_Uint64 x = word_of_int x"
  using big_Uint64_small [of x] by (metis word_of_int_uint)

text \<open>The EIP155 \<open>V\<close> is protected and gives back its chain id.\<close>

lemma eip155_v:
  assumes c: "0 < c" and b: "b = 0 \<or> b = (1 :: int)"
  shows "isProtectedV (35 + b + 2 * c)" "deriveChainID (35 + b + 2 * c) = c"
proof -
  define v where "v = 35 + b + 2 * c"
  have v: "37 \<le> v" using c b by (auto simp: v_def)
  have big: "big_Uint64 v \<noteq> 27 \<and> big_Uint64 v \<noteq> 28" if "v < 2 ^ 64"
    using big_Uint64_small [OF _ that] v by auto
  have "v < 2 ^ 64" if "BitLen v \<le> 8" using that v by (simp add: BitLen_le)
  then show "isProtectedV (35 + b + 2 * c)"
    unfolding v_def [symmetric] isProtectedV_def Let_def using big by simp
  have "(v - 35) div 2 = c" using b by (auto simp: v_def)
  moreover have "uint ((big_Uint64 v - 35) div 2) = (v - 35) div 2" if "v < 2 ^ 64"
  proof -
    have "uint (big_Uint64 v - 35) = v - 35"
      using big_Uint64_small [OF _ that] v by (simp add: uint_sub_lem [THEN iffD1] word_le_def)
    then show ?thesis by (simp add: uint_div_distrib)
  qed
  ultimately show "deriveChainID (35 + b + 2 * c) = c"
    unfolding v_def [symmetric] deriveChainID_def Let_def using big v by (simp add: BitLen_le)
qed

lemma plain_v:
  assumes "b = 0 \<or> b = (1 :: u8)"
  shows "BitLen (27 + int (unat b)) \<le> 8" "ucast (big_Uint64 (27 + int (unat b)) - 27) = b"
    "\<not> isProtectedV (27 + int (unat b))"
  using assms by (auto simp: BitLen_le big_Uint64_def isProtectedV_def)

text \<open>Recovering from the values of a 65-byte signature calls the library on that signature.\<close>

lemma recoverPlain_signature:
  assumes "length sig = 65" "sig ! 64 = 0 \<or> sig ! 64 = 1"
    and "cr_ValidateSignatureValues C (sig ! 64) (bytes_big (take 32 sig)) (bytes_big (take 32 (drop 32 sig))) homestead"
    and "cr_Ecrecover C (be_bytes 32 h) sig = Some pub" "pub \<noteq> []" "pub ! 0 = 4"
  shows "recoverPlain C h (bytes_big (take 32 sig)) (bytes_big (take 32 (drop 32 sig)))
      (27 + int (unat (sig ! 64))) homestead = Inr (pub_address C pub)"
proof -
  have parts: "take 32 sig @ take 32 (drop 32 sig) @ [sig ! 64] = sig"
  proof -
    have "drop 64 sig = [sig ! 64]" using assms(1) Cons_nth_drop_Suc [of 64 sig] by simp
    moreover have "take 32 (drop 32 sig) @ drop 64 sig = drop 32 sig"
      using append_take_drop_id [of 32 "drop 32 sig"] by simp
    ultimately show ?thesis using append_take_drop_id [of 32 sig] by simp
  qed
  have "right_align 32 (big_bytes (bytes_big (take 32 sig))) = Some (take 32 sig)"
    "right_align 32 (big_bytes (bytes_big (take 32 (drop 32 sig)))) = Some (take 32 (drop 32 sig))"
    using right_align_bytes_big [of "take 32 sig"] right_align_bytes_big [of "take 32 (drop 32 sig)"] assms(1)
    by simp_all
  then show ?thesis
    using plain_v [OF assms(2)] assms(3-6) parts
    by (simp add: recoverPlain_def Let_def not_less)
qed

lemma sighash_fields_signature [simp]:
  "sighash_fields (d\<lparr>td_R := r, td_S := s, td_V := v\<rparr>) = sighash_fields d"
  by (simp add: sighash_fields_def)

lemma Signer_Hash_WithSignature:
  "WithSignature s sig tx = Inr tx' \<Longrightarrow> Signer_Hash C g tx' = Signer_Hash C g tx"
  by (cases g) (auto simp: WithSignature_def sighash_fields_def split: sum.splits)

definition signer_wf :: "Signer \<Rightarrow> bool" where
  "signer_wf s = (case s of EIP155Signer c cm \<Rightarrow> cm = 2 * c | _ \<Rightarrow> True)"

lemma signer_wf_NewEIP155Signer [simp]: "signer_wf (NewEIP155Signer c)" "signer_wf MakeSigner"
  by (simp_all add: signer_wf_def NewEIP155Signer_def MakeSigner_def Let_def)

lemma Signer_Equal_wf: "signer_wf a \<Longrightarrow> signer_wf b \<Longrightarrow> Signer_Equal a b \<longleftrightarrow> a = b"
  by (cases a; cases b) (auto simp: signer_wf_def)

definition from_ok :: "crypto_lib \<Rightarrow> Transaction \<Rightarrow> bool" where
  "from_ok C tx =
     (case tx_from tx of None \<Rightarrow> True | Some (s, a) \<Rightarrow> signer_wf s \<and> Signer_Sender C s tx = Inr a)"

lemma Signer_Sender_from [simp]: "Signer_Sender C s (tx\<lparr>tx_from := f\<rparr>) = Signer_Sender C s tx"
  by (cases s) (simp_all add: tx_Protected_def tx_ChainID_def)

section \<open>Properties of signatures\<close>

text \<open>
  A library for concrete runs: the "hash" of a text is its length, a signature holds the hash and the
  key, and recovery returns a public key that is longer when it is asked about another hash.
\<close>

primrec sample_rlp :: "rlp \<Rightarrow> bytes" and sample_rlps :: "rlp list \<Rightarrow> bytes" where
  "sample_rlp (RUint n) = be_bytes 8 n"
| "sample_rlp (RBig n) = big_bytes n"
| "sample_rlp (RAddr a) = (case a of None \<Rightarrow> [] | Some a \<Rightarrow> be_bytes 20 a)"
| "sample_rlp (RHash h) = be_bytes 32 h"
| "sample_rlp (RBytes bs) = bs"
| "sample_rlp (RList xs) = sample_rlps xs"
| "sample_rlps [] = []"
| "sample_rlps (x # xs) = sample_rlp x @ sample_rlps xs"

definition sample_crypto :: crypto_lib where
  "sample_crypto =
     \<lparr>cr_rlp = sample_rlp,
      cr_Keccak256 = (\<lambda>bs. replicate 31 0 @ [word_of_nat (length bs)]),
      cr_ValidateSignatureValues = (\<lambda>v r s homestead. v = 0 \<or> v = 1),
      cr_Ecrecover = (\<lambda>h sig. Some (4 # take 32 (drop 32 sig) @ (if h = take 32 sig then [] else [1]))),
      cr_Sign = (\<lambda>h prv. Some (h @ prv @ [0])),
      cr_CreateAddress = (\<lambda>a n. ucast n)\<rparr>"

definition sample_tx :: Transaction where
  "sample_tx = NewTransaction 0 5 0xAB 1 1 (Some 10) 21000 (Some 3) [1, 2]"



text \<open>
  C14: The sender cache is transparent: on a transaction whose cache was filled by a signer, \<open>Sender\<close>
  returns what the signer derives, and leaves a cache that agrees with its signer.
\<close>

theorem Sender_cache:
  assumes "from_ok C tx" "signer_wf s"
  shows "fst (Sender C s tx) = Signer_Sender C s tx \<and> from_ok C (snd (Sender C s tx)) \<and>
         tx_data (snd (Sender C s tx)) = tx_data tx"
proof -
  have "from_ok C (snd (Sender C s tx))"
    using assms by (auto simp: from_ok_def Sender_def Let_def split: option.splits sum.splits)
  moreover have "fst (Sender C s tx) = Signer_Sender C s tx"
    using assms by (auto simp: from_ok_def Sender_def Let_def Signer_Equal_wf split: option.splits sum.splits)
  ultimately show ?thesis
    by (auto simp: Sender_def Let_def split: option.splits sum.splits)
qed

theorem Sender_cache_witness:
  "fst (Sender sample_crypto MakeSigner sample_tx) = Signer_Sender sample_crypto MakeSigner sample_tx \<and>
   from_ok sample_crypto (snd (Sender sample_crypto MakeSigner sample_tx)) \<and>
   tx_data (snd (Sender sample_crypto MakeSigner sample_tx)) = tx_data sample_tx"
  by (rule Sender_cache) code_simp+

text \<open>
  C12: The signature does not cover the gas price, the gas limit or the payload: every signer derives
  the same sender when these are replaced in a signed transaction.
\<close>

theorem gas_and_payload_unsigned:
  "Signer_Sender C s (tx\<lparr>tx_data := (tx_data tx)\<lparr>td_Price := price, td_GasLimit := gas, td_Payload := payload\<rparr>\<rparr>) =
   Signer_Sender C s tx"
  by (cases s) (simp_all add: tx_Protected_def tx_ChainID_def sighash_fields_def)

text \<open>
  C17: \<open>MakeSigner\<close> signs with chain id zero, and such signatures do not round trip: signing hashes
  the EIP155 fields, while deriving the sender hashes the shorter Homestead list.
\<close>

theorem MakeSigner_hash_mismatch:
  assumes "cr_Sign C (be_bytes 32 (Signer_Hash C MakeSigner tx)) prv = Some sig"
    and "length sig = 65" "sig ! 64 = 0 \<or> sig ! 64 = 1"
  shows "\<exists>tx'. SignTx C MakeSigner prv tx = Inr tx' \<and>
           Signer_Sender C MakeSigner tx' =
             recoverPlain C (rlpHash C (RList (sighash_fields (tx_data tx)))) (bytes_big (take 32 sig))
               (bytes_big (take 32 (drop 32 sig))) (27 + int (unat (sig ! 64))) True \<and>
           Signer_Hash C MakeSigner tx =
             rlpHash C (RList (sighash_fields (tx_data tx) @ [RBig 0, RUint 0, RUint 0]))"
proof -
  define tx' where "tx' = \<lparr>tx_data = (tx_data tx)\<lparr>td_R := bytes_big (take 32 sig),
      td_S := bytes_big (take 32 (drop 32 sig)), td_V := 27 + int (unat (sig ! 64))\<rparr>,
      tx_time = tx_time tx, tx_hash = None, tx_size = None, tx_from = None\<rparr>"
  have "WithSignature MakeSigner sig tx = Inr tx'"
    using assms(2) signed_v [OF assms(3)]
    by (simp add: WithSignature_def MakeSigner_def NewEIP155Signer_def frontier_SignatureValues_def tx'_def)
  moreover have "\<not> tx_Protected tx'"
    using plain_v(3) [OF assms(3)] by (simp add: tx_Protected_def tx'_def)
  ultimately show ?thesis
    using assms(1) by (auto simp: SignTx_def MakeSigner_def NewEIP155Signer_def tx'_def sighash_fields_def)
qed

theorem MakeSigner_hash_mismatch_witness:
  "\<exists>tx'. SignTx sample_crypto MakeSigner (replicate 32 9) sample_tx = Inr tx' \<and>
     Signer_Sender sample_crypto MakeSigner tx' =
       recoverPlain sample_crypto (rlpHash sample_crypto (RList (sighash_fields (tx_data sample_tx))))
         (bytes_big (be_bytes 32 (Signer_Hash sample_crypto MakeSigner sample_tx)))
         (bytes_big (replicate 32 9)) 27 True \<and>
     Signer_Hash sample_crypto MakeSigner sample_tx \<noteq>
       rlpHash sample_crypto (RList (sighash_fields (tx_data sample_tx)))"
proof -
  have "Signer_Hash sample_crypto MakeSigner sample_tx \<noteq>
      rlpHash sample_crypto (RList (sighash_fields (tx_data sample_tx)))"
    by code_simp
  moreover have "cr_Sign sample_crypto (be_bytes 32 (Signer_Hash sample_crypto MakeSigner sample_tx)) (replicate 32 9) =
      Some (be_bytes 32 (Signer_Hash sample_crypto MakeSigner sample_tx) @ replicate 32 9 @ [0])"
    by (simp add: sample_crypto_def)
  from MakeSigner_hash_mismatch [OF this] obtain tx' where
    "SignTx sample_crypto MakeSigner (replicate 32 9) sample_tx = Inr tx'"
    "Signer_Sender sample_crypto MakeSigner tx' =
       recoverPlain sample_crypto (rlpHash sample_crypto (RList (sighash_fields (tx_data sample_tx))))
         (bytes_big (be_bytes 32 (Signer_Hash sample_crypto MakeSigner sample_tx)))
         (bytes_big (replicate 32 9)) 27 True"
    by (auto simp: nth_append)
  ultimately show ?thesis by blast
qed

end
