(* ===== verification/Receipts.thy ===== *)
theory Receipts
  imports Tx_Types
begin

text \<open>
  Logs, bloom filters and receipts: \<open>core/types/bloom9.go\<close>, \<open>core/types/log.go\<close> and
  \<open>core/types/receipt.go\<close>. Keccak comes from \<open>crypto_lib\<close>; the decoders of the RLP library are the
  fields of \<open>log_codec\<close> and \<open>receipt_codec\<close>, each from a blob to the decoded struct or an error.
\<close>

section \<open>Logs\<close>

record Log =
  lg_Address :: address
  lg_Topics :: "hash list"
  lg_Data :: bytes
  lg_BlockNumber :: u64
  lg_TxHash :: hash
  lg_TxIndex :: nat
  lg_BlockHash :: hash
  lg_Index :: nat
  lg_Removed :: bool

record rlpLog =
  rl_Address :: address
  rl_Topics :: "hash list"
  rl_Data :: bytes

record legacyRlpStorageLog = rlpLog +
  ll_BlockNumber :: u64
  ll_TxHash :: hash
  ll_TxIndex :: nat
  ll_BlockHash :: hash
  ll_Index :: nat

record log_codec =
  lc_storage :: "bytes \<Rightarrow> rlpLog option"
  lc_legacy :: "bytes \<Rightarrow> legacyRlpStorageLog option"

definition Log_rlp :: "Log \<Rightarrow> rlpLog" where
  "Log_rlp l = \<lparr>rl_Address = lg_Address l, rl_Topics = lg_Topics l, rl_Data = lg_Data l\<rparr>"

definition Log_DecodeRLP :: "rlpLog option \<Rightarrow> Log \<Rightarrow> Log option" where
  "Log_DecodeRLP decoded l =
     (case decoded of
        None \<Rightarrow> None
      | Some dec \<Rightarrow> Some (l\<lparr>lg_Address := rl_Address dec, lg_Topics := rl_Topics dec, lg_Data := rl_Data dec\<rparr>))"

definition empty_log :: Log where
  "empty_log = \<lparr>lg_Address = 0, lg_Topics = [], lg_Data = [], lg_BlockNumber = 0, lg_TxHash = 0,
     lg_TxIndex = 0, lg_BlockHash = 0, lg_Index = 0, lg_Removed = False\<rparr>"

definition LogForStorage_DecodeRLP :: "log_codec \<Rightarrow> bytes \<Rightarrow> Log option" where
  "LogForStorage_DecodeRLP K blob =
     (case lc_storage K blob of
        Some dec \<Rightarrow> Some (empty_log\<lparr>lg_Address := rl_Address dec, lg_Topics := rl_Topics dec, lg_Data := rl_Data dec\<rparr>)
      | None \<Rightarrow>
          (case lc_legacy K blob of
             Some dec \<Rightarrow> Some (empty_log\<lparr>lg_Address := rl_Address dec, lg_Topics := rl_Topics dec, lg_Data := rl_Data dec\<rparr>)
           | None \<Rightarrow> None))"

section \<open>Bloom filters\<close>

definition BloomByteLength :: nat where
  "BloomByteLength = 256"

type_synonym Bloom = bytes

definition empty_bloom :: Bloom where
  "empty_bloom = replicate BloomByteLength 0"

text \<open>\<open>SetBytes\<close> right-aligns the bytes and leaves those before them; it panics when they do not fit.\<close>

definition Bloom_SetBytes :: "Bloom \<Rightarrow> bytes \<Rightarrow> Bloom option" where
  "Bloom_SetBytes b d =
     (if length b < length d then None else Some (take (BloomByteLength - length d) b @ d))"

definition BytesToBloom :: "bytes \<Rightarrow> Bloom option" where
  "BytesToBloom b = Bloom_SetBytes empty_bloom b"

definition Bloom9 :: "bytes \<Rightarrow> bytes option" where
  "Bloom9 data = Bloom_SetBytes empty_bloom data"

text \<open>The index of the byte and the bit of it that two bytes of the hash select.\<close>

definition bloom_pair :: "bytes \<Rightarrow> nat \<Rightarrow> nat \<times> u8" where
  "bloom_pair hashbuf k =
     (BloomByteLength
        - unat (drop_bit 3 ((push_bit 8 (ucast (hashbuf ! k)) OR ucast (hashbuf ! (k + 1)) :: 16 word) AND 0x7ff)) - 1,
      push_bit (unat (hashbuf ! (k + 1) AND 0x7)) 1)"

definition bloomValues :: "crypto_lib \<Rightarrow> bytes \<Rightarrow> (nat \<times> u8) list" where
  "bloomValues C data =
     (let hashbuf = take 6 (cr_Keccak256 C data)
      in [bloom_pair hashbuf 0, bloom_pair hashbuf 2, bloom_pair hashbuf 4])"

definition bloom_or :: "nat \<times> u8 \<Rightarrow> Bloom \<Rightarrow> Bloom" where
  "bloom_or iv b = b[fst iv := b ! fst iv OR snd iv]"

definition Bloom_add :: "crypto_lib \<Rightarrow> bytes \<Rightarrow> Bloom \<Rightarrow> Bloom" where
  "Bloom_add C d b = fold bloom_or (bloomValues C d) b"

definition Bloom_Test :: "crypto_lib \<Rightarrow> Bloom \<Rightarrow> bytes \<Rightarrow> bool" where
  "Bloom_Test C b topic = list_all (\<lambda>(i, v). v = v AND b ! i) (bloomValues C topic)"

definition bloom_add_log :: "crypto_lib \<Rightarrow> Log \<Rightarrow> Bloom \<Rightarrow> Bloom" where
  "bloom_add_log C log b =
     fold (\<lambda>t. Bloom_add C (be_bytes 32 t)) (lg_Topics log) (Bloom_add C (be_bytes 20 (lg_Address log)) b)"

definition LogsBloom :: "crypto_lib \<Rightarrow> Log list \<Rightarrow> bytes" where
  "LogsBloom C logs = fold (bloom_add_log C) logs empty_bloom"

definition BloomLookup :: "crypto_lib \<Rightarrow> Bloom \<Rightarrow> bytes \<Rightarrow> bool" where
  "BloomLookup C bin topic = Bloom_Test C bin topic"

section \<open>Receipts\<close>

definition ReceiptStatusFailed :: u64 where "ReceiptStatusFailed = 0"
definition ReceiptStatusSuccessful :: u64 where "ReceiptStatusSuccessful = 1"
definition receiptStatusFailedRLP :: bytes where "receiptStatusFailedRLP = []"
definition receiptStatusSuccessfulRLP :: bytes where "receiptStatusSuccessfulRLP = [0x01]"

record Receipt =
  rc_PostState :: bytes
  rc_Status :: u64
  rc_CumulativeGasUsed :: u64
  rc_Bloom :: Bloom
  rc_Logs :: "Log list"
  rc_TxHash :: hash
  rc_ContractAddress :: address
  rc_GasUsed :: u64
  rc_BlockHash :: hash
  rc_BlockNumber :: "int option"
  rc_TransactionIndex :: nat

definition CreateBloom :: "crypto_lib \<Rightarrow> Receipt list \<Rightarrow> Bloom" where
  "CreateBloom C receipts = fold (\<lambda>receipt. fold (bloom_add_log C) (rc_Logs receipt)) receipts empty_bloom"

definition NewReceipt :: "bytes \<Rightarrow> bool \<Rightarrow> u64 \<Rightarrow> Receipt" where
  "NewReceipt root failed cumulativeGasUsed =
     \<lparr>rc_PostState = root,
      rc_Status = (if failed then ReceiptStatusFailed else ReceiptStatusSuccessful),
      rc_CumulativeGasUsed = cumulativeGasUsed, rc_Bloom = empty_bloom, rc_Logs = [], rc_TxHash = 0,
      rc_ContractAddress = 0, rc_GasUsed = 0, rc_BlockHash = 0, rc_BlockNumber = None,
      rc_TransactionIndex = 0\<rparr>"

definition setStatus :: "bytes \<Rightarrow> Receipt \<Rightarrow> Receipt option" where
  "setStatus postStateOrStatus r =
     (if postStateOrStatus = receiptStatusSuccessfulRLP then Some (r\<lparr>rc_Status := ReceiptStatusSuccessful\<rparr>)
      else if postStateOrStatus = receiptStatusFailedRLP then Some (r\<lparr>rc_Status := ReceiptStatusFailed\<rparr>)
      else if length postStateOrStatus = 32 then Some (r\<lparr>rc_PostState := postStateOrStatus\<rparr>)
      else None)"

definition statusEncoding :: "Receipt \<Rightarrow> bytes" where
  "statusEncoding r =
     (if length (rc_PostState r) = 0
      then (if rc_Status r = ReceiptStatusFailed then receiptStatusFailedRLP else receiptStatusSuccessfulRLP)
      else rc_PostState r)"

record receiptRLP =
  rr_PostStateOrStatus :: bytes
  rr_CumulativeGasUsed :: u64
  rr_Bloom :: Bloom
  rr_Logs :: "Log list"

record storedReceiptRLP =
  sr_PostStateOrStatus :: bytes
  sr_CumulativeGasUsed :: u64
  sr_Logs :: "Log list"

record v4StoredReceiptRLP =
  v4_PostStateOrStatus :: bytes
  v4_CumulativeGasUsed :: u64
  v4_TxHash :: hash
  v4_ContractAddress :: address
  v4_Logs :: "Log list"
  v4_GasUsed :: u64

record v3StoredReceiptRLP =
  v3_PostStateOrStatus :: bytes
  v3_CumulativeGasUsed :: u64
  v3_Bloom :: Bloom
  v3_TxHash :: hash
  v3_ContractAddress :: address
  v3_Logs :: "Log list"
  v3_GasUsed :: u64

record receipt_codec =
  co_stored :: "bytes \<Rightarrow> storedReceiptRLP option"
  co_v4 :: "bytes \<Rightarrow> v4StoredReceiptRLP option"
  co_v3 :: "bytes \<Rightarrow> v3StoredReceiptRLP option"

definition Receipt_EncodeRLP :: "Receipt \<Rightarrow> receiptRLP" where
  "Receipt_EncodeRLP r =
     \<lparr>rr_PostStateOrStatus = statusEncoding r, rr_CumulativeGasUsed = rc_CumulativeGasUsed r,
      rr_Bloom = rc_Bloom r, rr_Logs = rc_Logs r\<rparr>"

definition Receipt_DecodeRLP :: "receiptRLP option \<Rightarrow> Receipt \<Rightarrow> Receipt option" where
  "Receipt_DecodeRLP decoded r =
     (case decoded of
        None \<Rightarrow> None
      | Some dec \<Rightarrow>
          (case setStatus (rr_PostStateOrStatus dec) r of
             None \<Rightarrow> None
           | Some r' \<Rightarrow> Some (r'\<lparr>rc_CumulativeGasUsed := rr_CumulativeGasUsed dec, rc_Bloom := rr_Bloom dec,
                               rc_Logs := rr_Logs dec\<rparr>)))"

definition ReceiptForStorage_EncodeRLP :: "Receipt \<Rightarrow> storedReceiptRLP" where
  "ReceiptForStorage_EncodeRLP r =
     \<lparr>sr_PostStateOrStatus = statusEncoding r, sr_CumulativeGasUsed = rc_CumulativeGasUsed r,
      sr_Logs = rc_Logs r\<rparr>"

definition decodeStoredReceiptRLP :: "crypto_lib \<Rightarrow> receipt_codec \<Rightarrow> bytes \<Rightarrow> Receipt \<Rightarrow> Receipt option" where
  "decodeStoredReceiptRLP C K blob r =
     (case co_stored K blob of
        None \<Rightarrow> None
      | Some stored \<Rightarrow>
          (case setStatus (sr_PostStateOrStatus stored) r of
             None \<Rightarrow> None
           | Some r' \<Rightarrow>
               (let r' = r'\<lparr>rc_CumulativeGasUsed := sr_CumulativeGasUsed stored, rc_Logs := sr_Logs stored\<rparr>
                in Some (r'\<lparr>rc_Bloom := CreateBloom C [r']\<rparr>))))"

definition decodeV4StoredReceiptRLP :: "crypto_lib \<Rightarrow> receipt_codec \<Rightarrow> bytes \<Rightarrow> Receipt \<Rightarrow> Receipt option" where
  "decodeV4StoredReceiptRLP C K blob r =
     (case co_v4 K blob of
        None \<Rightarrow> None
      | Some stored \<Rightarrow>
          (case setStatus (v4_PostStateOrStatus stored) r of
             None \<Rightarrow> None
           | Some r' \<Rightarrow>
               (let r' = r'\<lparr>rc_CumulativeGasUsed := v4_CumulativeGasUsed stored, rc_TxHash := v4_TxHash stored,
                           rc_ContractAddress := v4_ContractAddress stored, rc_GasUsed := v4_GasUsed stored,
                           rc_Logs := v4_Logs stored\<rparr>
                in Some (r'\<lparr>rc_Bloom := CreateBloom C [r']\<rparr>))))"

definition decodeV3StoredReceiptRLP :: "receipt_codec \<Rightarrow> bytes \<Rightarrow> Receipt \<Rightarrow> Receipt option" where
  "decodeV3StoredReceiptRLP K blob r =
     (case co_v3 K blob of
        None \<Rightarrow> None
      | Some stored \<Rightarrow>
          (case setStatus (v3_PostStateOrStatus stored) r of
             None \<Rightarrow> None
           | Some r' \<Rightarrow>
               Some (r'\<lparr>rc_CumulativeGasUsed := v3_CumulativeGasUsed stored, rc_Bloom := v3_Bloom stored,
                        rc_TxHash := v3_TxHash stored, rc_ContractAddress := v3_ContractAddress stored,
                        rc_GasUsed := v3_GasUsed stored, rc_Logs := v3_Logs stored\<rparr>)))"

definition ReceiptForStorage_DecodeRLP :: "crypto_lib \<Rightarrow> receipt_codec \<Rightarrow> bytes \<Rightarrow> Receipt \<Rightarrow> Receipt option" where
  "ReceiptForStorage_DecodeRLP C K blob r =
     (case decodeStoredReceiptRLP C K blob r of
        Some r' \<Rightarrow> Some r'
      | None \<Rightarrow>
          (case decodeV3StoredReceiptRLP K blob r of
             Some r' \<Rightarrow> Some r'
           | None \<Rightarrow> decodeV4StoredReceiptRLP C K blob r))"

fun number_logs :: "u64 \<Rightarrow> hash \<Rightarrow> hash \<Rightarrow> nat \<Rightarrow> nat \<Rightarrow> Log list \<Rightarrow> Log list" where
  "number_logs number h txHash i logIndex [] = []"
| "number_logs number h txHash i logIndex (l # ls) =
     l\<lparr>lg_BlockNumber := number, lg_BlockHash := h, lg_TxHash := txHash, lg_TxIndex := i, lg_Index := logIndex\<rparr>
       # number_logs number h txHash i (Suc logIndex) ls"

fun derive_loop ::
  "crypto_lib \<Rightarrow> hash \<Rightarrow> u64 \<Rightarrow> nat \<Rightarrow> nat \<Rightarrow> u64 option \<Rightarrow> Receipt list \<Rightarrow> Transaction list \<Rightarrow> Receipt list" where
  "derive_loop C h number i logIndex prev (r # rs) (tx # txs) =
     (let txHash = fst (tx_Hash C tx);
          r' = r\<lparr>rc_TxHash := txHash, rc_BlockHash := h, rc_BlockNumber := Some (uint number),
                 rc_TransactionIndex := i,
                 rc_ContractAddress :=
                   (if td_Recipient (tx_data tx) = None
                    then cr_CreateAddress C
                           (case fst (Sender C MakeSigner tx) of Inl _ \<Rightarrow> 0 | Inr from \<Rightarrow> from) (tx_Nonce tx)
                    else rc_ContractAddress r),
                 rc_GasUsed :=
                   (case prev of
                      None \<Rightarrow> rc_CumulativeGasUsed r
                    | Some p \<Rightarrow> rc_CumulativeGasUsed r - p),
                 rc_Logs := number_logs number h txHash i logIndex (rc_Logs r)\<rparr>
      in r' # derive_loop C h number (Suc i) (logIndex + length (rc_Logs r)) (Some (rc_CumulativeGasUsed r)) rs txs)"
| "derive_loop C h number i logIndex prev _ _ = []"

definition DeriveFields :: "crypto_lib \<Rightarrow> hash \<Rightarrow> u64 \<Rightarrow> Transaction list \<Rightarrow> Receipt list \<Rightarrow> Receipt list option" where
  "DeriveFields C h number txs r =
     (if length txs \<noteq> length r then None else Some (derive_loop C h number 0 0 None r txs))"

section \<open>Facts about blooms\<close>

definition has_bits :: "Bloom \<Rightarrow> nat \<times> u8 \<Rightarrow> bool" where
  "has_bits b iv \<longleftrightarrow> snd iv = snd iv AND b ! fst iv"

lemma Bloom_Test_has_bits: "Bloom_Test C b d \<longleftrightarrow> (\<forall>iv \<in> set (bloomValues C d). has_bits b iv)"
  by (auto simp: Bloom_Test_def has_bits_def list_all_iff)

lemma bloomValues_index: "iv \<in> set (bloomValues C d) \<Longrightarrow> fst iv < BloomByteLength"
  by (auto simp: bloomValues_def bloom_pair_def BloomByteLength_def Let_def)

lemma and_or_absorb: "v = v AND x \<Longrightarrow> v = v AND (x OR w)" for v x w :: u8
  by (auto simp: bit_eq_iff bit_simps)

lemma and_or_self: "w = w AND (x OR w)" for x w :: u8
  by (auto simp: bit_eq_iff bit_simps)

lemma length_bloom_or [simp]: "length (bloom_or iv b) = length b"
  by (simp add: bloom_or_def)

lemma has_bits_bloom_or: "has_bits b jv \<Longrightarrow> has_bits (bloom_or iv b) jv"
  by (cases "fst jv < length b"; cases "fst iv = fst jv")
     (auto simp: has_bits_def bloom_or_def nth_list_update list_update_beyond and_or_absorb)

lemma has_bits_bloom_or_self: "fst iv < length b \<Longrightarrow> has_bits (bloom_or iv b) iv"
  by (simp add: has_bits_def bloom_or_def and_or_self)

lemma bloom_or_fold:
  "length (fold bloom_or ivs b) = length b"
  "has_bits b jv \<Longrightarrow> has_bits (fold bloom_or ivs b) jv"
  by (induction ivs arbitrary: b) (auto simp: has_bits_bloom_or)

lemma bloom_or_fold_self:
  "(\<forall>iv \<in> set ivs. fst iv < length b) \<Longrightarrow> jv \<in> set ivs \<Longrightarrow> has_bits (fold bloom_or ivs b) jv"
proof (induction ivs arbitrary: b)
  case (Cons iv ivs)
  show ?case
  proof (cases "jv = iv")
    case True
    then show ?thesis using Cons.prems by (simp add: bloom_or_fold(2) has_bits_bloom_or_self)
  next
    case False
    then show ?thesis using Cons by simp
  qed
qed simp

lemma length_Bloom_add [simp]: "length (Bloom_add C d b) = length b"
  by (simp add: Bloom_add_def bloom_or_fold)

lemma Bloom_Test_add: "Bloom_Test C b t \<Longrightarrow> Bloom_Test C (Bloom_add C d b) t"
  by (simp add: Bloom_Test_has_bits Bloom_add_def bloom_or_fold)

lemma Bloom_Test_add_self: "length b = BloomByteLength \<Longrightarrow> Bloom_Test C (Bloom_add C d b) d"
  by (simp add: Bloom_Test_has_bits Bloom_add_def bloom_or_fold_self bloomValues_index)

text \<open>A log adds its address and its topics, and keeps what was there.\<close>

definition log_items :: "Log \<Rightarrow> bytes list" where
  "log_items l = be_bytes 20 (lg_Address l) # map (be_bytes 32) (lg_Topics l)"

lemma bloom_add_log_items: "bloom_add_log C l b = fold (Bloom_add C) (log_items l) b"
  by (simp add: bloom_add_log_def log_items_def fold_map comp_def)

lemma bloom_fold_items:
  "length (fold (Bloom_add C) ds b) = length b"
  "Bloom_Test C b t \<Longrightarrow> Bloom_Test C (fold (Bloom_add C) ds b) t"
  by (induction ds arbitrary: b) (auto simp: Bloom_Test_add)

lemma bloom_fold_items_self:
  "length b = BloomByteLength \<Longrightarrow> d \<in> set ds \<Longrightarrow> Bloom_Test C (fold (Bloom_add C) ds b) d"
proof (induction ds arbitrary: b)
  case (Cons x ds)
  then show ?case by (cases "d = x") (simp_all add: bloom_fold_items(2) Bloom_Test_add_self)
qed simp

lemma fold_fold_concat: "fold (\<lambda>x. fold f (g x)) xs b = fold f (concat (map g xs)) b"
  by (induction xs arbitrary: b) simp_all

lemma LogsBloom_items: "LogsBloom C logs = fold (Bloom_add C) (concat (map log_items logs)) empty_bloom"
  by (simp add: LogsBloom_def bloom_add_log_items [abs_def] fold_fold_concat)

lemma CreateBloom_LogsBloom: "CreateBloom C rs = LogsBloom C (concat (map rc_Logs rs))"
  by (simp add: CreateBloom_def LogsBloom_def fold_fold_concat)

section \<open>Properties of receipts\<close>

text \<open>
  C13: Bloom filters have no false negatives: the bloom of a list of receipts has 256 bytes and
  answers yes for the address and for every topic of every log of every receipt.
\<close>

theorem bloom_no_false_negatives:
  assumes "r \<in> set receipts" "l \<in> set (rc_Logs r)"
  shows "length (CreateBloom C receipts) = 256 \<and>
         BloomLookup C (CreateBloom C receipts) (be_bytes 20 (lg_Address l)) \<and>
         (\<forall>t \<in> set (lg_Topics l). BloomLookup C (CreateBloom C receipts) (be_bytes 32 t))"
proof -
  define items where "items = concat (map log_items (concat (map rc_Logs receipts)))"
  have create: "CreateBloom C receipts = fold (Bloom_add C) items empty_bloom"
    by (simp add: CreateBloom_LogsBloom LogsBloom_items items_def)
  have len: "length empty_bloom = BloomByteLength" by (simp add: empty_bloom_def)
  have "d \<in> set items" if "d \<in> set (log_items l)" for d using that assms by (auto simp: items_def)
  then have "Bloom_Test C (CreateBloom C receipts) d" if "d \<in> set (log_items l)" for d
    using that bloom_fold_items_self [OF len] create by simp
  then show ?thesis
    using len by (simp add: BloomLookup_def log_items_def create bloom_fold_items BloomByteLength_def)
qed

definition sample_log :: Log where
  "sample_log = empty_log\<lparr>lg_Address := 0xAB, lg_Topics := [5]\<rparr>"

definition sample_receipt :: Receipt where
  "sample_receipt = (NewReceipt [] False 21000)\<lparr>rc_Logs := [sample_log]\<rparr>"

theorem bloom_no_false_negatives_witness:
  "length (CreateBloom sample_crypto [sample_receipt]) = 256 \<and>
   BloomLookup sample_crypto (CreateBloom sample_crypto [sample_receipt]) (be_bytes 20 (lg_Address sample_log)) \<and>
   list_all (\<lambda>t. BloomLookup sample_crypto (CreateBloom sample_crypto [sample_receipt]) (be_bytes 32 t)) (lg_Topics sample_log)"
  using bloom_no_false_negatives [of sample_receipt "[sample_receipt]" sample_log sample_crypto]
  by (simp add: sample_receipt_def list_all_iff)

lemma derive_gas:
  "length rs = length txs \<Longrightarrow> rs \<noteq> [] \<Longrightarrow>
   sum_list (map rc_GasUsed (derive_loop C h number i li prev rs txs)) =
     rc_CumulativeGasUsed (last rs) - (case prev of None \<Rightarrow> 0 | Some p \<Rightarrow> p)"
proof (induction C h number i li prev rs txs rule: derive_loop.induct)
  case (1 C h number i li prev r rs tx txs)
  show ?case
  proof (cases "rs = []")
    case True
    then show ?thesis using "1.prems" by (simp add: Let_def split: option.splits)
  next
    case False
    then show ?thesis using 1 by (simp add: Let_def split: option.splits)
  qed
qed simp_all

lemma number_logs_index: "map lg_Index (number_logs n h t i li ls) = [li..<li + length ls]"
proof (induction n h t i li ls rule: number_logs.induct)
  case (2 n h t i li l ls)
  have "[li..<li + length (l # ls)] = li # [Suc li..<Suc li + length ls]"
    by (subst upt_conv_Cons) simp_all
  then show ?case using 2 by (simp del: upt_Suc)
qed simp

lemma derive_log_index:
  "length rs = length txs \<Longrightarrow>
   map lg_Index (concat (map rc_Logs (derive_loop C h number i li prev rs txs))) =
     [li..<li + length (concat (map rc_Logs rs))]"
proof (induction C h number i li prev rs txs rule: derive_loop.induct)
  case (1 C h number i li prev r rs tx txs)
  have "[li..<li + length (rc_Logs r) + k] = [li..<li + length (rc_Logs r)] @ [li + length (rc_Logs r)..<li + length (rc_Logs r) + k]" for k
    by (rule upt_add_eq_append) simp
  then show ?case using 1 by (simp add: Let_def number_logs_index add.assoc)
qed simp_all

lemma derive_nth:
  "length rs = length txs \<Longrightarrow> k < length rs \<Longrightarrow>
   rc_TxHash (derive_loop C h number i li prev rs txs ! k) = fst (tx_Hash C (txs ! k)) \<and>
   rc_TransactionIndex (derive_loop C h number i li prev rs txs ! k) = i + k"
proof (induction C h number i li prev rs txs arbitrary: k rule: derive_loop.induct)
  case (1 C h number i li prev r rs tx txs)
  then show ?case by (cases k) (simp_all add: Let_def)
qed simp_all

lemma length_derive_loop:
  "length rs = length txs \<Longrightarrow> length (derive_loop C h number i li prev rs txs) = length rs"
  by (induction C h number i li prev rs txs rule: derive_loop.induct) (simp_all add: Let_def)

text \<open>
  C14: \<open>DeriveFields\<close> splits the cumulative gas: the gas used by the receipts of a block adds up, in
  64-bit arithmetic, to the cumulative gas of the last one; the logs are numbered consecutively
  through the block, and receipt \<open>k\<close> gets the hash and the index of transaction \<open>k\<close>.
\<close>

theorem DeriveFields_correct:
  assumes "length txs = length rs" "rs \<noteq> []"
  shows "\<exists>rs'. DeriveFields C h number txs rs = Some rs' \<and> length rs' = length rs \<and>
           sum_list (map rc_GasUsed rs') = rc_CumulativeGasUsed (last rs) \<and>
           map lg_Index (concat (map rc_Logs rs')) = [0..<length (concat (map rc_Logs rs))] \<and>
           (\<forall>k < length rs. rc_TxHash (rs' ! k) = fst (tx_Hash C (txs ! k)) \<and> rc_TransactionIndex (rs' ! k) = k)"
  using assms derive_gas [of rs txs C h number 0 0 None] derive_log_index [of rs txs C h number 0 0 None]
    derive_nth [of rs txs _ C h number 0 0 None] length_derive_loop [of rs txs C h number 0 0 None]
  by (simp add: DeriveFields_def)

theorem DeriveFields_correct_witness:
  "\<exists>rs'. DeriveFields sample_crypto 7 9 [sample_tx, sample_tx]
       [sample_receipt, sample_receipt\<lparr>rc_CumulativeGasUsed := 50000\<rparr>] = Some rs' \<and>
     sum_list (map rc_GasUsed rs') = 50000 \<and> map lg_Index (concat (map rc_Logs rs')) = [0, 1]"
  using DeriveFields_correct [of "[sample_tx, sample_tx]"
      "[sample_receipt, sample_receipt\<lparr>rc_CumulativeGasUsed := 50000\<rparr>]" sample_crypto 7 9]
  by (fastforce simp: sample_receipt_def upt_rec)

text \<open>
  Storing a receipt and reading it back, through the current storage format, gives the consensus
  fields again, for a receipt whose bloom is the one of its logs and whose post state, when present,
  has the length of a hash.
\<close>

theorem receipt_storage_roundtrip:
  assumes "co_stored K blob = Some (ReceiptForStorage_EncodeRLP r)"
    and "rc_PostState r = [] \<or> length (rc_PostState r) = 32"
    and "rc_Status r = 0 \<or> rc_Status r = 1"
    and "rc_Bloom r = CreateBloom C [r]"
    and "rc_PostState r0 = []" "rc_Status r0 = 0"
  shows "\<exists>r'. ReceiptForStorage_DecodeRLP C K blob r0 = Some r' \<and>
           rc_PostState r' = rc_PostState r \<and> (rc_PostState r = [] \<longrightarrow> rc_Status r' = rc_Status r) \<and>
           rc_CumulativeGasUsed r' = rc_CumulativeGasUsed r \<and> rc_Logs r' = rc_Logs r \<and> rc_Bloom r' = rc_Bloom r"
proof -
  have "\<exists>r1. setStatus (statusEncoding r) r0 = Some r1 \<and> rc_PostState r1 = rc_PostState r \<and>
      (rc_PostState r = [] \<longrightarrow> rc_Status r1 = rc_Status r)"
    using assms(2,3,5,6)
    by (auto simp: setStatus_def statusEncoding_def receiptStatusSuccessfulRLP_def receiptStatusFailedRLP_def
        ReceiptStatusSuccessful_def ReceiptStatusFailed_def)
  then show ?thesis
    using assms(1,4)
    by (auto simp: ReceiptForStorage_DecodeRLP_def decodeStoredReceiptRLP_def ReceiptForStorage_EncodeRLP_def
        CreateBloom_def Let_def)
qed

theorem receipt_storage_roundtrip_witness:
  "\<exists>r'. ReceiptForStorage_DecodeRLP sample_crypto
       \<lparr>co_stored = (\<lambda>_. Some (ReceiptForStorage_EncodeRLP (sample_receipt\<lparr>rc_Bloom := CreateBloom sample_crypto [sample_receipt]\<rparr>))),
        co_v4 = (\<lambda>_. None), co_v3 = (\<lambda>_. None)\<rparr> [] (NewReceipt [] True 0) = Some r' \<and>
     rc_Logs r' = [sample_log] \<and> rc_Status r' = 1"
  using receipt_storage_roundtrip [of "\<lparr>co_stored = (\<lambda>_. Some (ReceiptForStorage_EncodeRLP (sample_receipt\<lparr>rc_Bloom := CreateBloom sample_crypto [sample_receipt]\<rparr>))),
        co_v4 = (\<lambda>_. None), co_v3 = (\<lambda>_. None)\<rparr>" "[]"
      "sample_receipt\<lparr>rc_Bloom := CreateBloom sample_crypto [sample_receipt]\<rparr>" sample_crypto "NewReceipt [] True 0"]
  by (auto simp: sample_receipt_def NewReceipt_def CreateBloom_def ReceiptStatusSuccessful_def ReceiptStatusFailed_def)

end
