(* ===== verification/Block_Types.thy ===== *)
theory Block_Types
  imports Tx_Types "HOL-Library.List_Lexorder"
begin

text \<open>
  Headers, blocks and the transaction root: \<open>core/types/header.go\<close>, \<open>core/types/block.go\<close> and
  \<open>core/types/derive_sha.go\<close>. Pointers to headers are values, so the defensive copies of the code are
  the identity. The trie hasher that \<open>DeriveSha\<close> drives is a parameter: the hash of the sequence of
  key-value pairs it is updated with after a reset.
\<close>

section \<open>Headers and blocks\<close>

record Header =
  hd_ParentHash :: hash
  hd_Root :: hash
  hd_TxHash :: hash
  hd_Number :: int
  hd_GasLimit :: u64
  hd_GasUsed :: u64
  hd_Time :: int
  hd_ShardID :: u64
  hd_LastCommitSignature :: bytes
  hd_LastCommitBitmap :: bytes

record Block =
  bk_header :: Header
  bk_transactions :: "Transaction list"
  bk_hash :: "hash option"
  bk_size :: "nat option"
  bk_commitSigAndBitmap :: bytes

definition EmptyRootHash :: hash where
  "EmptyRootHash = 0x56e81f171bcc55a6ff8345e692c0f86e5b48e01b996cadc001622fb5e363b421"

definition Header_rlp :: "Header \<Rightarrow> rlp" where
  "Header_rlp h =
     RList [RHash (hd_ParentHash h), RHash (hd_Root h), RHash (hd_TxHash h), RBig (hd_Number h),
            RUint (hd_GasLimit h), RUint (hd_GasUsed h), RBig (hd_Time h), RUint (hd_ShardID h),
            RBytes (hd_LastCommitSignature h), RBytes (hd_LastCommitBitmap h)]"

definition Header_Hash :: "crypto_lib \<Rightarrow> Header \<Rightarrow> hash" where
  "Header_Hash C h = rlpHash C (Header_rlp h)"

definition EmptyBody :: "Header \<Rightarrow> bool" where
  "EmptyBody h \<longleftrightarrow> hd_TxHash h = EmptyRootHash"

section \<open>DeriveSha\<close>

definition DeriveSha_order :: "nat \<Rightarrow> nat list" where
  "DeriveSha_order n = [1..<min n 0x80] @ (if 0 < n then [0] else []) @ [0x80..<n]"

definition DeriveSha ::
  "(u64 \<Rightarrow> bytes) \<Rightarrow> ((bytes \<times> bytes) list \<Rightarrow> hash) \<Rightarrow> (nat \<Rightarrow> bytes) \<Rightarrow> nat \<Rightarrow> hash" where
  "DeriveSha AppendUint64 trieHash GetRlp n =
     trieHash (map (\<lambda>i. (AppendUint64 (word_of_nat i), GetRlp i)) (DeriveSha_order n))"

section \<open>Blocks\<close>

definition fresh_block :: "Header \<Rightarrow> Transaction list \<Rightarrow> Block" where
  "fresh_block h txs =
     \<lparr>bk_header = h, bk_transactions = txs, bk_hash = None, bk_size = None, bk_commitSigAndBitmap = []\<rparr>"

definition NewBlock ::
  "crypto_lib \<Rightarrow> (u64 \<Rightarrow> bytes) \<Rightarrow> ((bytes \<times> bytes) list \<Rightarrow> hash) \<Rightarrow> Header \<Rightarrow> Transaction list \<Rightarrow> Block" where
  "NewBlock C AppendUint64 trieHash header txs =
     (if length txs = 0 then fresh_block (header\<lparr>hd_TxHash := EmptyRootHash\<rparr>) []
      else fresh_block
             (header\<lparr>hd_TxHash := DeriveSha AppendUint64 trieHash
                (\<lambda>i. cr_rlp C (txdata_rlp (tx_data (txs ! i)))) (length txs)\<rparr>) txs)"

definition NewBlockWithHeader :: "Header \<Rightarrow> Block" where
  "NewBlockWithHeader header = fresh_block header []"

definition Block_Transaction :: "(Transaction \<Rightarrow> hash) \<Rightarrow> Block \<Rightarrow> hash \<Rightarrow> Transaction option" where
  "Block_Transaction hashOf b h = find (\<lambda>tx. hashOf tx = h) (bk_transactions b)"

definition Block_NumberU64 :: "Block \<Rightarrow> u64" where
  "Block_NumberU64 b = big_Uint64 (hd_Number (bk_header b))"

definition Block_Number :: "Block \<Rightarrow> Block \<Rightarrow> bool" where
  "Block_Number b1 b2 \<longleftrightarrow> big_Cmp (hd_Number (bk_header b1)) (hd_Number (bk_header b2)) < 0"

definition Block_rlp :: "Block \<Rightarrow> rlp" where
  "Block_rlp b = RList [Header_rlp (bk_header b), RList (map (\<lambda>tx. txdata_rlp (tx_data tx)) (bk_transactions b))]"

definition Block_Size :: "crypto_lib \<Rightarrow> Block \<Rightarrow> nat \<times> Block" where
  "Block_Size C b =
     (case bk_size b of
        Some n \<Rightarrow> (n, b)
      | None \<Rightarrow> (let c = length (cr_rlp C (Block_rlp b)) in (c, b\<lparr>bk_size := Some c\<rparr>)))"

definition Block_Hash :: "crypto_lib \<Rightarrow> Block \<Rightarrow> hash \<times> Block" where
  "Block_Hash C b =
     (case bk_hash b of
        Some h \<Rightarrow> (h, b)
      | None \<Rightarrow> (let v = Header_Hash C (bk_header b) in (v, b\<lparr>bk_hash := Some v\<rparr>)))"

definition WithSeal :: "Header \<Rightarrow> Block \<Rightarrow> Block" where
  "WithSeal header b = fresh_block header (bk_transactions b)"

definition WithBody :: "Transaction list \<Rightarrow> Block \<Rightarrow> Block" where
  "WithBody txs b = fresh_block (bk_header b) txs"

definition SetCurrentCommitSig :: "bytes \<Rightarrow> Block \<Rightarrow> Block" where
  "SetCurrentCommitSig sigAndBitmap b = b\<lparr>bk_commitSigAndBitmap := sigAndBitmap\<rparr>"

definition GetCurrentCommitSig :: "Block \<Rightarrow> bytes" where
  "GetCurrentCommitSig b = bk_commitSigAndBitmap b"

text \<open>
  The hash of a block as other components use it: \<open>block_hash_ok\<close> holds of every block the
  constructors build, and then the cached hash is the hash of the header.
\<close>

definition block_hash_ok :: "crypto_lib \<Rightarrow> Block \<Rightarrow> bool" where
  "block_hash_ok C b = (case bk_hash b of None \<Rightarrow> True | Some h \<Rightarrow> h = Header_Hash C (bk_header b))"

lemma block_hash_ok_simps [simp]:
  "block_hash_ok C (fresh_block h txs)" "block_hash_ok C (NewBlock C e t h txs)"
  "block_hash_ok C (NewBlockWithHeader h)" "block_hash_ok C (WithSeal h b)" "block_hash_ok C (WithBody txs b)"
  by (simp_all add: block_hash_ok_def fresh_block_def NewBlock_def NewBlockWithHeader_def WithSeal_def WithBody_def)

lemma block_hash_ok_keep [simp]:
  "block_hash_ok C b \<Longrightarrow> block_hash_ok C (SetCurrentCommitSig s b)"
  "block_hash_ok C b \<Longrightarrow> block_hash_ok C (snd (Block_Hash C b))"
  "block_hash_ok C b \<Longrightarrow> block_hash_ok C (snd (Block_Size C b))"
  by (auto simp: block_hash_ok_def SetCurrentCommitSig_def Block_Hash_def Block_Size_def Let_def split: option.splits)

lemma Block_Hash_ok: "block_hash_ok C b \<Longrightarrow> fst (Block_Hash C b) = Header_Hash C (bk_header b)"
  by (auto simp: block_hash_ok_def Block_Hash_def Let_def split: option.splits)

section \<open>The key order of DeriveSha\<close>

text \<open>
  The RLP encoding of an unsigned integer: zero is the empty string \<open>0x80\<close>, a value below \<open>0x80\<close> is
  its own byte, and a larger one its minimal big-endian bytes after \<open>0x80\<close> plus their number.
\<close>

definition rlp_uint :: "nat \<Rightarrow> bytes" where
  "rlp_uint n =
     (if n = 0 then [0x80] else if n < 0x80 then [word_of_nat n]
      else word_of_nat (0x80 + length (nat_bytes n)) # nat_bytes n)"

lemma set_DeriveSha_order: "set (DeriveSha_order n) = {..<n}"
  by (auto simp: DeriveSha_order_def)

lemma distinct_DeriveSha_order: "distinct (DeriveSha_order n)"
  by (auto simp: DeriveSha_order_def)

lemma list_less_append:
  "length xs = length ys \<Longrightarrow> xs < ys \<Longrightarrow> xs @ us < ys @ (vs :: 'a::linorder list)"
proof (induction xs ys rule: list_induct2)
  case (Cons x xs y ys)
  then show ?case by auto
qed simp

lemma list_less_same_prefix: "xs @ us < xs @ vs \<longleftrightarrow> us < (vs :: 'a::linorder list)"
  by (induction xs) simp_all

lemma length_nat_bytes_mono: "m \<le> n \<Longrightarrow> length (nat_bytes m) \<le> length (nat_bytes n)"
proof (induction m arbitrary: n rule: nat_bytes.induct)
  case (1 m)
  show ?case
  proof (cases "m = 0")
    case True
    then show ?thesis by (simp add: nat_bytes.simps)
  next
    case False
    then have "length (nat_bytes (m div 256)) \<le> length (nat_bytes (n div 256))"
      using 1 by (simp add: div_le_mono)
    moreover have "n \<noteq> 0" using False "1.prems" by simp
    ultimately show ?thesis using False nat_bytes.simps [of m] nat_bytes.simps [of n] by simp
  qed
qed

lemma nat_bytes_less:
  "m < n \<Longrightarrow> length (nat_bytes m) = length (nat_bytes n) \<Longrightarrow> nat_bytes m < nat_bytes n"
proof (induction m arbitrary: n rule: nat_bytes.induct)
  case (1 m)
  have n: "nat_bytes n = nat_bytes (n div 256) @ [word_of_nat n]" using "1.prems"(1) by (simp add: nat_bytes.simps)
  then have m0: "m \<noteq> 0" using "1.prems"(2) nat_bytes.simps [of 0] by (intro notI) simp
  then have m: "nat_bytes m = nat_bytes (m div 256) @ [word_of_nat m]" by (simp add: nat_bytes.simps)
  have len: "length (nat_bytes (m div 256)) = length (nat_bytes (n div 256))" using "1.prems"(2) m n by simp
  show ?case
  proof (cases "m div 256 = n div 256")
    case True
    then have "m mod 256 < n mod 256" using "1.prems"(1) by (metis div_mult_mod_eq add_less_cancel_left)
    then have "(word_of_nat m :: u8) < word_of_nat n" by (simp add: word_less_nat_alt unat_of_nat)
    then show ?thesis unfolding m n True by (simp add: list_less_same_prefix)
  next
    case False
    then have "m div 256 < n div 256" using "1.prems"(1) by (simp add: div_le_mono le_neq_implies_less)
    then have "nat_bytes (m div 256) < nat_bytes (n div 256)" using 1 m0 len by blast
    then show ?thesis unfolding m n using len by (rule list_less_append [rotated])
  qed
qed

lemma length_nat_bytes_le: "n < 256 ^ k \<Longrightarrow> length (nat_bytes n) \<le> k"
proof (induction k arbitrary: n)
  case 0
  then show ?case by (simp add: nat_bytes.simps)
next
  case (Suc k)
  then have "length (nat_bytes (n div 256)) \<le> k" by (intro Suc.IH) auto
  then show ?case using nat_bytes.simps [of n] by simp
qed

lemma rlp_uint_less:
  assumes "0x80 \<le> m" "m < n" "n < 2 ^ 64"
  shows "rlp_uint m < rlp_uint n"
proof -
  have le: "length (nat_bytes m) \<le> length (nat_bytes n)" using assms by (simp add: length_nat_bytes_mono)
  have "length (nat_bytes n) \<le> 8" using length_nat_bytes_le [of n 8] assms by simp
  then have "(word_of_nat (0x80 + length (nat_bytes m)) :: u8) < word_of_nat (0x80 + length (nat_bytes n))
      \<longleftrightarrow> length (nat_bytes m) < length (nat_bytes n)"
    using le by (simp only: word_less_nat_alt unat_of_nat) simp
  then show ?thesis
    using assms le nat_bytes_less [of m n]
    by (cases "length (nat_bytes m) = length (nat_bytes n)") (simp_all add: rlp_uint_def)
qed

lemma rlp_uint_small:
  "0 < m \<Longrightarrow> m < n \<Longrightarrow> n < 0x80 \<Longrightarrow> rlp_uint m < rlp_uint n"
  "0 < m \<Longrightarrow> m < 0x80 \<Longrightarrow> rlp_uint m < rlp_uint 0"
  by (simp_all add: rlp_uint_def word_less_nat_alt unat_of_nat)

lemma rlp_uint_zero:
  assumes "0x80 \<le> n" "n < 2 ^ 64"
  shows "rlp_uint 0 < rlp_uint n"
proof -
  have "nat_bytes n \<noteq> []" using assms nat_bytes.simps [of n] by simp
  moreover have "length (nat_bytes n) \<le> 8" using length_nat_bytes_le [of n 8] assms by simp
  ultimately have "(0x80 :: u8) < word_of_nat (0x80 + length (nat_bytes n))"
    by (simp only: word_less_nat_alt unat_of_nat) (cases "nat_bytes n"; simp)
  then show ?thesis using assms by (simp add: rlp_uint_def)
qed

lemma DeriveSha_order_sorted:
  assumes "n \<le> 2 ^ 64"
  shows "sorted_wrt (\<lambda>i j. rlp_uint i < rlp_uint j) (DeriveSha_order n)"
proof -
  have low: "sorted_wrt (\<lambda>i j. rlp_uint i < rlp_uint j) [1..<min n 0x80]"
    by (rule sorted_wrt_mono_rel [OF _ sorted_wrt_upt]) (auto intro: rlp_uint_small)
  have high: "sorted_wrt (\<lambda>i j. rlp_uint i < rlp_uint j) [0x80..<n]"
    using assms by (intro sorted_wrt_mono_rel [OF _ sorted_wrt_upt]) (auto intro: rlp_uint_less)
  have "rlp_uint i < rlp_uint j" if "i \<in> set [1..<min n 0x80]" "j \<in> set [0x80..<n]" for i j
    using that assms by (intro less_trans [OF rlp_uint_small(2) rlp_uint_zero]) auto
  then show ?thesis
    using low high assms
    by (auto simp: DeriveSha_order_def sorted_wrt_append intro: rlp_uint_small rlp_uint_zero)
qed

section \<open>Properties of blocks\<close>

text \<open>
  C15: \<open>DeriveSha\<close> feeds every element of the list to the hasher exactly once, and in strictly
  increasing order of the RLP keys, which the stack trie requires; for lists of up to \<open>2^64\<close>
  elements and an integer encoder that follows RLP.
\<close>

theorem DeriveSha_increasing:
  assumes "\<forall>i. AppendUint64 i = rlp_uint (unat i)" "n \<le> 2 ^ 64"
  shows "\<exists>updates. DeriveSha AppendUint64 trieHash GetRlp n = trieHash updates \<and>
           sorted_wrt (<) (map fst updates) \<and> distinct (map fst updates) \<and>
           mset updates = mset (map (\<lambda>i. (rlp_uint i, GetRlp i)) [0..<n])"
proof (intro exI conjI)
  let ?ups = "map (\<lambda>i. (rlp_uint i, GetRlp i)) (DeriveSha_order n)"
  have "AppendUint64 (word_of_nat i) = rlp_uint i" if "i < n" for i
    using assms that by (simp add: unat_of_nat)
  then have "map (\<lambda>i. (AppendUint64 (word_of_nat i), GetRlp i)) (DeriveSha_order n) = ?ups"
    by (intro map_cong) (auto simp: set_DeriveSha_order)
  then show "DeriveSha AppendUint64 trieHash GetRlp n = trieHash ?ups" by (simp only: DeriveSha_def)
  show sorted: "sorted_wrt (<) (map fst ?ups)"
    using DeriveSha_order_sorted [OF assms(2)] by (simp add: comp_def sorted_wrt_map)
  then show "distinct (map fst ?ups)" by (simp add: strict_sorted_iff del: map_map)
  have "mset (DeriveSha_order n) = mset [0..<n]"
    using set_DeriveSha_order distinct_DeriveSha_order
    by (subst set_eq_iff_mset_eq_distinct [symmetric]) (auto simp: lessThan_def)
  then show "mset ?ups = mset (map (\<lambda>i. (rlp_uint i, GetRlp i)) [0..<n])" by simp
qed

theorem DeriveSha_increasing_witness:
  "\<exists>updates. DeriveSha (\<lambda>i. rlp_uint (unat i)) (\<lambda>us. word_of_nat (length us)) (\<lambda>i. [word_of_nat i]) 200 =
       word_of_nat (length updates) \<and>
     sorted_wrt (<) (map fst updates) \<and> distinct (map fst updates) \<and>
     mset updates = mset (map (\<lambda>i. (rlp_uint i, [word_of_nat i :: u8])) [0..<200])"
  by (rule DeriveSha_increasing [where trieHash = "\<lambda>us. word_of_nat (length us)" and GetRlp = "\<lambda>i. [word_of_nat i]"])
     simp_all

end
