(* ===== verification/FBFT_Log.thy ===== *)
theory FBFT_Log
  imports Quorum Block_Types
begin

text \<open>
  The log of consensus messages and blocks: \<open>consensus/fbft_log.go\<close>, with the modes and phases of
  \<open>consensus/enums.go\<close>. Message types are the numbers of \<open>api/proto/message/message.proto\<close>. The maps of the log are
  association lists; a hash of a block is \<open>Block_Hash\<close>. Decoding a BLS key and reading signers off a
  bitmap belong to the BLS library and are the fields of \<open>parse_lib\<close>.
\<close>

section \<open>Modes, phases and message types\<close>

datatype Mode = Normal | ViewChanging | Syncing | Listening | UnknownMode u8

datatype FBFTPhase = FBFTAnnounce | FBFTPrepare | FBFTCommit | UnknownFBFTPhase u8

definition Mode_String :: "Mode \<Rightarrow> string" where
  "Mode_String m =
     (case m of
        Normal \<Rightarrow> ''Normal''
      | ViewChanging \<Rightarrow> ''Mode 1''
      | Syncing \<Rightarrow> ''Syncing''
      | Listening \<Rightarrow> ''Listening''
      | UnknownMode b \<Rightarrow> ''Mode '' @ decimal (unat b))"

definition FBFTPhase_String :: "FBFTPhase \<Rightarrow> string" where
  "FBFTPhase_String p =
     (case p of
        FBFTAnnounce \<Rightarrow> ''Announce''
      | FBFTPrepare \<Rightarrow> ''Prepare''
      | FBFTCommit \<Rightarrow> ''Commit''
      | UnknownFBFTPhase b \<Rightarrow> ''FBFTPhase '' @ decimal (unat b))"

type_synonym MessageType = u32

definition ANNOUNCE :: MessageType where "ANNOUNCE = 0"
definition PREPARE :: MessageType where "PREPARE = 1"
definition PREPARED :: MessageType where "PREPARED = 2"
definition COMMIT :: MessageType where "COMMIT = 3"
definition COMMITTED :: MessageType where "COMMITTED = 4"

lemmas message_types = ANNOUNCE_def PREPARE_def PREPARED_def COMMIT_def COMMITTED_def

section \<open>Messages\<close>

record FBFTMessage =
  fm_MessageType :: MessageType
  fm_ViewID :: u64
  fm_BlockNum :: u64
  fm_BlockHash :: hash
  fm_Block :: bytes
  fm_SenderPubkeys :: "PublicKeyWrapper list"
  fm_SenderPubkeyBitmap :: bytes
  fm_LeaderPubkey :: "PublicKeyWrapper option"
  fm_Payload :: bytes
  fm_ViewchangeSig :: "bls_sign option"
  fm_ViewidSig :: "bls_sign option"
  fm_M2AggSig :: "bls_sign option"
  fm_M2Bitmap :: "bytes option"
  fm_M3AggSig :: "bls_sign option"
  fm_M3Bitmap :: "bytes option"
  fm_Verified :: bool

definition empty_message :: FBFTMessage where
  "empty_message =
     \<lparr>fm_MessageType = 0, fm_ViewID = 0, fm_BlockNum = 0, fm_BlockHash = 0, fm_Block = [],
      fm_SenderPubkeys = [], fm_SenderPubkeyBitmap = [], fm_LeaderPubkey = None, fm_Payload = [],
      fm_ViewchangeSig = None, fm_ViewidSig = None, fm_M2AggSig = None, fm_M2Bitmap = None,
      fm_M3AggSig = None, fm_M3Bitmap = None, fm_Verified = False\<rparr>"

definition FBFTMessage_String :: "bls_lib \<Rightarrow> (MessageType \<Rightarrow> string) \<Rightarrow> (hash \<Rightarrow> string) \<Rightarrow> FBFTMessage \<Rightarrow> string" where
  "FBFTMessage_String L typeName hashHex m =
     (let sender = fold (\<lambda>key acc. if acc = '''' then bl_KeyHex L (pk_Bytes key)
                                   else acc @ '';'' @ bl_KeyHex L (pk_Bytes key)) (fm_SenderPubkeys m) '''';
          leader = (case fm_LeaderPubkey m of None \<Rightarrow> '''' | Some k \<Rightarrow> bl_KeyHex L (pk_Bytes k))
      in ''[Type:'' @ typeName (fm_MessageType m) @ '' ViewID:'' @ decimal (unat (fm_ViewID m)) @
         '' Num:'' @ decimal (unat (fm_BlockNum m)) @ '' BlockHash:'' @ hashHex (fm_BlockHash m) @
         '' Sender:'' @ sender @ '' Leader:'' @ leader @ '']'')"

definition HasSingleSender :: "FBFTMessage \<Rightarrow> bool" where
  "HasSingleSender m \<longleftrightarrow> length (fm_SenderPubkeys m) = 1"

text \<open>\<open>copy\<close> into a zeroed array of \<open>n\<close> bytes.\<close>

definition copy_to :: "nat \<Rightarrow> bytes \<Rightarrow> bytes" where
  "copy_to n bs = take n (bs @ replicate n 0)"

type_synonym fbftMsgID = bytes

definition msg_id :: "FBFTMessage \<Rightarrow> fbftMsgID" where
  "msg_id m =
     le_bytes 4 (fm_MessageType m) @ le_bytes 8 (fm_ViewID m) @ be_bytes 32 (fm_BlockHash m) @
     (if HasSingleSender m then be_bytes 48 (pk_Bytes (fm_SenderPubkeys m ! 0))
      else copy_to 48 (fm_SenderPubkeyBitmap m))"

section \<open>The log\<close>

record FBFTLog =
  fl_blocks :: "(hash, Block) gomap"
  fl_verifiedBlocks :: "(hash, unit) gomap"
  fl_messages :: "(fbftMsgID, FBFTMessage) gomap"

definition NewFBFTLog :: FBFTLog where
  "NewFBFTLog = \<lparr>fl_blocks = [], fl_verifiedBlocks = [], fl_messages = []\<rparr>"

definition AddBlock :: "crypto_lib \<Rightarrow> Block \<Rightarrow> FBFTLog \<Rightarrow> FBFTLog" where
  "AddBlock C block log = (let (h, block) = Block_Hash C block in log\<lparr>fl_blocks := mput h block (fl_blocks log)\<rparr>)"

definition MarkBlockVerified :: "crypto_lib \<Rightarrow> Block \<Rightarrow> FBFTLog \<Rightarrow> FBFTLog" where
  "MarkBlockVerified C block log =
     log\<lparr>fl_verifiedBlocks := mput (fst (Block_Hash C block)) () (fl_verifiedBlocks log)\<rparr>"

definition IsBlockVerified :: "crypto_lib \<Rightarrow> Block \<Rightarrow> FBFTLog \<Rightarrow> bool" where
  "IsBlockVerified C block log \<longleftrightarrow> mget (fl_verifiedBlocks log) (fst (Block_Hash C block)) \<noteq> None"

definition GetBlockByHash :: "hash \<Rightarrow> FBFTLog \<Rightarrow> Block option" where
  "GetBlockByHash h log = mget (fl_blocks log) h"

definition GetBlocksByNumber :: "u64 \<Rightarrow> FBFTLog \<Rightarrow> Block list" where
  "GetBlocksByNumber number log =
     filter (\<lambda>block. Block_NumberU64 block = number) (map snd (fl_blocks log))"

fun delete_blocks :: "(Block \<Rightarrow> bool) \<Rightarrow> (hash, Block) gomap \<Rightarrow> FBFTLog \<Rightarrow> FBFTLog" where
  "delete_blocks P [] log = log"
| "delete_blocks P ((h, block) # rest) log =
     delete_blocks P rest
       (if P block
        then log\<lparr>fl_blocks := mdel h (fl_blocks log), fl_verifiedBlocks := mdel h (fl_verifiedBlocks log)\<rparr>
        else log)"

definition DeleteBlocksLessThan :: "u64 \<Rightarrow> FBFTLog \<Rightarrow> FBFTLog" where
  "DeleteBlocksLessThan number log =
     delete_blocks (\<lambda>block. Block_NumberU64 block < number) (fl_blocks log) log"

definition DeleteBlockByNumber :: "u64 \<Rightarrow> FBFTLog \<Rightarrow> FBFTLog" where
  "DeleteBlockByNumber number log =
     delete_blocks (\<lambda>block. Block_NumberU64 block = number) (fl_blocks log) log"

definition DeleteMessagesLessThan :: "u64 \<Rightarrow> FBFTLog \<Rightarrow> FBFTLog" where
  "DeleteMessagesLessThan number log =
     log\<lparr>fl_messages := filter (\<lambda>(h, msg). \<not> fm_BlockNum msg < number) (fl_messages log)\<rparr>"

definition AddVerifiedMessage :: "FBFTMessage \<Rightarrow> FBFTLog \<Rightarrow> FBFTLog" where
  "AddVerifiedMessage msg log =
     (let msg = msg\<lparr>fm_Verified := True\<rparr> in log\<lparr>fl_messages := mput (msg_id msg) msg (fl_messages log)\<rparr>)"

definition AddNotVerifiedMessage :: "FBFTMessage \<Rightarrow> FBFTLog \<Rightarrow> FBFTLog" where
  "AddNotVerifiedMessage msg log =
     (let msg = msg\<lparr>fm_Verified := False\<rparr> in log\<lparr>fl_messages := mput (msg_id msg) msg (fl_messages log)\<rparr>)"

definition log_msgs :: "FBFTLog \<Rightarrow> FBFTMessage list" where
  "log_msgs log = map snd (fl_messages log)"

definition GetNotVerifiedCommittedMessages :: "u64 \<Rightarrow> u64 \<Rightarrow> hash \<Rightarrow> FBFTLog \<Rightarrow> FBFTMessage list" where
  "GetNotVerifiedCommittedMessages blockNum viewID blockHash log =
     filter (\<lambda>msg. fm_MessageType msg = COMMITTED \<and> fm_BlockNum msg = blockNum \<and> fm_ViewID msg = viewID \<and>
                   fm_BlockHash msg = blockHash \<and> \<not> fm_Verified msg) (log_msgs log)"

definition GetMessagesByTypeSeqViewHash :: "MessageType \<Rightarrow> u64 \<Rightarrow> u64 \<Rightarrow> hash \<Rightarrow> FBFTLog \<Rightarrow> FBFTMessage list" where
  "GetMessagesByTypeSeqViewHash typ blockNum viewID blockHash log =
     filter (\<lambda>msg. fm_MessageType msg = typ \<and> fm_BlockNum msg = blockNum \<and> fm_ViewID msg = viewID \<and>
                   fm_BlockHash msg = blockHash \<and> fm_Verified msg) (log_msgs log)"

definition GetMessagesByTypeSeq :: "MessageType \<Rightarrow> u64 \<Rightarrow> FBFTLog \<Rightarrow> FBFTMessage list" where
  "GetMessagesByTypeSeq typ blockNum log =
     filter (\<lambda>msg. fm_MessageType msg = typ \<and> fm_BlockNum msg = blockNum \<and> fm_Verified msg) (log_msgs log)"

definition GetMessagesByTypeSeqHash :: "MessageType \<Rightarrow> u64 \<Rightarrow> hash \<Rightarrow> FBFTLog \<Rightarrow> FBFTMessage list" where
  "GetMessagesByTypeSeqHash typ blockNum blockHash log =
     filter (\<lambda>msg. fm_MessageType msg = typ \<and> fm_BlockNum msg = blockNum \<and> fm_BlockHash msg = blockHash \<and>
                   fm_Verified msg) (log_msgs log)"

definition HasMatchingAnnounce :: "u64 \<Rightarrow> hash \<Rightarrow> FBFTLog \<Rightarrow> bool" where
  "HasMatchingAnnounce blockNum blockHash log \<longleftrightarrow>
     1 \<le> length (GetMessagesByTypeSeqHash ANNOUNCE blockNum blockHash log)"

definition HasMatchingViewAnnounce :: "u64 \<Rightarrow> u64 \<Rightarrow> hash \<Rightarrow> FBFTLog \<Rightarrow> bool" where
  "HasMatchingViewAnnounce blockNum viewID blockHash log \<longleftrightarrow>
     1 \<le> length (GetMessagesByTypeSeqViewHash ANNOUNCE blockNum viewID blockHash log)"

definition HasMatchingPrepared :: "u64 \<Rightarrow> hash \<Rightarrow> FBFTLog \<Rightarrow> bool" where
  "HasMatchingPrepared blockNum blockHash log \<longleftrightarrow>
     1 \<le> length (GetMessagesByTypeSeqHash PREPARED blockNum blockHash log)"

definition HasMatchingViewPrepared :: "u64 \<Rightarrow> u64 \<Rightarrow> hash \<Rightarrow> FBFTLog \<Rightarrow> bool" where
  "HasMatchingViewPrepared blockNum viewID blockHash log \<longleftrightarrow>
     1 \<le> length (GetMessagesByTypeSeqViewHash PREPARED blockNum viewID blockHash log)"

definition GetMessagesByTypeSeqView :: "MessageType \<Rightarrow> u64 \<Rightarrow> u64 \<Rightarrow> FBFTLog \<Rightarrow> FBFTMessage list" where
  "GetMessagesByTypeSeqView typ blockNum viewID log =
     filter (\<lambda>msg. \<not> (fm_MessageType msg \<noteq> typ \<or> fm_BlockNum msg \<noteq> blockNum \<or>
                       (fm_ViewID msg \<noteq> viewID \<and> fm_Verified msg))) (log_msgs log)"

fun committed_loop :: "FBFTMessage list \<Rightarrow> FBFTLog \<Rightarrow> (Block \<times> FBFTMessage) option" where
  "committed_loop [] log = None"
| "committed_loop (msg # msgs) log =
     (case GetBlockByHash (fm_BlockHash msg) log of
        None \<Rightarrow> committed_loop msgs log
      | Some block \<Rightarrow> Some (block, msg))"

definition GetCommittedBlockAndMsgsFromNumber :: "u64 \<Rightarrow> FBFTLog \<Rightarrow> (Block \<times> FBFTMessage) option" where
  "GetCommittedBlockAndMsgsFromNumber bn log =
     (let msgs = GetMessagesByTypeSeq COMMITTED bn log
      in if length msgs = 0 then None else committed_loop msgs log)"

definition PruneCacheBeforeBlock :: "u64 \<Rightarrow> FBFTLog \<Rightarrow> FBFTLog" where
  "PruneCacheBeforeBlock bn log = DeleteMessagesLessThan (bn - 1) (DeleteBlocksLessThan (bn - 1) log)"

section \<open>Parsing\<close>

record ConsensusRequest =
  cq_ViewId :: u64
  cq_BlockNum :: u64
  cq_ShardId :: u64
  cq_BlockHash :: bytes
  cq_Block :: bytes
  cq_SenderPubkey :: bytes
  cq_Payload :: bytes
  cq_SenderPubkeyBitmap :: bytes

record Message =
  ms_ServiceType :: u32
  ms_Type :: MessageType
  ms_Signature :: bytes
  ms_Consensus :: "ConsensusRequest option"

record parse_lib =
  pl_BytesToBLSPublicKey :: "bytes \<Rightarrow> bls_public option"
  pl_GetSignedPubKeysFromBitmap :: "bytes \<Rightarrow> PublicKeyWrapper list option"

datatype parse_error = NilRequest | BadPublicKey | BadBitmap

definition ParseFBFTMessage :: "parse_lib \<Rightarrow> Message \<Rightarrow> parse_error + FBFTMessage" where
  "ParseFBFTMessage P msg =
     (case ms_Consensus msg of
        None \<Rightarrow> Inl NilRequest
      | Some cm \<Rightarrow>
          (let pbftMsg = empty_message
                 \<lparr>fm_MessageType := ms_Type msg, fm_ViewID := cq_ViewId cm, fm_BlockNum := cq_BlockNum cm,
                  fm_BlockHash := be_word (copy_to 32 (cq_BlockHash cm)), fm_Payload := cq_Payload cm,
                  fm_Block := cq_Block cm, fm_SenderPubkeyBitmap := cq_SenderPubkeyBitmap cm\<rparr>
           in if length (cq_SenderPubkey cm) \<noteq> 0
              then (case pl_BytesToBLSPublicKey P (cq_SenderPubkey cm) of
                      None \<Rightarrow> Inl BadPublicKey
                    | Some pubKey \<Rightarrow>
                        Inr (pbftMsg\<lparr>fm_SenderPubkeys :=
                          [\<lparr>pk_Bytes = be_word (copy_to 48 (cq_SenderPubkey cm)), pk_Object = pubKey\<rparr>]\<rparr>))
              else (case pl_GetSignedPubKeysFromBitmap P (fm_SenderPubkeyBitmap pbftMsg) of
                      None \<Rightarrow> Inl BadBitmap
                    | Some pubKeys \<Rightarrow> Inr (pbftMsg\<lparr>fm_SenderPubkeys := pubKeys\<rparr>))))"

section \<open>Invariant of the log\<close>

definition log_ok :: "crypto_lib \<Rightarrow> FBFTLog \<Rightarrow> bool" where
  "log_ok C log \<longleftrightarrow>
     keyed (\<lambda>b. fst (Block_Hash C b)) (fl_blocks log) \<and> gomap_ok (fl_verifiedBlocks log) \<and>
     keyed msg_id (fl_messages log)"

lemma log_ok_New [simp]: "log_ok C NewFBFTLog"
  by (simp add: log_ok_def NewFBFTLog_def)

lemma Block_Hash_again: "fst (Block_Hash C (snd (Block_Hash C b))) = fst (Block_Hash C b)"
  by (auto simp: Block_Hash_def Let_def split: option.splits)

lemma msg_id_Verified [simp]: "msg_id (m\<lparr>fm_Verified := v\<rparr>) = msg_id m"
  by (simp add: msg_id_def HasSingleSender_def)

lemma delete_blocks_fields [simp]: "fl_messages (delete_blocks P m log) = fl_messages log"
  by (induction P m log rule: delete_blocks.induct) auto

lemma delete_blocks_ok:
  "keyed key (fl_blocks log) \<Longrightarrow> keyed key (fl_blocks (delete_blocks P m log))"
  "gomap_ok (fl_verifiedBlocks log) \<Longrightarrow> gomap_ok (fl_verifiedBlocks (delete_blocks P m log))"
  by (induction P m log rule: delete_blocks.induct) (auto simp: keyed_mdel)

lemma delete_blocks_mget:
  "mget (fl_blocks (delete_blocks P m log)) h =
     (if \<exists>b. (h, b) \<in> set m \<and> P b then None else mget (fl_blocks log) h)"
  "mget (fl_verifiedBlocks (delete_blocks P m log)) h =
     (if \<exists>b. (h, b) \<in> set m \<and> P b then None else mget (fl_verifiedBlocks log) h)"
  by (induction P m log rule: delete_blocks.induct) (auto split: if_splits)

lemma delete_blocks_self:
  assumes "gomap_ok (fl_blocks log)"
  shows "mget (fl_blocks (delete_blocks P (fl_blocks log) log)) h =
      (case mget (fl_blocks log) h of None \<Rightarrow> None | Some b \<Rightarrow> if P b then None else Some b)"
  unfolding delete_blocks_mget(1) mget_Some_iff [OF assms, symmetric]
  by (cases "mget (fl_blocks log) h") auto

lemma log_ok_steps [simp]:
  assumes "log_ok C log"
  shows "log_ok C (AddBlock C b log)" "log_ok C (MarkBlockVerified C b log)"
    "log_ok C (DeleteBlocksLessThan n log)" "log_ok C (DeleteBlockByNumber n log)"
    "log_ok C (DeleteMessagesLessThan n log)"
    "log_ok C (AddVerifiedMessage m log)" "log_ok C (AddNotVerifiedMessage m log)"
  using assms
  by (auto simp: log_ok_def AddBlock_def MarkBlockVerified_def DeleteBlocksLessThan_def
      DeleteBlockByNumber_def DeleteMessagesLessThan_def AddVerifiedMessage_def AddNotVerifiedMessage_def
      Let_def delete_blocks_ok Block_Hash_again split: prod.splits
      intro!: keyed_mput keyed_filter) (metis Block_Hash_again fst_conv snd_conv)+

lemma log_ok_Prune [simp]: "log_ok C log \<Longrightarrow> log_ok C (PruneCacheBeforeBlock n log)"
  by (simp add: PruneCacheBeforeBlock_def)

inductive log_reach :: "crypto_lib \<Rightarrow> FBFTLog \<Rightarrow> bool" for C where
  new: "log_reach C NewFBFTLog"
| add_block: "log_reach C log \<Longrightarrow> log_reach C (AddBlock C b log)"
| mark: "log_reach C log \<Longrightarrow> log_reach C (MarkBlockVerified C b log)"
| del_number: "log_reach C log \<Longrightarrow> log_reach C (DeleteBlockByNumber n log)"
| prune: "log_reach C log \<Longrightarrow> log_reach C (PruneCacheBeforeBlock n log)"
| add_verified: "log_reach C log \<Longrightarrow> log_reach C (AddVerifiedMessage m log)"
| add_unverified: "log_reach C log \<Longrightarrow> log_reach C (AddNotVerifiedMessage m log)"

lemma log_reach_ok: "log_reach C log \<Longrightarrow> log_ok C log"
  by (induction rule: log_reach.induct) simp_all

lemma committed_loop_Some:
  "committed_loop msgs log = Some (b, m) \<Longrightarrow> m \<in> set msgs \<and> GetBlockByHash (fm_BlockHash m) log = Some b"
  by (induction msgs log rule: committed_loop.induct) (auto split: option.splits)

lemma committed_loop_None:
  "committed_loop msgs log = None \<longleftrightarrow> (\<forall>m \<in> set msgs. GetBlockByHash (fm_BlockHash m) log = None)"
  by (induction msgs log rule: committed_loop.induct) (auto split: option.splits)

lemma GetCommitted_loop:
  "GetCommittedBlockAndMsgsFromNumber bn log = committed_loop (GetMessagesByTypeSeq COMMITTED bn log) log"
  by (simp add: GetCommittedBlockAndMsgsFromNumber_def Let_def)

section \<open>Properties of the log\<close>

definition sample_header :: "int \<Rightarrow> Header" where
  "sample_header n = \<lparr>hd_ParentHash = 0, hd_Root = 0, hd_TxHash = EmptyRootHash, hd_Number = n, hd_GasLimit = 0,
     hd_GasUsed = 0, hd_Time = 0, hd_ShardID = 0, hd_LastCommitSignature = [], hd_LastCommitBitmap = []\<rparr>"

definition sample_block :: "int \<Rightarrow> hash \<Rightarrow> Block" where
  "sample_block n h = (fresh_block (sample_header n) [])\<lparr>bk_hash := Some h\<rparr>"

definition sample_message :: "MessageType \<Rightarrow> u64 \<Rightarrow> u64 \<Rightarrow> hash \<Rightarrow> FBFTMessage" where
  "sample_message t view n h = empty_message
     \<lparr>fm_MessageType := t, fm_ViewID := view, fm_BlockNum := n, fm_BlockHash := h,
      fm_SenderPubkeys := [sample_key 1]\<rparr>"

text \<open>
  The identifier of a message from a single sender determines its type, its view, its block hash
  and its sender: two such messages share an identifier only when they agree on all four.
\<close>

theorem msg_id_inject:
  assumes "HasSingleSender m" "HasSingleSender m'"
  shows "msg_id m = msg_id m' \<longleftrightarrow>
    fm_MessageType m = fm_MessageType m' \<and> fm_ViewID m = fm_ViewID m' \<and> fm_BlockHash m = fm_BlockHash m' \<and>
    pk_Bytes (fm_SenderPubkeys m ! 0) = pk_Bytes (fm_SenderPubkeys m' ! 0)"
  using assms by (simp add: msg_id_def)

theorem msg_id_inject_witness:
  "msg_id (sample_message PREPARE 1 5 7) \<noteq> msg_id (sample_message COMMIT 1 5 7)"
  by (subst msg_id_inject) (simp_all add: HasSingleSender_def sample_message_def message_types)

text \<open>
  C16: In every log the operations can build, blocks are stored under their own hash and messages
  under their own identifier.
\<close>

theorem log_invariant:
  assumes "log_reach C log"
  shows "log_ok C log"
  using assms by (rule log_reach_ok)

theorem log_invariant_witness:
  "log_ok sample_crypto (AddVerifiedMessage (sample_message COMMITTED 1 5 7) (AddBlock sample_crypto (sample_block 5 7) NewFBFTLog))"
  by (rule log_invariant) (intro log_reach.intros)

text \<open>
  C17: The committed block of a number is found exactly when the log holds a verified COMMITTED
  message for that number whose block is in the log; what is returned is such a message with the
  block of its hash.
\<close>

theorem GetCommitted_correct:
  assumes "log_ok C log"
  shows "(\<forall>b m. GetCommittedBlockAndMsgsFromNumber bn log = Some (b, m) \<longrightarrow>
            m \<in> set (log_msgs log) \<and> fm_MessageType m = COMMITTED \<and> fm_BlockNum m = bn \<and> fm_Verified m \<and>
            fst (Block_Hash C b) = fm_BlockHash m \<and> b \<in> snd ` set (fl_blocks log)) \<and>
         (GetCommittedBlockAndMsgsFromNumber bn log \<noteq> None \<longleftrightarrow>
            (\<exists>m \<in> set (log_msgs log). fm_MessageType m = COMMITTED \<and> fm_BlockNum m = bn \<and> fm_Verified m \<and>
               (\<exists>b \<in> snd ` set (fl_blocks log). fst (Block_Hash C b) = fm_BlockHash m)))"
proof -
  have blocks: "keyed (\<lambda>b. fst (Block_Hash C b)) (fl_blocks log)" using assms by (simp add: log_ok_def)
  have get: "GetBlockByHash h log = Some b \<longleftrightarrow> fst (Block_Hash C b) = h \<and> b \<in> snd ` set (fl_blocks log)" for h b
    using keyed_mget [OF blocks, of h b] keyed_mget_iff [OF blocks, of b] by (auto simp: GetBlockByHash_def)
  show ?thesis
    unfolding GetCommitted_loop
  proof (intro conjI allI impI)
    fix b m assume "committed_loop (GetMessagesByTypeSeq COMMITTED bn log) log = Some (b, m)"
    from committed_loop_Some [OF this]
    show "m \<in> set (log_msgs log)" "fm_MessageType m = COMMITTED" "fm_BlockNum m = bn" "fm_Verified m"
      "fst (Block_Hash C b) = fm_BlockHash m" "b \<in> snd ` set (fl_blocks log)"
      by (auto simp: GetMessagesByTypeSeq_def get)
  next
    have "GetBlockByHash h log \<noteq> None \<longleftrightarrow> (\<exists>b \<in> snd ` set (fl_blocks log). fst (Block_Hash C b) = h)" for h
      using get by blast
    then show "committed_loop (GetMessagesByTypeSeq COMMITTED bn log) log \<noteq> None \<longleftrightarrow>
        (\<exists>m \<in> set (log_msgs log). fm_MessageType m = COMMITTED \<and> fm_BlockNum m = bn \<and> fm_Verified m \<and>
           (\<exists>b \<in> snd ` set (fl_blocks log). fst (Block_Hash C b) = fm_BlockHash m))"
      by (auto simp: committed_loop_None GetMessagesByTypeSeq_def)
  qed
qed

definition sample_log_db :: FBFTLog where
  "sample_log_db = AddVerifiedMessage (sample_message COMMITTED 1 5 7) (AddBlock sample_crypto (sample_block 5 7) NewFBFTLog)"

theorem GetCommitted_correct_witness:
  "GetCommittedBlockAndMsgsFromNumber 5 sample_log_db \<noteq> None"
proof -
  have "log_ok sample_crypto sample_log_db" by (simp add: sample_log_db_def)
  moreover have "\<exists>m \<in> set (log_msgs sample_log_db). fm_MessageType m = COMMITTED \<and> fm_BlockNum m = 5 \<and> fm_Verified m \<and>
      (\<exists>b \<in> snd ` set (fl_blocks sample_log_db). fst (Block_Hash sample_crypto b) = fm_BlockHash m)"
    by (simp add: sample_log_db_def AddVerifiedMessage_def AddBlock_def NewFBFTLog_def log_msgs_def
        sample_message_def sample_block_def Block_Hash_def Let_def)
  ultimately show ?thesis using GetCommitted_correct [of sample_crypto sample_log_db 5] by blast
qed

text \<open>
  C22: Pruning before block \<open>bn\<close>, for \<open>bn\<close> at least one, keeps exactly the blocks and the messages
  numbered \<open>bn - 1\<close> or more. For block zero the bound wraps around and everything below the largest
  64-bit number is dropped.
\<close>

theorem PruneCacheBeforeBlock_keeps:
  assumes "log_ok C log"
  shows "(\<forall>h. GetBlockByHash h (PruneCacheBeforeBlock bn log) =
            (case GetBlockByHash h log of
               None \<Rightarrow> None
             | Some b \<Rightarrow> if Block_NumberU64 b < (if bn = 0 then 2 ^ 64 - 1 else bn - 1) then None else Some b)) \<and>
         set (log_msgs (PruneCacheBeforeBlock bn log)) =
            {m \<in> set (log_msgs log). (if bn = 0 then 2 ^ 64 - 1 else bn - 1) \<le> fm_BlockNum m}"
proof -
  have wrap: "(if bn = 0 then 2 ^ 64 - 1 else bn - 1) = bn - 1" by simp
  have "gomap_ok (fl_blocks log)" using assms by (auto simp: log_ok_def keyed_def)
  then have "GetBlockByHash h (PruneCacheBeforeBlock bn log) =
      (case GetBlockByHash h log of
         None \<Rightarrow> None
       | Some b \<Rightarrow> if Block_NumberU64 b < bn - 1 then None else Some b)" for h
    using delete_blocks_self
    by (simp add: GetBlockByHash_def PruneCacheBeforeBlock_def DeleteMessagesLessThan_def DeleteBlocksLessThan_def)
  moreover have "set (log_msgs (PruneCacheBeforeBlock bn log)) = {m \<in> set (log_msgs log). bn - 1 \<le> fm_BlockNum m}"
    by (auto simp: log_msgs_def PruneCacheBeforeBlock_def DeleteMessagesLessThan_def DeleteBlocksLessThan_def not_less image_iff)
  ultimately show ?thesis unfolding wrap by blast
qed

theorem PruneCacheBeforeBlock_keeps_witness:
  "GetBlockByHash 7 (PruneCacheBeforeBlock 0 sample_log_db) = None \<and>
   GetBlockByHash 7 (PruneCacheBeforeBlock 6 sample_log_db) \<noteq> None"
proof -
  have ok: "log_ok sample_crypto sample_log_db" by (simp add: sample_log_db_def)
  have "GetBlockByHash 7 sample_log_db = Some (sample_block 5 7)"
    by (simp add: sample_log_db_def AddVerifiedMessage_def AddBlock_def NewFBFTLog_def GetBlockByHash_def
        sample_block_def Block_Hash_def Let_def)
  moreover have "Block_NumberU64 (sample_block 5 7) = 5"
    by (simp add: Block_NumberU64_def sample_block_def fresh_block_def sample_header_def big_Uint64_def)
  ultimately show ?thesis
    using PruneCacheBeforeBlock_keeps [OF ok, of 0] PruneCacheBeforeBlock_keeps [OF ok, of 6] by simp
qed

text \<open>
  C26: \<open>GetMessagesByTypeSeqView\<close> filters by view only the verified messages: a message of another view
  that was never verified is returned.
\<close>

theorem GetMessagesByTypeSeqView_unverified:
  assumes "gomap_ok (fl_messages log)" "fm_ViewID m \<noteq> viewID"
  shows "m\<lparr>fm_Verified := False\<rparr> \<in>
    set (GetMessagesByTypeSeqView (fm_MessageType m) (fm_BlockNum m) viewID (AddNotVerifiedMessage m log))"
  using assms by (auto simp: GetMessagesByTypeSeqView_def AddNotVerifiedMessage_def log_msgs_def Let_def set_mput image_iff)

theorem GetMessagesByTypeSeqView_unverified_witness:
  "(sample_message COMMITTED 1 5 7)\<lparr>fm_Verified := False\<rparr> \<in>
    set (GetMessagesByTypeSeqView (fm_MessageType (sample_message COMMITTED 1 5 7))
      (fm_BlockNum (sample_message COMMITTED 1 5 7)) 2
      (AddNotVerifiedMessage (sample_message COMMITTED 1 5 7) NewFBFTLog))"
  by (rule GetMessagesByTypeSeqView_unverified) (simp_all add: NewFBFTLog_def sample_message_def)

end
