(* ===== verification/Message_Sender.thy ===== *)
theory Message_Sender
  imports FBFT_Log
begin

text \<open>
  Sending consensus messages with retries: \<open>consensus/consensus_msg_sender.go\<close>.

  A \<open>MessageRetry\<close> is shared between the sender's table and the goroutine that retries it, so the
  model keeps the retries in a store and the table maps a message type to an index of the store.
  The goroutine \<open>Retry\<close> is the field \<open>mr_running\<close> with \<open>retry_tick\<close>, one round of its loop after the
  sleep; the order of ticks and calls is arbitrary. \<open>snd_sent\<close> is the trace of messages handed to the
  p2p host.
\<close>

section \<open>State\<close>

definition RetryIntervalInSec :: int where "RetryIntervalInSec = 7"

definition phaseDurationSeconds :: int where "phaseDurationSeconds = 27"

record MessageRetry =
  mr_blockNum :: u64
  mr_groups :: "string list"
  mr_p2pMsg :: bytes
  mr_msgType :: MessageType
  mr_retryCount :: int
  mr_isActive :: u32
  mr_running :: bool

record MessageSender =
  snd_blockNum :: u64
  snd_messagesToRetry :: "(MessageType, nat) gomap"
  snd_retryTimes :: int
  snd_store :: "MessageRetry list"
  snd_sent :: "(string list \<times> bytes) list"

definition NewMessageSender :: MessageSender where
  "NewMessageSender =
     \<lparr>snd_blockNum = 0, snd_messagesToRetry = [], snd_retryTimes = phaseDurationSeconds div RetryIntervalInSec,
      snd_store = [], snd_sent = []\<rparr>"

section \<open>Operations\<close>

definition set_inactive :: "nat \<Rightarrow> MessageSender \<Rightarrow> MessageSender" where
  "set_inactive i s = s\<lparr>snd_store := (snd_store s)[i := (snd_store s ! i)\<lparr>mr_isActive := 0\<rparr>]\<rparr>"

definition SendMessageToGroups :: "string list \<Rightarrow> bytes \<Rightarrow> MessageSender \<Rightarrow> MessageSender" where
  "SendMessageToGroups groups p2pMsg s = s\<lparr>snd_sent := snd_sent s @ [(groups, p2pMsg)]\<rparr>"

definition StopRetry :: "MessageType \<Rightarrow> MessageSender \<Rightarrow> MessageSender" where
  "StopRetry msgType s =
     (case mget (snd_messagesToRetry s) msgType of None \<Rightarrow> s | Some i \<Rightarrow> set_inactive i s)"

definition StopAllRetriesExceptCommitted :: "MessageSender \<Rightarrow> MessageSender" where
  "StopAllRetriesExceptCommitted s =
     fold (\<lambda>(k, i) s. if mr_msgType (snd_store s ! i) \<noteq> COMMITTED then set_inactive i s else s)
       (snd_messagesToRetry s) s"

definition sender_Reset :: "u64 \<Rightarrow> MessageSender \<Rightarrow> MessageSender" where
  "sender_Reset blockNum s =
     (let s = StopAllRetriesExceptCommitted (s\<lparr>snd_blockNum := blockNum\<rparr>)
      in s\<lparr>snd_messagesToRetry :=
             filter (\<lambda>(k, i). \<not> mr_msgType (snd_store s ! i) \<noteq> COMMITTED) (snd_messagesToRetry s)\<rparr>)"

definition DelayedSendWithRetry ::
  "u64 \<Rightarrow> MessageType \<Rightarrow> string list \<Rightarrow> bytes \<Rightarrow> MessageSender \<Rightarrow> MessageSender" where
  "DelayedSendWithRetry blockNum msgType groups p2pMsg s =
     (if snd_retryTimes s \<noteq> 0
      then (let msgRetry = \<lparr>mr_blockNum = blockNum, mr_groups = groups, mr_p2pMsg = p2pMsg, mr_msgType = msgType,
                            mr_retryCount = 0, mr_isActive = 1, mr_running = True\<rparr>;
                s = StopRetry msgType s
            in s\<lparr>snd_messagesToRetry := mput msgType (length (snd_store s)) (snd_messagesToRetry s),
                 snd_store := snd_store s @ [msgRetry]\<rparr>)
      else s)"

definition SendWithRetry ::
  "u64 \<Rightarrow> MessageType \<Rightarrow> string list \<Rightarrow> bytes \<Rightarrow> MessageSender \<Rightarrow> MessageSender" where
  "SendWithRetry blockNum msgType groups p2pMsg s =
     SendMessageToGroups groups p2pMsg (DelayedSendWithRetry blockNum msgType groups p2pMsg s)"

definition SendWithoutRetry :: "string list \<Rightarrow> bytes \<Rightarrow> MessageSender \<Rightarrow> MessageSender" where
  "SendWithoutRetry groups p2pMsg s = SendMessageToGroups groups p2pMsg s"

definition retry_tick :: "nat \<Rightarrow> MessageSender \<Rightarrow> MessageSender" where
  "retry_tick i s =
     (let m = snd_store s ! i;
          stop = s\<lparr>snd_store := (snd_store s)[i := m\<lparr>mr_running := False\<rparr>]\<rparr>
      in if snd_retryTimes s \<le> mr_retryCount m then stop
         else if mr_isActive m = 0 then stop
         else if mr_msgType m \<noteq> COMMITTED \<and> mr_blockNum m < snd_blockNum s then stop
         else SendMessageToGroups (mr_groups m) (mr_p2pMsg m)
                (s\<lparr>snd_store := (snd_store s)[i := m\<lparr>mr_retryCount := mr_retryCount m + 1\<rparr>]\<rparr>))"

section \<open>Steps\<close>

inductive sender_step :: "MessageSender \<Rightarrow> MessageSender \<Rightarrow> bool" where
  send: "sender_step s (SendWithRetry n t g p s)"
| delayed: "sender_step s (DelayedSendWithRetry n t g p s)"
| plain: "sender_step s (SendWithoutRetry g p s)"
| stop: "sender_step s (StopRetry t s)"
| stop_all: "sender_step s (StopAllRetriesExceptCommitted s)"
| reset: "sender_step s (sender_Reset n s)"
| tick: "i < length (snd_store s) \<Longrightarrow> mr_running (snd_store s ! i) \<Longrightarrow> sender_step s (retry_tick i s)"

inductive sender_reach :: "MessageSender \<Rightarrow> bool" where
  new: "sender_reach NewMessageSender"
| step: "sender_reach s \<Longrightarrow> sender_step s s' \<Longrightarrow> sender_reach s'"

text \<open>
  The table points into the store under the type of the retry, retries in use are those of the
  table, and no retry was resent more often than allowed.
\<close>

definition sender_ok :: "MessageSender \<Rightarrow> bool" where
  "sender_ok s \<longleftrightarrow>
     gomap_ok (snd_messagesToRetry s) \<and> snd_retryTimes s = 3 \<and>
     (\<forall>t i. mget (snd_messagesToRetry s) t = Some i \<longrightarrow>
        i < length (snd_store s) \<and> mr_msgType (snd_store s ! i) = t) \<and>
     (\<forall>i < length (snd_store s). mr_isActive (snd_store s ! i) \<noteq> 0 \<longrightarrow>
        mget (snd_messagesToRetry s) (mr_msgType (snd_store s ! i)) = Some i) \<and>
     (\<forall>i < length (snd_store s). 0 \<le> mr_retryCount (snd_store s ! i) \<and> mr_retryCount (snd_store s ! i) \<le> 3)"

lemma sender_okD:
  assumes "sender_ok s"
  shows "gomap_ok (snd_messagesToRetry s)" "snd_retryTimes s = 3"
    "mget (snd_messagesToRetry s) t = Some i \<Longrightarrow> i < length (snd_store s)"
    "mget (snd_messagesToRetry s) t = Some i \<Longrightarrow> mr_msgType (snd_store s ! i) = t"
    "i < length (snd_store s) \<Longrightarrow> mr_isActive (snd_store s ! i) \<noteq> 0 \<Longrightarrow>
       mget (snd_messagesToRetry s) (mr_msgType (snd_store s ! i)) = Some i"
    "i < length (snd_store s) \<Longrightarrow> 0 \<le> mr_retryCount (snd_store s ! i) \<and> mr_retryCount (snd_store s ! i) \<le> 3"
  using assms unfolding sender_ok_def by blast+

lemma sender_ok_New [simp]: "sender_ok NewMessageSender"
  by (simp add: sender_ok_def NewMessageSender_def phaseDurationSeconds_def RetryIntervalInSec_def)

lemma sender_ok_send [simp]: "sender_ok (SendMessageToGroups g p s) = sender_ok s"
  by (simp add: sender_ok_def SendMessageToGroups_def)

lemma sender_ok_blockNum [simp]: "sender_ok (s\<lparr>snd_blockNum := n\<rparr>) = sender_ok s"
  by (simp add: sender_ok_def)

lemma set_inactive_fields [simp]:
  "snd_messagesToRetry (set_inactive i s) = snd_messagesToRetry s"
  "snd_retryTimes (set_inactive i s) = snd_retryTimes s"
  "length (snd_store (set_inactive i s)) = length (snd_store s)"
  "snd_sent (set_inactive i s) = snd_sent s"
  by (simp_all add: set_inactive_def)

lemma set_inactive_nth:
  "j < length (snd_store s) \<Longrightarrow>
   snd_store (set_inactive i s) ! j =
     (if j = i then (snd_store s ! j)\<lparr>mr_isActive := 0\<rparr> else snd_store s ! j)"
  by (auto simp: set_inactive_def nth_list_update)

lemma set_inactive_nth_fields [simp]:
  "j < length (snd_store s) \<Longrightarrow> mr_msgType (snd_store (set_inactive i s) ! j) = mr_msgType (snd_store s ! j)"
  "j < length (snd_store s) \<Longrightarrow> mr_retryCount (snd_store (set_inactive i s) ! j) = mr_retryCount (snd_store s ! j)"
  by (simp_all add: set_inactive_nth)

lemma sender_ok_set_inactive: "sender_ok s \<Longrightarrow> sender_ok (set_inactive i s)"
  unfolding sender_ok_def by (simp add: set_inactive_nth)

lemma sender_ok_StopRetry: "sender_ok s \<Longrightarrow> sender_ok (StopRetry t s)"
  by (simp add: StopRetry_def sender_ok_set_inactive split: option.split)

lemma StopRetry_fields [simp]:
  "snd_messagesToRetry (StopRetry t s) = snd_messagesToRetry s"
  "snd_retryTimes (StopRetry t s) = snd_retryTimes s"
  "length (snd_store (StopRetry t s)) = length (snd_store s)"
  by (simp_all add: StopRetry_def split: option.split)

text \<open>After \<open>StopRetry\<close> no retry of the type is active.\<close>

lemma StopRetry_inactive:
  assumes "sender_ok s" "i < length (snd_store s)" "mr_msgType (snd_store s ! i) = t"
  shows "mr_isActive (snd_store (StopRetry t s) ! i) = 0"
proof (cases "mr_isActive (snd_store s ! i) = 0")
  case True
  then show ?thesis
    using assms(2) by (auto simp: StopRetry_def set_inactive_nth split: option.split)
next
  case False
  then have "mget (snd_messagesToRetry s) t = Some i" using sender_okD(5) [OF assms(1,2)] assms(3) by simp
  then show ?thesis using assms(2) by (simp add: StopRetry_def set_inactive_nth)
qed

lemma StopRetry_nth_type [simp]:
  "i < length (snd_store s) \<Longrightarrow> mr_msgType (snd_store (StopRetry t s) ! i) = mr_msgType (snd_store s ! i)"
  by (simp add: StopRetry_def split: option.split)

lemma sender_ok_Delayed:
  assumes ok: "sender_ok s"
  shows "sender_ok (DelayedSendWithRetry n t g p s)"
proof (cases "snd_retryTimes s \<noteq> 0")
  case True
  note D = sender_okD [OF sender_ok_StopRetry [OF ok, of t]]
  have "mr_msgType (snd_store (StopRetry t s) ! i) \<noteq> t"
    if "i < length (snd_store s)" "mr_isActive (snd_store (StopRetry t s) ! i) \<noteq> 0" for i
    using StopRetry_inactive [OF ok that(1)] that by auto
  then show ?thesis
    using True D unfolding sender_ok_def DelayedSendWithRetry_def Let_def
    by (auto simp: nth_append less_Suc_eq)
qed (simp add: DelayedSendWithRetry_def ok)

lemma sender_ok_retry_tick:
  assumes ok: "sender_ok s" and i: "i < length (snd_store s)"
  shows "sender_ok (retry_tick i s)"
proof -
  define m where "m = snd_store s ! i"
  have upd: "sender_ok (s\<lparr>snd_store := (snd_store s)[i := m']\<rparr>)"
    if "mr_msgType m' = mr_msgType m" "mr_isActive m' = mr_isActive m"
      "0 \<le> mr_retryCount m'" "mr_retryCount m' \<le> 3" for m'
    using ok i that unfolding sender_ok_def m_def by (auto simp: nth_list_update)
  have cnt: "0 \<le> mr_retryCount m" "mr_retryCount m \<le> 3" using sender_okD(6) [OF ok i] by (simp_all add: m_def)
  show ?thesis
    using cnt sender_okD(2) [OF ok]
    unfolding retry_tick_def Let_def m_def [symmetric]
    by (auto simp del: list_update.simps intro!: upd)
qed

abbreviation stop_entry :: "MessageType \<times> nat \<Rightarrow> MessageSender \<Rightarrow> MessageSender" where
  "stop_entry \<equiv> \<lambda>(k, i) s. if mr_msgType (snd_store s ! i) \<noteq> COMMITTED then set_inactive i s else s"

lemma stop_entries_fields:
  "snd_messagesToRetry (fold stop_entry xs s) = snd_messagesToRetry s"
  "snd_retryTimes (fold stop_entry xs s) = snd_retryTimes s"
  "length (snd_store (fold stop_entry xs s)) = length (snd_store s)"
  "snd_sent (fold stop_entry xs s) = snd_sent s"
  by (induction xs arbitrary: s) auto

lemma stop_entries_ok: "sender_ok s \<Longrightarrow> sender_ok (fold stop_entry xs s)"
  by (induction xs arbitrary: s) (auto simp: sender_ok_set_inactive)

lemma stop_entries_nth:
  assumes "j < length (snd_store s)"
  shows "mr_msgType (snd_store (fold stop_entry xs s) ! j) = mr_msgType (snd_store s ! j) \<and>
         mr_isActive (snd_store (fold stop_entry xs s) ! j) =
           (if j \<in> snd ` set xs \<and> mr_msgType (snd_store s ! j) \<noteq> COMMITTED then 0 else mr_isActive (snd_store s ! j))"
  using assms
proof (induction xs arbitrary: s)
  case (Cons x xs)
  obtain k i where x: "x = (k, i)" by (cases x)
  show ?case
  proof (cases "mr_msgType (snd_store s ! i) \<noteq> COMMITTED")
    case True
    then have "fold stop_entry (x # xs) s = fold stop_entry xs (set_inactive i s)" by (simp add: x)
    then show ?thesis
      using Cons.IH [of "set_inactive i s"] Cons.prems True by (auto simp: x set_inactive_nth)
  next
    case False
    then show ?thesis using Cons by (auto simp: x)
  qed
qed simp

lemma Reset_unfold:
  "sender_Reset n s =
     (let s' = fold stop_entry (snd_messagesToRetry s) (s\<lparr>snd_blockNum := n\<rparr>)
      in s'\<lparr>snd_messagesToRetry := filter (\<lambda>(k, i). mr_msgType (snd_store s' ! i) = COMMITTED) (snd_messagesToRetry s)\<rparr>)"
  by (simp add: sender_Reset_def StopAllRetriesExceptCommitted_def Let_def stop_entries_fields)

text \<open>A reset leaves only COMMITTED retries active.\<close>

lemma Reset_active:
  assumes ok: "sender_ok s" and j: "j < length (snd_store s)"
    and act: "mr_isActive (snd_store (sender_Reset n s) ! j) \<noteq> 0"
  shows "mr_msgType (snd_store s ! j) = COMMITTED"
proof (rule ccontr)
  assume ne: "mr_msgType (snd_store s ! j) \<noteq> COMMITTED"
  have eq: "mr_isActive (snd_store (sender_Reset n s) ! j) =
      (if j \<in> snd ` set (snd_messagesToRetry s) \<and> mr_msgType (snd_store s ! j) \<noteq> COMMITTED then 0
       else mr_isActive (snd_store s ! j))"
    using stop_entries_nth [of j "s\<lparr>snd_blockNum := n\<rparr>" "snd_messagesToRetry s"] j
    by (simp add: Reset_unfold Let_def)
  then have "mr_isActive (snd_store s ! j) \<noteq> 0" using act by (auto split: if_splits)
  then have "mget (snd_messagesToRetry s) (mr_msgType (snd_store s ! j)) = Some j"
    by (rule sender_okD(5) [OF ok j])
  then have "j \<in> snd ` set (snd_messagesToRetry s)" by (force dest: map_of_SomeD)
  then show False using eq act ne by simp
qed

lemma Reset_store:
  "j < length (snd_store s) \<Longrightarrow> mr_msgType (snd_store (sender_Reset n s) ! j) = mr_msgType (snd_store s ! j)"
  "length (snd_store (sender_Reset n s)) = length (snd_store s)"
  "snd_sent (sender_Reset n s) = snd_sent s"
  using stop_entries_nth [of j "s\<lparr>snd_blockNum := n\<rparr>" "snd_messagesToRetry s"]
  by (simp_all add: Reset_unfold Let_def stop_entries_fields)

lemma Reset_mget:
  assumes ok: "sender_ok s"
  shows "mget (snd_messagesToRetry (sender_Reset n s)) t = (if t = COMMITTED then mget (snd_messagesToRetry s) t else None)"
proof -
  let ?s' = "fold stop_entry (snd_messagesToRetry s) (s\<lparr>snd_blockNum := n\<rparr>)"
  have "mr_msgType (snd_store ?s' ! i) = t" if "mget (snd_messagesToRetry s) t = Some i" for i
    using stop_entries_nth [of i "s\<lparr>snd_blockNum := n\<rparr>" "snd_messagesToRetry s"]
      sender_okD(3,4) [OF ok that] by simp
  then show ?thesis
    using mget_filter [OF sender_okD(1) [OF ok], of "\<lambda>k i. mr_msgType (snd_store ?s' ! i) = COMMITTED" t]
    by (auto simp: Reset_unfold Let_def split: option.splits)
qed

lemma sender_ok_Reset:
  assumes ok: "sender_ok s"
  shows "sender_ok (sender_Reset n s)"
proof -
  have ok': "sender_ok (fold stop_entry (snd_messagesToRetry s) (s\<lparr>snd_blockNum := n\<rparr>))"
    using ok by (intro stop_entries_ok) simp
  have store: "snd_store (sender_Reset n s) = snd_store (fold stop_entry (snd_messagesToRetry s) (s\<lparr>snd_blockNum := n\<rparr>))"
    "snd_retryTimes (sender_Reset n s) = snd_retryTimes s"
    "gomap_ok (snd_messagesToRetry (sender_Reset n s))"
    using sender_okD(1) [OF ok] by (simp_all add: Reset_unfold Let_def stop_entries_fields)
  note old = sender_okD [OF ok'] and tab = Reset_mget [OF ok, of n] Reset_store(2) [of n s]
  have tab_old: "mget (snd_messagesToRetry (fold stop_entry (snd_messagesToRetry s) (s\<lparr>snd_blockNum := n\<rparr>))) = mget (snd_messagesToRetry s)"
    by (simp add: stop_entries_fields)
  have active: "mr_msgType (snd_store (sender_Reset n s) ! i) = COMMITTED"
    if "i < length (snd_store s)" "mr_isActive (snd_store (sender_Reset n s) ! i) \<noteq> 0" for i
    using Reset_active [OF ok that] Reset_store(1) [OF that(1)] by simp
  show ?thesis
    unfolding sender_ok_def
  proof (intro conjI allI impI store(3))
    show "snd_retryTimes (sender_Reset n s) = 3" using store(2) sender_okD(2) [OF ok] by simp
  next
    fix t i assume "mget (snd_messagesToRetry (sender_Reset n s)) t = Some i"
    then have "mget (snd_messagesToRetry s) t = Some i" using tab by (simp split: if_splits)
    then show "i < length (snd_store (sender_Reset n s))" "mr_msgType (snd_store (sender_Reset n s) ! i) = t"
      using old(3,4) store(1) tab_old by metis+
  next
    fix i assume i: "i < length (snd_store (sender_Reset n s))" "mr_isActive (snd_store (sender_Reset n s) ! i) \<noteq> 0"
    then have "mr_msgType (snd_store (sender_Reset n s) ! i) = COMMITTED" using active tab by simp
    moreover have "mget (snd_messagesToRetry s) (mr_msgType (snd_store (sender_Reset n s) ! i)) = Some i"
      using old(5) [of i] i store(1) tab_old by metis
    ultimately show "mget (snd_messagesToRetry (sender_Reset n s)) (mr_msgType (snd_store (sender_Reset n s) ! i)) = Some i"
      using tab by simp
  next
    fix i assume "i < length (snd_store (sender_Reset n s))"
    then show "0 \<le> mr_retryCount (snd_store (sender_Reset n s) ! i)" "mr_retryCount (snd_store (sender_Reset n s) ! i) \<le> 3"
      using old(6) store(1) by metis+
  qed
qed

lemma sender_step_ok: "sender_step s s' \<Longrightarrow> sender_ok s \<Longrightarrow> sender_ok s'"
  by (induction rule: sender_step.induct)
     (auto simp: SendWithRetry_def SendWithoutRetry_def StopAllRetriesExceptCommitted_def
       sender_ok_Delayed sender_ok_StopRetry sender_ok_Reset sender_ok_retry_tick stop_entries_ok)

lemma sender_reach_ok: "sender_reach s \<Longrightarrow> sender_ok s"
  by (induction rule: sender_reach.induct) (auto simp: sender_step_ok)

section \<open>Properties of the sender\<close>


definition sample_sender :: MessageSender where
  "sample_sender = SendWithRetry 5 PREPARED [''shard0''] [2] (SendWithRetry 5 ANNOUNCE [''shard0''] [1] NewMessageSender)"

lemma sample_sender_reach: "sender_reach sample_sender"
  unfolding sample_sender_def
  by (intro sender_reach.step [OF _ sender_step.send] sender_reach.new)


text \<open>
  After a reset for a new block, the goroutines of all earlier messages but COMMITTED ones send
  nothing more: the next round of each of them ends it.
\<close>

theorem reset_stops_retries:
  assumes "sender_reach s" "i < length (snd_store s)" "mr_msgType (snd_store s ! i) \<noteq> COMMITTED"
  shows "snd_sent (retry_tick i (sender_Reset n s)) = snd_sent s \<and>
         \<not> mr_running (snd_store (retry_tick i (sender_Reset n s)) ! i)"
proof -
  have "mr_isActive (snd_store (sender_Reset n s) ! i) = 0"
    using Reset_active [OF sender_reach_ok [OF assms(1)] assms(2)] assms(3) by blast
  then show ?thesis
    using assms(2) by (simp add: retry_tick_def Let_def Reset_store)
qed

theorem reset_stops_retries_witness:
  "snd_sent (retry_tick 0 (sender_Reset 6 sample_sender)) = snd_sent sample_sender \<and>
   \<not> mr_running (snd_store (retry_tick 0 (sender_Reset 6 sample_sender)) ! 0)"
  by (rule reset_stops_retries [OF sample_sender_reach]) code_simp+

end
