(* ===== verification/Wire.thy ===== *)
theory Wire
  imports Utils Block_Types
begin

text \<open>
  The framing of messages on the wire: \<open>api/proto/common.go\<close>, \<open>api/proto/node/node.go\<close>, the frame of
  \<open>p2p.ConstructMessage\<close> (\<open>p2p/host.go\<close>) and the group names of \<open>internal/configs/group.go\<close>.
\<close>

datatype MessageCategory = CategoryConsensus | CategoryNode | CategoryOther u8

definition category_of :: "u8 \<Rightarrow> MessageCategory" where
  "category_of b = (if b = 0 then CategoryConsensus else if b = 1 then CategoryNode else CategoryOther b)"

definition MessageCategoryBytes :: nat where "MessageCategoryBytes = 1"
definition MessageTypeBytes :: nat where "MessageTypeBytes = 1"

definition GetMessageCategory :: "bytes \<Rightarrow> MessageCategory option" where
  "GetMessageCategory message =
     (if length message < MessageCategoryBytes then None
      else Some (category_of (message ! (MessageCategoryBytes - 1))))"

definition GetMessageType :: "bytes \<Rightarrow> u8 option" where
  "GetMessageType message =
     (if length message < MessageCategoryBytes + MessageTypeBytes then None
      else Some (message ! (MessageCategoryBytes + MessageTypeBytes - 1)))"

definition GetMessagePayload :: "bytes \<Rightarrow> bytes option" where
  "GetMessagePayload message =
     (if length message < MessageCategoryBytes + MessageTypeBytes then None
      else Some (drop (MessageCategoryBytes + MessageTypeBytes) message))"

definition GetConsensusMessagePayload :: "bytes \<Rightarrow> bytes option" where
  "GetConsensusMessagePayload message =
     (if length message < MessageCategoryBytes then None else Some (drop MessageCategoryBytes message))"

definition ConstructConsensusMessage :: "bytes \<Rightarrow> bytes" where
  "ConstructConsensusMessage payload = [0] @ payload"

definition transactionListH :: bytes where "transactionListH = [1, 0, 0]"
definition syncH :: bytes where "syncH = [1, 1, 0]"

text \<open>The RLP encoder may fail for transactions, which ends the process; for blocks its error is dropped.\<close>

definition ConstructTransactionListMessageAccount :: "(rlp \<Rightarrow> bytes option) \<Rightarrow> Transaction list \<Rightarrow> bytes option" where
  "ConstructTransactionListMessageAccount EncodeToBytes transactions =
     (case EncodeToBytes (RList (map (\<lambda>tx. txdata_rlp (tx_data tx)) transactions)) of
        None \<Rightarrow> None
      | Some txs \<Rightarrow> Some (transactionListH @ txs))"

definition ConstructBlocksSyncMessage :: "(rlp \<Rightarrow> bytes option) \<Rightarrow> Block list \<Rightarrow> bytes" where
  "ConstructBlocksSyncMessage EncodeToBytes blocks =
     syncH @ (case EncodeToBytes (RList (map Block_rlp blocks)) of None \<Rightarrow> [] | Some bs \<Rightarrow> bs)"

definition ConstructMessage :: "bytes \<Rightarrow> bytes" where
  "ConstructMessage content = [17] @ be_bytes 4 (word_of_nat (length content) :: u32) @ content"

definition itoa :: "int \<Rightarrow> string" where
  "itoa n = (if n < 0 then ''-'' @ decimal (nat (- n)) else decimal (nat n))"

definition getNetworkPrefix :: "u64 \<Rightarrow> string" where
  "getNetworkPrefix shardID = ''benzene''"

definition NewGroupIDByShardID :: "u64 \<Rightarrow> string" where
  "NewGroupIDByShardID shardID = getNetworkPrefix shardID @ ''/0.0.1/node/shard/'' @ itoa (sint shardID)"

definition NewClientGroupIDByShardID :: "u64 \<Rightarrow> string" where
  "NewClientGroupIDByShardID shardID = getNetworkPrefix shardID @ ''/0.0.1/client/shard/'' @ itoa (sint shardID)"

datatype ActionType = ActionStart | ActionPause | ActionResume | ActionStop | ActionUnknown

definition ActionType_String :: "ActionType \<Rightarrow> string" where
  "ActionType_String a =
     (case a of
        ActionStart \<Rightarrow> ''ActionStart''
      | ActionPause \<Rightarrow> ''ActionPause''
      | ActionResume \<Rightarrow> ''ActionResume''
      | ActionStop \<Rightarrow> ''ActionStop''
      | ActionUnknown \<Rightarrow> ''ActionUnknown'')"

definition GroupAction_String :: "string \<times> ActionType \<Rightarrow> string" where
  "GroupAction_String g = fst g @ ''/'' @ ActionType_String (snd g)"

section \<open>Facts\<close>

lemma itoa_inject: "itoa m = itoa n \<longleftrightarrow> m = n"
proof -
  have dash: "''-'' @ decimal a \<noteq> decimal b" for a b
    using dash_not_decimal [of b] by (metis append_Cons list.set_intros(1))
  show ?thesis
    using dash dash [symmetric] by (auto simp: itoa_def)
qed

lemma sint_inject: "sint a = sint b \<longleftrightarrow> a = (b :: u64)"
  using signed_word_eqI [where 'a = int, of a b] by auto

lemma group_ids_inject:
  "NewGroupIDByShardID a = NewGroupIDByShardID b \<longleftrightarrow> a = b"
  "NewClientGroupIDByShardID a = NewClientGroupIDByShardID b \<longleftrightarrow> a = b"
  by (simp_all add: NewGroupIDByShardID_def NewClientGroupIDByShardID_def getNetworkPrefix_def itoa_inject sint_inject)

lemma group_ids_disjoint: "NewGroupIDByShardID a \<noteq> NewClientGroupIDByShardID b"
  by (simp add: NewGroupIDByShardID_def NewClientGroupIDByShardID_def getNetworkPrefix_def)

lemma consensus_message_roundtrip:
  "GetMessageCategory (ConstructConsensusMessage p) = Some CategoryConsensus"
  "GetConsensusMessagePayload (ConstructConsensusMessage p) = Some p"
  by (simp_all add: GetMessageCategory_def GetConsensusMessagePayload_def ConstructConsensusMessage_def
      MessageCategoryBytes_def category_of_def)

end
