(* ===== verification/Consensus_State.thy ===== *)
theory Consensus_State
  imports Message_Sender Wire
begin

text \<open>
  The state of a consensus node and what its handlers share: the struct \<open>Consensus\<close> of
  \<open>consensus/consensus.go\<close> with \<open>consensus/state.go\<close> and \<open>consensus/config.go\<close>, the service functions of
  \<open>consensus/consensus_service.go\<close>, the checks of \<open>consensus/checks.go\<close>, the construction of messages
  (\<open>consensus/construct.go\<close>), the commit payload of \<open>consensus/signature/signature.go\<close> and the payload
  reader of \<open>internal/chain/sig.go\<close>.

  The libraries a node calls are the functions of \<open>env\<close>: BLS signatures and masks, Keccak, protobuf
  and RLP coding, the block verifier the node installs and the epoch tests of the chain
  configuration. The blockchain is used through the operations of \<open>chain_ops\<close> on a chain state of
  type \<open>'c\<close>; what the shard committee of an epoch is, and how a block stands in its epoch, comes from
  \<open>epoch_ops\<close>. A mutex is held by every handler, so a handler is one step. What a handler starts in
  the background is recorded as a task and run as a step of its own; \<open>cs_now\<close> is the reading of the clock.
\<close>

section \<open>The environment\<close>

record Mask =
  mk_Bitmap :: bytes
  mk_AggregatePublic :: bls_public
  mk_publics :: "PublicKeyWrapper list"

record mask_lib =
  ml_NewMask :: "PublicKeyWrapper list \<Rightarrow> Mask option"
  ml_SetMask :: "Mask \<Rightarrow> bytes \<Rightarrow> Mask option"
  ml_SetKey :: "Mask \<Rightarrow> blskey \<Rightarrow> Mask option"
  ml_SetKeysAtomic :: "Mask \<Rightarrow> PublicKeyWrapper list \<Rightarrow> Mask option"
  ml_Clear :: "Mask \<Rightarrow> Mask"
  ml_CountEnabled :: "Mask \<Rightarrow> int"
  ml_KeyEnabled :: "Mask \<Rightarrow> blskey \<Rightarrow> bool option"
  ml_GetSignedPubKeysFromBitmap :: "Mask option \<Rightarrow> bytes \<Rightarrow> PublicKeyWrapper list option"

record 'c chain_ops =
  co_CurrentNumber :: "'c \<Rightarrow> u64"
  co_InsertChain :: "Block \<Rightarrow> 'c \<Rightarrow> 'c option"
  co_ReadCommitSig :: "'c \<Rightarrow> u64 \<Rightarrow> bytes option"
  co_WriteCommitSig :: "u64 \<Rightarrow> bytes \<Rightarrow> 'c \<Rightarrow> 'c"
  co_GetBlockByHash :: "'c \<Rightarrow> hash \<Rightarrow> Block option"

record 'c epoch_ops =
  eo_curEpoch :: "'c \<Rightarrow> int"
  eo_curNumber :: "'c \<Rightarrow> int"
  eo_curIsLastBlockInEpoch :: "'c \<Rightarrow> bool"
  eo_curShardStateEpoch :: "'c \<Rightarrow> int option option"
  eo_ReadFromDB :: "'c \<Rightarrow> int \<Rightarrow> bool"
  eo_FindCommittee :: "'c \<Rightarrow> int \<Rightarrow> (nat \<times> PublicKeyWrapper list) option"
  eo_AddressForBLSKey :: "'c \<Rightarrow> blskey \<Rightarrow> address option"

record 'c env =
  ev_bls :: bls_lib
  ev_crypto :: crypto_lib
  ev_mask :: mask_lib
  ev_chain :: "'c chain_ops"
  ev_epochs :: "'c epoch_ops"
  ev_Serialize :: "bls_sign \<Rightarrow> bytes"
  ev_Deserialize :: "bytes \<Rightarrow> bls_sign option"
  ev_SignAdd :: "bls_sign \<Rightarrow> bls_sign \<Rightarrow> bls_sign"
  ev_ZeroSign :: bls_sign
  ev_PubAdd :: "bls_public \<Rightarrow> bls_public \<Rightarrow> bls_public"
  ev_ZeroPub :: bls_public
  ev_SignHash :: "bls_secret \<Rightarrow> bytes \<Rightarrow> bls_sign option"
  ev_VerifyHash :: "bls_sign \<Rightarrow> bls_public \<Rightarrow> bytes \<Rightarrow> bool"
  ev_BytesToBLSPublicKey :: "bytes \<Rightarrow> bls_public option"
  ev_Keccak256 :: "bytes \<Rightarrow> bytes"
  ev_Marshal :: "Message \<Rightarrow> bytes option"
  ev_EncodeBlock :: "Block \<Rightarrow> bytes option"
  ev_DecodeBlock :: "bytes \<Rightarrow> Block option"
  ev_Epoch :: "Block \<Rightarrow> int"
  ev_IsStaking :: "int \<Rightarrow> bool"
  ev_IsLastBlockInEpoch :: "Block \<Rightarrow> bool"
  ev_BlockVerifier :: "Block \<Rightarrow> bool"

section \<open>The state\<close>

datatype ProposalType = SyncProposal | AsyncProposal

record NetworkMessage =
  nm_MessageType :: MessageType
  nm_Bytes :: bytes
  nm_FBFTMsg :: FBFTMessage
  nm_OptionalAggregateSignature :: "bls_sign option"

record slash_vote =
  sv_SignerPubKeys :: "blskey list"
  sv_BlockHeaderHash :: hash
  sv_Signature :: bytes

record slash_record =
  sl_FirstVote :: slash_vote
  sl_SecondVote :: slash_vote
  sl_Height :: u64
  sl_ViewID :: u64
  sl_Offender :: address
  sl_Reporter :: address

datatype task =
    GracePeriod u64
  | PreCommit Block NetworkMessage
  | CommittedScan Block u64
  | SignalReady ProposalType
  | SendCommitSig bytes
  | NewVerifiedBlock Block
  | Slash slash_record

record 'c Consensus =
  cs_Decider :: Decider
  cs_FBFTLog :: FBFTLog
  cs_phase :: FBFTPhase
  cs_mode :: Mode
  cs_blockViewID :: u64
  cs_delayCommit :: int
  cs_timeoutConsensus :: Timeout
  cs_timeoutBootstrap :: Timeout
  cs_aggregatedPrepareSig :: "bls_sign option"
  cs_aggregatedCommitSig :: "bls_sign option"
  cs_prepareBitmap :: "Mask option"
  cs_commitBitmap :: "Mask option"
  cs_multiSigBitmap :: "Mask option"
  cs_Blockchain :: 'c
  cs_priKey :: "PrivateKeyWrapper list"
  cs_LeaderPubKey :: "PublicKeyWrapper option"
  cs_blockNum :: u64
  cs_blockHash :: hash
  cs_block :: bytes
  cs_ShardID :: u64
  cs_IgnoreViewIDCheck :: bool
  cs_hasBlockVerifier :: bool
  cs_BlockNumLowChan :: bool
  cs_pendingRnds :: "bytes list"
  cs_msgSender :: MessageSender
  cs_AggregateSig :: bool
  cs_finality :: int
  cs_finalityCounter :: int
  cs_now :: int
  cs_tasks :: "task list"
  cs_crashed :: bool

definition spawn :: "task \<Rightarrow> 'c Consensus \<Rightarrow> 'c Consensus" where
  "spawn t s = s\<lparr>cs_tasks := cs_tasks s @ [t]\<rparr>"

definition phaseDuration :: int where "phaseDuration = 27 * 1000000000"
definition bootstrapDuration :: int where "bootstrapDuration = 120 * 1000000000"

definition createTimeout :: "int \<Rightarrow> Timeout \<times> Timeout" where
  "createTimeout now = (NewTimeout now phaseDuration, NewTimeout now bootstrapDuration)"

definition New_Consensus :: "'c \<Rightarrow> u64 \<Rightarrow> PrivateKeyWrapper list option \<Rightarrow> Decider \<Rightarrow> int \<Rightarrow> 'c Consensus option" where
  "New_Consensus chain shardID multiBLSPriKey decider now =
     (case multiBLSPriKey of
        None \<Rightarrow> None
      | Some keys \<Rightarrow> Some
          \<lparr>cs_Decider = decider, cs_FBFTLog = NewFBFTLog, cs_phase = FBFTAnnounce, cs_mode = Normal,
           cs_blockViewID = 0, cs_delayCommit = 0, cs_timeoutConsensus = fst (createTimeout now),
           cs_timeoutBootstrap = snd (createTimeout now), cs_aggregatedPrepareSig = None,
           cs_aggregatedCommitSig = None, cs_prepareBitmap = None, cs_commitBitmap = None,
           cs_multiSigBitmap = None, cs_Blockchain = chain, cs_priKey = keys, cs_LeaderPubKey = None,
           cs_blockNum = 0, cs_blockHash = 0, cs_block = [], cs_ShardID = shardID,
           cs_IgnoreViewIDCheck = False, cs_hasBlockVerifier = False, cs_BlockNumLowChan = False,
           cs_pendingRnds = [], cs_msgSender = NewMessageSender, cs_AggregateSig = False,
           cs_finality = 0, cs_finalityCounter = 0, cs_now = now, cs_tasks = [], cs_crashed = False\<rparr>)"

section \<open>Service functions\<close>

definition SetMode :: "Mode \<Rightarrow> 'c Consensus \<Rightarrow> 'c Consensus" where
  "SetMode m s = s\<lparr>cs_mode := m\<rparr>"

definition SetBlockNum :: "u64 \<Rightarrow> 'c Consensus \<Rightarrow> 'c Consensus" where
  "SetBlockNum n s = s\<lparr>cs_blockNum := n\<rparr>"

definition SetViewIDs :: "u64 \<Rightarrow> 'c Consensus \<Rightarrow> 'c Consensus" where
  "SetViewIDs height s = s\<lparr>cs_blockViewID := height\<rparr>"

definition SetBlockVerifier :: "'c Consensus \<Rightarrow> 'c Consensus" where
  "SetBlockVerifier s = s\<lparr>cs_hasBlockVerifier := True\<rparr>"

definition SetCommitDelay :: "int \<Rightarrow> 'c Consensus \<Rightarrow> 'c Consensus" where
  "SetCommitDelay d s = s\<lparr>cs_delayCommit := d\<rparr>"

definition switchPhase :: "FBFTPhase \<Rightarrow> 'c Consensus \<Rightarrow> 'c Consensus" where
  "switchPhase desired s = s\<lparr>cs_phase := desired\<rparr>"

definition StartFinalityCount :: "'c Consensus \<Rightarrow> 'c Consensus" where
  "StartFinalityCount s = s\<lparr>cs_finalityCounter := cs_now s\<rparr>"

definition FinishFinalityCount :: "'c Consensus \<Rightarrow> 'c Consensus" where
  "FinishFinalityCount s = s\<lparr>cs_finality := (cs_now s - cs_finalityCounter s) sdiv 1000000\<rparr>"

definition IsValidatorInCommittee :: "blskey \<Rightarrow> 'c Consensus \<Rightarrow> bool" where
  "IsValidatorInCommittee pubKey s \<longleftrightarrow> IndexOf (dc_store (cs_Decider s)) pubKey \<noteq> -1"

definition VdfSeedSize :: "'c Consensus \<Rightarrow> int" where
  "VdfSeedSize s = ParticipantsCount (dc_store (cs_Decider s)) * 2 div 3"

text \<open>A nil leader key makes \<open>consensus.LeaderPubKey.Object\<close> panic.\<close>

definition IsLeader :: "'c env \<Rightarrow> 'c Consensus \<Rightarrow> bool option" where
  "IsLeader E s =
     (if cs_priKey s = [] then Some False
      else (case cs_LeaderPubKey s of
              None \<Rightarrow> None
            | Some leader \<Rightarrow>
                Some (list_ex (\<lambda>key. bl_IsEqual (ev_bls E) (pk_Object (sk_Pub key)) (pk_Object leader)) (cs_priKey s))))"

definition GetLeaderPrivateKey :: "'c env \<Rightarrow> bls_public \<Rightarrow> 'c Consensus \<Rightarrow> PrivateKeyWrapper option" where
  "GetLeaderPrivateKey E leaderKey s = find (\<lambda>key. bl_IsEqual (ev_bls E) (pk_Object (sk_Pub key)) leaderKey) (cs_priKey s)"

definition GetConsensusLeaderPrivateKey :: "'c env \<Rightarrow> 'c Consensus \<Rightarrow> PrivateKeyWrapper option" where
  "GetConsensusLeaderPrivateKey E s =
     (case cs_LeaderPubKey s of None \<Rightarrow> None | Some leader \<Rightarrow> GetLeaderPrivateKey E (pk_Object leader) s)"

definition UpdateBitmaps :: "'c env \<Rightarrow> 'c Consensus \<Rightarrow> 'c Consensus" where
  "UpdateBitmaps E s =
     (let members = Participants (dc_store (cs_Decider s)); m = ml_NewMask (ev_mask E) members
      in s\<lparr>cs_prepareBitmap := m, cs_commitBitmap := m, cs_multiSigBitmap := m\<rparr>)"

definition ResetState :: "'c env \<Rightarrow> 'c Consensus \<Rightarrow> 'c Consensus" where
  "ResetState E s =
     (switchPhase FBFTAnnounce s)
       \<lparr>cs_blockHash := 0, cs_block := [], cs_Decider := ResetPrepareAndCommitVotes (cs_Decider s),
        cs_prepareBitmap := map_option (ml_Clear (ev_mask E)) (cs_prepareBitmap s),
        cs_commitBitmap := map_option (ml_Clear (ev_mask E)) (cs_commitBitmap s),
        cs_aggregatedPrepareSig := None, cs_aggregatedCommitSig := None\<rparr>"

definition UpdatePublicKeys :: "'c env \<Rightarrow> PublicKeyWrapper list \<Rightarrow> 'c Consensus \<Rightarrow> int \<times> 'c Consensus" where
  "UpdatePublicKeys E pubKeys s =
     (let s = s\<lparr>cs_Decider := (cs_Decider s)\<lparr>dc_store := UpdateParticipants pubKeys (dc_store (cs_Decider s))\<rparr>\<rparr>;
          allKeys = Participants (dc_store (cs_Decider s));
          s = (if length allKeys \<noteq> 0 then s\<lparr>cs_LeaderPubKey := Some (allKeys ! 0)\<rparr> else s);
          s = ResetState E (UpdateBitmaps E s)
      in (ParticipantsCount (dc_store (cs_Decider s)), s))"

definition GetNextRnd :: "'c Consensus \<Rightarrow> (bytes \<times> bytes \<times> 'c Consensus) option" where
  "GetNextRnd s =
     (case cs_pendingRnds s of
        [] \<Rightarrow> None
      | vdfOutput # rest \<Rightarrow> Some (take 516 vdfOutput, drop 516 vdfOutput, s\<lparr>cs_pendingRnds := rest\<rparr>))"

text \<open>A full buffer makes the non-blocking send take its default branch.\<close>

definition spinUpStateSync :: "'c Consensus \<Rightarrow> 'c Consensus" where
  "spinUpStateSync s =
     (if cs_BlockNumLowChan s then s
      else s\<lparr>cs_BlockNumLowChan := True, cs_mode := Syncing,
             cs_timeoutConsensus := Timeout_Stop (cs_now s) (cs_timeoutConsensus s),
             cs_timeoutBootstrap := Timeout_Stop (cs_now s) (cs_timeoutBootstrap s)\<rparr>)"

definition getPriKeysInCommittee :: "'c Consensus \<Rightarrow> PrivateKeyWrapper list" where
  "getPriKeysInCommittee s = filter (\<lambda>key. IsValidatorInCommittee (pk_Bytes (sk_Pub key)) s) (cs_priKey s)"

section \<open>Signatures\<close>

definition ConstructCommitPayload :: "'c env \<Rightarrow> int \<Rightarrow> hash \<Rightarrow> u64 \<Rightarrow> u64 \<Rightarrow> bytes" where
  "ConstructCommitPayload E epoch blockHash blockNum viewID =
     (let commitPayload = le_bytes 8 blockNum @ be_bytes 32 blockHash
      in if \<not> ev_IsStaking E epoch then commitPayload else commitPayload @ le_bytes 8 viewID)"

definition signMessage :: "'c env \<Rightarrow> bytes \<Rightarrow> bls_secret \<Rightarrow> bytes option" where
  "signMessage E message priKey =
     map_option (ev_Serialize E) (ev_SignHash E priKey (ev_Keccak256 E message))"

definition signConsensusMessage :: "'c env \<Rightarrow> Message \<Rightarrow> bls_secret \<Rightarrow> Message option" where
  "signConsensusMessage E message priKey =
     (let message = message\<lparr>ms_Signature := []\<rparr>
      in case ev_Marshal E message of
           None \<Rightarrow> None
         | Some marshaled \<Rightarrow>
             map_option (\<lambda>sig. message\<lparr>ms_Signature := sig\<rparr>) (signMessage E marshaled priKey))"

definition signAndMarshalConsensusMessage :: "'c env \<Rightarrow> Message \<Rightarrow> bls_secret \<Rightarrow> (Message \<times> bytes) option" where
  "signAndMarshalConsensusMessage E message priKey =
     (case signConsensusMessage E message priKey of
        None \<Rightarrow> None
      | Some message \<Rightarrow> map_option (\<lambda>bs. (message, bs)) (ev_Marshal E message))"

definition verifyMessageSig :: "'c env \<Rightarrow> bls_public \<Rightarrow> Message \<Rightarrow> bool" where
  "verifyMessageSig E signerPubKey message =
     (case ev_Marshal E (message\<lparr>ms_Signature := []\<rparr>) of
        None \<Rightarrow> False
      | Some messageBytes \<Rightarrow>
          (case ev_Deserialize E (ms_Signature message) of
             None \<Rightarrow> False
           | Some msgSig \<Rightarrow> ev_VerifyHash E msgSig signerPubKey (ev_Keccak256 E messageBytes)))"

definition senderKeySanityChecks :: "'c env \<Rightarrow> Message \<Rightarrow> blskey \<Rightarrow> bool" where
  "senderKeySanityChecks E msg senderKey =
     (case ev_BytesToBLSPublicKey E (be_bytes 48 senderKey) of
        None \<Rightarrow> False
      | Some pubkey \<Rightarrow> verifyMessageSig E pubkey msg)"

definition BLSSignatureSizeInBytes :: nat where "BLSSignatureSizeInBytes = 96"

definition ReadSignatureBitmapByPublicKeys ::
  "'c env \<Rightarrow> bytes \<Rightarrow> PublicKeyWrapper list \<Rightarrow> (bls_sign \<times> Mask) option" where
  "ReadSignatureBitmapByPublicKeys E recvPayload keys =
     (if length recvPayload < BLSSignatureSizeInBytes then None
      else let multiSig = take BLSSignatureSizeInBytes recvPayload;
               bitmap = drop BLSSignatureSizeInBytes recvPayload
           in case ev_Deserialize E multiSig of
                None \<Rightarrow> None
              | Some aggSig \<Rightarrow>
                  (case ml_NewMask (ev_mask E) keys of
                     None \<Rightarrow> None
                   | Some m \<Rightarrow> Some (aggSig, (case ml_SetMask (ev_mask E) m bitmap of None \<Rightarrow> m | Some m' \<Rightarrow> m'))))"

definition ReadSignatureBitmapPayload :: "'c env \<Rightarrow> bytes \<Rightarrow> nat \<Rightarrow> 'c Consensus \<Rightarrow> (bls_sign \<times> Mask) option" where
  "ReadSignatureBitmapPayload E recvPayload offset s =
     (if length recvPayload < offset + BLSSignatureSizeInBytes then None
      else ReadSignatureBitmapByPublicKeys E (drop offset recvPayload) (Participants (dc_store (cs_Decider s))))"

text \<open>The key a multi-key signature is verified against: the single sender's, or the sum of all.\<close>

definition signer_key :: "'c env \<Rightarrow> FBFTMessage \<Rightarrow> bls_public" where
  "signer_key E recvMsg =
     (if HasSingleSender recvMsg then pk_Object (fm_SenderPubkeys recvMsg ! 0)
      else fold (\<lambda>k acc. ev_PubAdd E acc (pk_Object k)) (fm_SenderPubkeys recvMsg) (ev_ZeroPub E))"

definition NumSignaturesIncludedInBlock :: "'c env \<Rightarrow> Block \<Rightarrow> 'c Consensus \<Rightarrow> u32" where
  "NumSignaturesIncludedInBlock E block s =
     (case ml_NewMask (ev_mask E) (Participants (dc_store (cs_Decider s))) of
        None \<Rightarrow> 0
      | Some m \<Rightarrow>
          (case ml_SetMask (ev_mask E) m (hd_LastCommitBitmap (bk_header block)) of
             None \<Rightarrow> 0
           | Some m \<Rightarrow>
               fold (\<lambda>key n. if ml_KeyEnabled (ev_mask E) m (pk_Bytes key) = Some True then n + 1 else n)
                 (GetPublicKeys (cs_priKey s)) 0))"

section \<open>Checks\<close>

definition MaxBlockNumDiff :: u64 where "MaxBlockNumDiff = 100"

definition isRightBlockNumAndViewID :: "FBFTMessage \<Rightarrow> 'c Consensus \<Rightarrow> bool" where
  "isRightBlockNumAndViewID recvMsg s \<longleftrightarrow>
     \<not> (fm_ViewID recvMsg \<noteq> cs_blockViewID s \<or> fm_BlockNum recvMsg \<noteq> cs_blockNum s)"

definition isRightBlockNumCheck :: "FBFTMessage \<Rightarrow> 'c Consensus \<Rightarrow> bool" where
  "isRightBlockNumCheck recvMsg s =
     (if fm_BlockNum recvMsg < cs_blockNum s then False
      else if MaxBlockNumDiff < fm_BlockNum recvMsg - cs_blockNum s then False
      else True)"

definition onAnnounceSanityChecks :: "FBFTMessage \<Rightarrow> 'c Consensus \<Rightarrow> bool" where
  "onAnnounceSanityChecks recvMsg s =
     (let logMsgs = GetMessagesByTypeSeqView ANNOUNCE (fm_BlockNum recvMsg) (fm_ViewID recvMsg) (cs_FBFTLog s)
      in if 0 < length logMsgs \<and> (\<not> HasSingleSender (logMsgs ! 0) \<or> \<not> HasSingleSender recvMsg) then False
         else isRightBlockNumCheck recvMsg s)"

definition onPreparedSanityChecks :: "'c env \<Rightarrow> Block \<Rightarrow> FBFTMessage \<Rightarrow> 'c Consensus \<Rightarrow> bool" where
  "onPreparedSanityChecks E blockObj recvMsg s =
     (if Block_NumberU64 blockObj \<noteq> fm_BlockNum recvMsg \<or> fm_BlockNum recvMsg < cs_blockNum s then False
      else if Header_Hash (ev_crypto E) (bk_header blockObj) \<noteq> fm_BlockHash recvMsg then False
      else True)"

section \<open>Constructing messages\<close>

definition state_parse_lib :: "'c env \<Rightarrow> 'c Consensus \<Rightarrow> parse_lib" where
  "state_parse_lib E s =
     \<lparr>pl_BytesToBLSPublicKey = ev_BytesToBLSPublicKey E,
      pl_GetSignedPubKeysFromBitmap = ml_GetSignedPubKeysFromBitmap (ev_mask E) (cs_multiSigBitmap s)\<rparr>"

definition constructQuorumSigAndBitmap :: "'c env \<Rightarrow> Phase \<Rightarrow> 'c Consensus \<Rightarrow> bytes" where
  "constructQuorumSigAndBitmap E p s =
     (let aggSig = AggregateVotes (ev_bls E) (dc_store (cs_Decider s)) p;
          bitmap = (\<lambda>m. case m of None \<Rightarrow> [] | Some m \<Rightarrow> mk_Bitmap m)
      in if p = Prepare then ev_Serialize E aggSig @ bitmap (cs_prepareBitmap s)
         else if p = Commit then ev_Serialize E aggSig @ bitmap (cs_commitBitmap s)
         else [])"

definition populateMessageFields :: "hash \<Rightarrow> 'c Consensus \<Rightarrow> ConsensusRequest" where
  "populateMessageFields blockHash s =
     \<lparr>cq_ViewId = cs_blockViewID s, cq_BlockNum = cs_blockNum s, cq_ShardId = cs_ShardID s,
      cq_BlockHash = be_bytes 32 blockHash, cq_Block = [], cq_SenderPubkey = [], cq_Payload = [],
      cq_SenderPubkeyBitmap = []\<rparr>"

definition populateMessageFieldsAndSender :: "hash \<Rightarrow> blskey \<Rightarrow> 'c Consensus \<Rightarrow> ConsensusRequest" where
  "populateMessageFieldsAndSender blockHash pubKey s =
     (populateMessageFields blockHash s)\<lparr>cq_SenderPubkey := be_bytes 48 pubKey\<rparr>"

definition populateMessageFieldsAndSendersBitmap :: "hash \<Rightarrow> bytes \<Rightarrow> 'c Consensus \<Rightarrow> ConsensusRequest" where
  "populateMessageFieldsAndSendersBitmap blockHash bitmap s =
     (populateMessageFields blockHash s)\<lparr>cq_SenderPubkeyBitmap := bitmap\<rparr>"

definition sum_signatures :: "'c env \<Rightarrow> PrivateKeyWrapper list \<Rightarrow> bytes \<Rightarrow> bls_sign" where
  "sum_signatures E priKeys payload =
     fold (\<lambda>k sig. case ev_SignHash E (sk_Pri k) payload of None \<Rightarrow> sig | Some s \<Rightarrow> ev_SignAdd E sig s)
       priKeys (ev_ZeroSign E)"

text \<open>
  The switch on the message type. A single key names the sender; several keys are a bitmap over the
  committee.
\<close>

definition construct_request ::
  "'c env \<Rightarrow> MessageType \<Rightarrow> bytes \<Rightarrow> PrivateKeyWrapper list \<Rightarrow> 'c Consensus \<Rightarrow> ConsensusRequest option" where
  "construct_request E p payloadForSign priKeys s =
     (let base = (if length priKeys = 1
                  then Some (populateMessageFieldsAndSender (cs_blockHash s) (pk_Bytes (sk_Pub (priKeys ! 0))) s)
                  else (case ml_NewMask (ev_mask E) (Participants (dc_store (cs_Decider s))) of
                          None \<Rightarrow> None
                        | Some m \<Rightarrow>
                            (let m = fold (\<lambda>k m. case ml_SetKey (ev_mask E) m (pk_Bytes (sk_Pub k)) of
                                                   None \<Rightarrow> m | Some m' \<Rightarrow> m') priKeys m
                             in Some (populateMessageFieldsAndSendersBitmap (cs_blockHash s) (mk_Bitmap m) s))))
      in map_option
           (\<lambda>r. if p = ANNOUNCE then r\<lparr>cq_Payload := be_bytes 32 (cs_blockHash s)\<rparr>
                else if p = PREPARE then r\<lparr>cq_Payload := ev_Serialize E (sum_signatures E priKeys (cq_BlockHash r))\<rparr>
                else if p = COMMIT then r\<lparr>cq_Payload := ev_Serialize E (sum_signatures E priKeys payloadForSign)\<rparr>
                else if p = PREPARED then
                  r\<lparr>cq_Block := cs_block s, cq_Payload := constructQuorumSigAndBitmap E Prepare s\<rparr>
                else if p = COMMITTED then r\<lparr>cq_Payload := constructQuorumSigAndBitmap E Commit s\<rparr>
                else r) base)"

datatype construct_error = NoPrivateKeys | MaskFailed | SignOrMarshalFailed

text \<open>
  When the message cannot be parsed back, the code returns a nil message with the nil error of the
  marshalling step: \<open>Inr None\<close>.
\<close>

definition construct ::
  "'c env \<Rightarrow> MessageType \<Rightarrow> bytes \<Rightarrow> PrivateKeyWrapper list \<Rightarrow> 'c Consensus
     \<Rightarrow> construct_error + NetworkMessage option" where
  "construct E p payloadForSign priKeys s =
     (if length priKeys = 0 then Inl NoPrivateKeys
      else (case construct_request E p payloadForSign priKeys s of
              None \<Rightarrow> Inl MaskFailed
            | Some request \<Rightarrow>
                (let message = \<lparr>ms_ServiceType = 0, ms_Type = p, ms_Signature = [], ms_Consensus = Some request\<rparr>;
                     needMsgSig = (p \<noteq> PREPARE \<and> p \<noteq> COMMIT);
                     signed = (if needMsgSig then signAndMarshalConsensusMessage E message (sk_Pri (priKeys ! 0))
                               else map_option (\<lambda>bs. (message, bs)) (ev_Marshal E message))
                 in case signed of
                      None \<Rightarrow> Inl SignOrMarshalFailed
                    | Some (message, marshaled) \<Rightarrow>
                        (case ParseFBFTMessage (state_parse_lib E s) message of
                           Inl _ \<Rightarrow> Inr None
                         | Inr FBFTMsg \<Rightarrow>
                             Inr (Some \<lparr>nm_MessageType = p, nm_Bytes = ConstructConsensusMessage marshaled,
                                        nm_FBFTMsg = FBFTMsg, nm_OptionalAggregateSignature = None\<rparr>)))))"

end
