(* ===== verification/Consensus.thy ===== *)
theory Consensus
  imports Consensus_State
begin

text \<open>
  The handlers of a consensus node: the leader's side (\<open>consensus/leader.go\<close>,
  \<open>consensus/threshold.go\<close>), the validator's side (\<open>consensus/validator.go\<close>), the check for double
  signing (\<open>consensus/double_sign.go\<close>), committing and catching up and the routing of messages
  (\<open>consensus/consensus.go\<close>) and the update of the committee (\<open>consensus/consensus_service.go\<close>).
\<close>

section \<open>Helpers\<close>

definition crash :: "'c Consensus \<Rightarrow> 'c Consensus" where
  "crash s = s\<lparr>cs_crashed := True\<rparr>"

definition shard_groups :: "'c Consensus \<Rightarrow> string list" where
  "shard_groups s = [NewGroupIDByShardID (cs_ShardID s)]"

definition send_with_retry :: "u64 \<Rightarrow> MessageType \<Rightarrow> bytes \<Rightarrow> 'c Consensus \<Rightarrow> 'c Consensus" where
  "send_with_retry n t bs s =
     s\<lparr>cs_msgSender := SendWithRetry n t (shard_groups s) (ConstructMessage bs) (cs_msgSender s)\<rparr>"

definition stop_retry :: "MessageType \<Rightarrow> 'c Consensus \<Rightarrow> 'c Consensus" where
  "stop_retry t s = s\<lparr>cs_msgSender := StopRetry t (cs_msgSender s)\<rparr>"

definition phase_bitmap :: "Phase \<Rightarrow> 'c Consensus \<Rightarrow> Mask option" where
  "phase_bitmap p s = (if p = Prepare then cs_prepareBitmap s else cs_commitBitmap s)"

definition set_phase_bitmap :: "Phase \<Rightarrow> Mask \<Rightarrow> 'c Consensus \<Rightarrow> 'c Consensus" where
  "set_phase_bitmap p m s =
     (if p = Prepare then s\<lparr>cs_prepareBitmap := Some m\<rparr> else s\<lparr>cs_commitBitmap := Some m\<rparr>)"

abbreviation block_hash :: "'c env \<Rightarrow> Block \<Rightarrow> hash" where
  "block_hash E b \<equiv> fst (Block_Hash (ev_crypto E) b)"

definition commit_payload :: "'c env \<Rightarrow> Block \<Rightarrow> bytes" where
  "commit_payload E blockObj =
     ConstructCommitPayload E (ev_Epoch E blockObj) (block_hash E blockObj) (Block_NumberU64 blockObj) 0"

text \<open>
  The leader votes with each of its own keys: the key is set in the bitmap of the phase, and a vote
  with its signature is added. A key outside the mask is skipped; a vote that is refused ends the
  loop, and the result is \<open>False\<close>. A nil bitmap or a nil signature is dereferenced.
\<close>

fun leader_votes ::
  "'c env \<Rightarrow> Phase \<Rightarrow> bytes \<Rightarrow> hash \<Rightarrow> u64 \<Rightarrow> PrivateKeyWrapper list \<Rightarrow> 'c Consensus \<Rightarrow> bool \<times> 'c Consensus" where
  "leader_votes E p payload h n [] s = (True, s)"
| "leader_votes E p payload h n (key # rest) s =
     (case phase_bitmap p s of
        None \<Rightarrow> (False, crash s)
      | Some m \<Rightarrow>
          (case ml_SetKey (ev_mask E) m (pk_Bytes (sk_Pub key)) of
             None \<Rightarrow> leader_votes E p payload h n rest s
           | Some m' \<Rightarrow>
               (let s = set_phase_bitmap p m' s
                in case ev_SignHash E (sk_Pri key) payload of
                     None \<Rightarrow> (False, crash s)
                   | Some sig \<Rightarrow>
                       (case AddNewVote (ev_bls E) p [sk_Pub key] sig h n 0 (cs_Decider s) of
                          Inl _ \<Rightarrow> (False, s)
                        | Inr (_, d) \<Rightarrow> leader_votes E p payload h n rest (s\<lparr>cs_Decider := d\<rparr>)))))"

section \<open>Committee updates\<close>

definition committee_to_set :: "'c env \<Rightarrow> 'c Consensus \<Rightarrow> (nat \<times> PublicKeyWrapper list) option" where
  "committee_to_set E s =
     (let Ep = ev_epochs E; c = cs_Blockchain s; curEpoch = eo_curEpoch Ep c in
      case (if eo_curIsLastBlockInEpoch Ep c then eo_curShardStateEpoch Ep c else Some None) of
        None \<Rightarrow> None
      | Some e \<Rightarrow>
          (let nextEpoch = (case e of None \<Rightarrow> curEpoch + 1 | Some e \<Rightarrow> e) in
           if \<not> eo_ReadFromDB Ep c curEpoch then None
           else if eo_curIsLastBlockInEpoch Ep c \<and> 0 < eo_curNumber Ep c
           then (if \<not> eo_ReadFromDB Ep c nextEpoch then None else eo_FindCommittee Ep c nextEpoch)
           else eo_FindCommittee Ep c curEpoch))"

definition UpdateConsensusInformation :: "'c env \<Rightarrow> 'c Consensus \<Rightarrow> Mode \<times> 'c Consensus" where
  "UpdateConsensusInformation E s =
     (case committee_to_set E s of
        None \<Rightarrow> (Syncing, s)
      | Some (slots, pubKeys) \<Rightarrow>
          (let hasError = (slots = 0);
               oldLeader = cs_LeaderPubKey s;
               s = snd (UpdatePublicKeys E pubKeys s);
               myPubKeys = GetPublicKeys (cs_priKey s)
           in if list_ex (\<lambda>key. PublicKeys_Contains (ev_bls E) myPubKeys (pk_Object key)) pubKeys
              then if hasError then (Syncing, s)
                   else (Normal,
                         (case (oldLeader, cs_LeaderPubKey s) of
                            (Some old, Some new) \<Rightarrow>
                              if \<not> bl_IsEqual (ev_bls E) (pk_Object new) (pk_Object old) \<and> IsLeader E s = Some True
                              then spawn (SignalReady SyncProposal) s else s
                          | _ \<Rightarrow> s))
              else (Listening, s)))"

section \<open>Committing a block\<close>

definition SetupForNewConsensus :: "'c env \<Rightarrow> Block \<Rightarrow> FBFTMessage \<Rightarrow> 'c Consensus \<Rightarrow> 'c Consensus" where
  "SetupForNewConsensus E blk committedMsg s =
     (let s = s\<lparr>cs_blockNum := Block_NumberU64 blk + 1, cs_LeaderPubKey := Some (fm_SenderPubkeys committedMsg ! 0)\<rparr>;
          s = (if ev_IsLastBlockInEpoch E blk
               then (let r = UpdateConsensusInformation E s in SetMode (fst r) (snd r)) else s);
          s = s\<lparr>cs_FBFTLog := PruneCacheBeforeBlock (Block_NumberU64 blk) (cs_FBFTLog s)\<rparr>
      in ResetState E s)"

definition commitBlock :: "'c env \<Rightarrow> Block \<Rightarrow> FBFTMessage \<Rightarrow> 'c Consensus \<Rightarrow> bool \<times> 'c Consensus" where
  "commitBlock E blk committedMsg s =
     (case (if co_CurrentNumber (ev_chain E) (cs_Blockchain s) < Block_NumberU64 blk
            then co_InsertChain (ev_chain E) blk (cs_Blockchain s) else Some (cs_Blockchain s)) of
        None \<Rightarrow> (False, s)
      | Some chain \<Rightarrow>
          (let s = s\<lparr>cs_Blockchain := chain\<rparr>
           in if \<not> HasSingleSender committedMsg then (False, s)
              else (True, SetupForNewConsensus E blk committedMsg (FinishFinalityCount s))))"

text \<open>What follows the commit in \<open>finalCommit\<close>: sending, timers and signals.\<close>

definition finish_commit :: "'c env \<Rightarrow> Block \<Rightarrow> NetworkMessage \<Rightarrow> 'c Consensus \<Rightarrow> 'c Consensus" where
  "finish_commit E block network s =
     (case IsLeader E s of
        None \<Rightarrow> crash s
      | Some leader \<Rightarrow>
          (let s = (if \<not> leader \<or> ev_IsLastBlockInEpoch E block
                    then (let s = send_with_retry (Block_NumberU64 block) COMMITTED (nm_Bytes network) s
                          in s\<lparr>cs_timeoutConsensus := Timeout_Start (cs_now s) (cs_timeoutConsensus s)\<rparr>)
                    else s\<lparr>cs_msgSender := DelayedSendWithRetry (Block_NumberU64 block) COMMITTED (shard_groups s)
                             (ConstructMessage (nm_Bytes network)) (cs_msgSender s)\<rparr>);
               s = (if Timeout_IsActive (cs_timeoutBootstrap s)
                    then s\<lparr>cs_timeoutBootstrap := Timeout_Stop (cs_now s) (cs_timeoutBootstrap s)\<rparr> else s)
           in if leader
              then if ev_IsLastBlockInEpoch E block then spawn (SignalReady SyncProposal) s
                   else spawn (SendCommitSig (fm_Payload (nm_FBFTMsg network))) s
              else s))"

definition finalCommit :: "'c env \<Rightarrow> 'c Consensus \<Rightarrow> 'c Consensus" where
  "finalCommit E s =
     (if cs_LeaderPubKey s = None then crash s
      else (case GetConsensusLeaderPrivateKey E s of
        None \<Rightarrow> s
      | Some leaderPriKey \<Rightarrow>
          (case construct E COMMITTED [] [leaderPriKey] s of
             Inl _ \<Rightarrow> s
           | Inr None \<Rightarrow> crash s
           | Inr (Some network) \<Rightarrow>
               (let FBFTMsg = nm_FBFTMsg network;
                    s = s\<lparr>cs_FBFTLog := AddVerifiedMessage FBFTMsg (cs_FBFTLog s)\<rparr>
                in case GetBlockByHash (cs_blockHash s) (cs_FBFTLog s) of
                     None \<Rightarrow> s
                   | Some block \<Rightarrow>
                       (let s = s\<lparr>cs_Blockchain :=
                                   co_WriteCommitSig (ev_chain E) (Block_NumberU64 block) (fm_Payload FBFTMsg) (cs_Blockchain s)\<rparr>;
                            block = SetCurrentCommitSig (fm_Payload FBFTMsg) block;
                            s = snd (commitBlock E block FBFTMsg s)
                        in finish_commit E block network s)))))"

definition preCommitAndPropose :: "'c env \<Rightarrow> Block \<Rightarrow> 'c Consensus \<Rightarrow> 'c Consensus" where
  "preCommitAndPropose E blk s =
     (if cs_LeaderPubKey s = None then crash s
      else (case GetConsensusLeaderPrivateKey E s of
        None \<Rightarrow> s
      | Some leaderPriKey \<Rightarrow>
          (case construct E COMMITTED [] [leaderPriKey] s of
             Inl _ \<Rightarrow> s
           | Inr None \<Rightarrow> crash s
           | Inr (Some network) \<Rightarrow> spawn (PreCommit blk network) s)))"

text \<open>The goroutine of \<open>preCommitAndPropose\<close>.\<close>

definition run_PreCommit :: "'c env \<Rightarrow> Block \<Rightarrow> NetworkMessage \<Rightarrow> 'c Consensus \<Rightarrow> 'c Consensus" where
  "run_PreCommit E blk network s =
     (let FBFTMsg = nm_FBFTMsg network;
          s = s\<lparr>cs_FBFTLog := AddVerifiedMessage FBFTMsg (cs_FBFTLog s)\<rparr>;
          blk = SetCurrentCommitSig (fm_Payload FBFTMsg) blk
      in case co_InsertChain (ev_chain E) blk (cs_Blockchain s) of
           None \<Rightarrow> s
         | Some chain \<Rightarrow>
             (let s = send_with_retry (Block_NumberU64 blk) COMMITTED (nm_Bytes network) (s\<lparr>cs_Blockchain := chain\<rparr>);
                  s = s\<lparr>cs_timeoutConsensus := Timeout_Start (cs_now s) (cs_timeoutConsensus s)\<rparr>
              in spawn (SignalReady AsyncProposal) s))"

section \<open>Catching up\<close>

text \<open>
  The loop over consecutive block numbers. The fuel of the definition below, one more than the
  number of logged messages, is enough: \<open>last_mile_terminates\<close>.
\<close>

fun last_mile :: "nat \<Rightarrow> u64 \<Rightarrow> FBFTLog \<Rightarrow> (Block \<times> FBFTMessage) list option" where
  "last_mile 0 blockNum log = None"
| "last_mile (Suc n) blockNum log =
     (case GetCommittedBlockAndMsgsFromNumber blockNum log of
        None \<Rightarrow> Some []
      | Some bm \<Rightarrow> map_option (\<lambda>rest. bm # rest) (last_mile n (blockNum + 1) log))"

definition getLastMileBlocksAndMsg :: "u64 \<Rightarrow> FBFTLog \<Rightarrow> (Block \<times> FBFTMessage) list" where
  "getLastMileBlocksAndMsg bnStart log =
     (case last_mile (Suc (length (fl_messages log))) bnStart log of None \<Rightarrow> [] | Some bms \<Rightarrow> bms)"

fun catchup_loop :: "'c env \<Rightarrow> (Block \<times> FBFTMessage) list \<Rightarrow> 'c Consensus \<Rightarrow> 'c Consensus" where
  "catchup_loop E [] s = s"
| "catchup_loop E ((blk, msg) # rest) s =
     (let blk = SetCurrentCommitSig (fm_Payload msg) blk;
          verified = IsBlockVerified (ev_crypto E) blk (cs_FBFTLog s)
      in if \<not> verified \<and> \<not> ev_BlockVerifier E blk then s
         else let s = (if \<not> verified then s\<lparr>cs_FBFTLog := MarkBlockVerified (ev_crypto E) blk (cs_FBFTLog s)\<rparr> else s)
              in let r = commitBlock E blk msg s
                 in if \<not> fst r then snd r
                    else catchup_loop E rest (spawn (NewVerifiedBlock blk) (snd r)))"

definition postCatchup :: "u64 \<Rightarrow> 'c Consensus \<Rightarrow> 'c Consensus" where
  "postCatchup initBN s = (if initBN < cs_blockNum s then switchPhase FBFTAnnounce s else s)"

definition tryCatchup :: "'c env \<Rightarrow> 'c Consensus \<Rightarrow> 'c Consensus" where
  "tryCatchup E s =
     (if \<not> cs_hasBlockVerifier s then s
      else postCatchup (cs_blockNum s)
             (catchup_loop E (getLastMileBlocksAndMsg (cs_blockNum s) (cs_FBFTLog s)) s))"

section \<open>Iterating over the last mile\<close>

record LastMileBlockIter =
  it_blockCandidates :: "Block list"
  it_curIndex :: nat

definition GetLastMileBlockIter :: "u64 \<Rightarrow> 'c Consensus \<Rightarrow> LastMileBlockIter option" where
  "GetLastMileBlockIter bnStart s =
     (if \<not> cs_hasBlockVerifier s then None
      else Some \<lparr>it_blockCandidates = map fst (getLastMileBlocksAndMsg bnStart (cs_FBFTLog s)), it_curIndex = 0\<rparr>)"

definition iter_Next :: "'c env \<Rightarrow> LastMileBlockIter \<Rightarrow> FBFTLog \<Rightarrow> Block option \<times> LastMileBlockIter \<times> FBFTLog" where
  "iter_Next E it log =
     (if length (it_blockCandidates it) \<le> it_curIndex it then (None, it, log)
      else let block = it_blockCandidates it ! it_curIndex it;
               it = it\<lparr>it_curIndex := it_curIndex it + 1\<rparr>
           in if \<not> IsBlockVerified (ev_crypto E) block log
              then if \<not> ev_BlockVerifier E block then (None, it, log)
                   else (Some block, it, MarkBlockVerified (ev_crypto E) block log)
              else (Some block, it, log))"

section \<open>The leader\<close>

definition announce :: "'c env \<Rightarrow> Block \<Rightarrow> 'c Consensus \<Rightarrow> 'c Consensus" where
  "announce E block s =
     (case ev_EncodeBlock E block of
        None \<Rightarrow> s
      | Some encodedBlock \<Rightarrow>
          (let s = s\<lparr>cs_blockHash := block_hash E block, cs_block := encodedBlock\<rparr>
           in if cs_LeaderPubKey s = None then crash s
              else case GetConsensusLeaderPrivateKey E s of
                     None \<Rightarrow> s
                   | Some key \<Rightarrow>
                       (case construct E ANNOUNCE [] [key] s of
                          Inl _ \<Rightarrow> s
                        | Inr None \<Rightarrow> crash s
                        | Inr (Some network) \<Rightarrow>
                            (let s = s\<lparr>cs_FBFTLog := AddBlock (ev_crypto E) block
                                        (AddVerifiedMessage (nm_FBFTMsg network) (cs_FBFTLog s))\<rparr>
                             in let r = leader_votes E Prepare (be_bytes 32 (cs_blockHash s)) (block_hash E block)
                                          (Block_NumberU64 block) (cs_priKey s) s
                                in if \<not> fst r then snd r
                                   else let s = snd r
                                        in switchPhase FBFTPrepare
                                             (send_with_retry (cs_blockNum s) ANNOUNCE (nm_Bytes network) s)))))"

definition didReachPrepareQuorum :: "'c env \<Rightarrow> 'c Consensus \<Rightarrow> bool \<times> 'c Consensus" where
  "didReachPrepareQuorum E s =
     (if cs_LeaderPubKey s = None then (False, crash s)
      else case GetConsensusLeaderPrivateKey E s of
        None \<Rightarrow> (False, s)
      | Some leaderPriKey \<Rightarrow>
          (case construct E PREPARED [] [leaderPriKey] s of
             Inl _ \<Rightarrow> (False, s)
           | Inr None \<Rightarrow> (False, crash s)
           | Inr (Some network) \<Rightarrow>
               (let s = s\<lparr>cs_aggregatedPrepareSig := nm_OptionalAggregateSignature network,
                          cs_FBFTLog := AddVerifiedMessage (nm_FBFTMsg network) (cs_FBFTLog s)\<rparr>
                in case ev_DecodeBlock E (cs_block s) of
                     None \<Rightarrow> (False, s)
                   | Some blockObj \<Rightarrow>
                       (let r = leader_votes E Commit (commit_payload E blockObj) (block_hash E blockObj)
                                  (Block_NumberU64 blockObj) (cs_priKey s) s
                        in if \<not> fst r then (False, snd r)
                           else let s = snd r
                                in (True, stop_retry COMMITTED (stop_retry ANNOUNCE
                                      (send_with_retry (cs_blockNum s) PREPARED (nm_Bytes network) s)))))))"

definition onPrepare :: "'c env \<Rightarrow> FBFTMessage \<Rightarrow> 'c Consensus \<Rightarrow> 'c Consensus" where
  "onPrepare E recvMsg s =
     (if list_ex (\<lambda>signer. ReadBallot (dc_store (cs_Decider s)) Prepare (pk_Bytes signer) \<noteq> None) (fm_SenderPubkeys recvMsg)
      then s
      else if IsQuorumAchieved (cs_Decider s) Prepare then s
      else case ev_Deserialize E (fm_Payload recvMsg) of
             None \<Rightarrow> s
           | Some sign \<Rightarrow>
               if \<not> ev_VerifyHash E sign (signer_key E recvMsg) (be_bytes 32 (cs_blockHash s)) then s
               else (case AddNewVote (ev_bls E) Prepare (fm_SenderPubkeys recvMsg) sign (fm_BlockHash recvMsg)
                            (fm_BlockNum recvMsg) (fm_ViewID recvMsg) (cs_Decider s) of
                       Inl _ \<Rightarrow> s
                     | Inr (_, d) \<Rightarrow>
                         (let s = s\<lparr>cs_Decider := d\<rparr>
                          in case cs_prepareBitmap s of
                               None \<Rightarrow> crash s
                             | Some m \<Rightarrow>
                                 (case ml_SetKeysAtomic (ev_mask E) m (fm_SenderPubkeys recvMsg) of
                                    None \<Rightarrow> s
                                  | Some m' \<Rightarrow>
                                      (let s = s\<lparr>cs_prepareBitmap := Some m'\<rparr>
                                       in if IsQuorumAchieved (cs_Decider s) Prepare
                                          then (let r = didReachPrepareQuorum E s
                                                in if \<not> fst r then snd r else switchPhase FBFTCommit (snd r))
                                          else s)))))"

section \<open>Double signing\<close>

definition couldThisBeADoubleSigner :: "FBFTMessage \<Rightarrow> 'c Consensus \<Rightarrow> bool" where
  "couldThisBeADoubleSigner recvMsg s \<longleftrightarrow>
     \<not> HasMatchingAnnounce (cs_blockNum s) (fm_BlockHash recvMsg) (cs_FBFTLog s) \<or>
     \<not> HasMatchingPrepared (cs_blockNum s) (fm_BlockHash recvMsg) (cs_FBFTLog s)"

text \<open>
  The search for evidence, from the inner loop over blocks to the outer one over senders. The flag
  of a result tells whether the search was given up by a return.
\<close>

definition make_evidence ::
  "'c env \<Rightarrow> FBFTMessage \<Rightarrow> Ballot \<Rightarrow> bls_sign \<Rightarrow> address \<Rightarrow> address \<Rightarrow> slash_record" where
  "make_evidence E recvMsg ballot doubleSign offender reporter =
     \<lparr>sl_FirstVote = \<lparr>sv_SignerPubKeys = sort (SignerPubKeys ballot), sv_BlockHeaderHash = BlockHeaderHash ballot,
                      sv_Signature = Signature ballot\<rparr>,
      sl_SecondVote = \<lparr>sv_SignerPubKeys = sort (map pk_Bytes (fm_SenderPubkeys recvMsg)),
                       sv_BlockHeaderHash = fm_BlockHash recvMsg,
                       sv_Signature = bl_Hex2Bytes (ev_bls E) (bl_SerializeToHexStr (ev_bls E) doubleSign)\<rparr>,
      sl_Height = fm_BlockNum recvMsg, sl_ViewID = fm_ViewID recvMsg, sl_Offender = offender, sl_Reporter = reporter\<rparr>"

fun ds_blocks ::
  "'c env \<Rightarrow> 'c Consensus \<Rightarrow> FBFTMessage \<Rightarrow> Ballot \<Rightarrow> blskey \<Rightarrow> address list \<Rightarrow> Block list
     \<Rightarrow> bool \<times> slash_record list \<times> address list" where
  "ds_blocks E s recvMsg ballot key addrSet [] = (False, [], addrSet)"
| "ds_blocks E s recvMsg ballot key addrSet (blk # rest) =
     (if big_Uint64 (hd_Number (bk_header blk)) = fm_BlockNum recvMsg \<and>
         Header_Hash (ev_crypto E) (bk_header blk) \<noteq> fm_BlockHash recvMsg
      then (case ev_Deserialize E (fm_Payload recvMsg) of
              None \<Rightarrow> (True, [], addrSet)
            | Some doubleSign \<Rightarrow>
                (case eo_AddressForBLSKey (ev_epochs E) (cs_Blockchain s) key of
                   None \<Rightarrow> (True, [], addrSet)
                 | Some addr \<Rightarrow>
                     if addr \<in> set addrSet then (False, [], addrSet)
                     else (case cs_LeaderPubKey s of
                             None \<Rightarrow> (True, [], addrSet)
                           | Some leader \<Rightarrow>
                               (case eo_AddressForBLSKey (ev_epochs E) (cs_Blockchain s) (pk_Bytes leader) of
                                  None \<Rightarrow> (True, [], addrSet)
                                | Some leaderAddr \<Rightarrow>
                                    (False, [make_evidence E recvMsg ballot doubleSign addr leaderAddr], addr # addrSet)))))
      else ds_blocks E s recvMsg ballot key addrSet rest)"

fun ds_ballot_keys ::
  "'c env \<Rightarrow> 'c Consensus \<Rightarrow> FBFTMessage \<Rightarrow> Ballot \<Rightarrow> blskey \<Rightarrow> address list \<Rightarrow> blskey list
     \<Rightarrow> bool \<times> slash_record list \<times> address list" where
  "ds_ballot_keys E s recvMsg ballot key addrSet [] = (False, [], addrSet)"
| "ds_ballot_keys E s recvMsg ballot key addrSet (pubKey1 # rest) =
     (if key = pubKey1
      then (case ds_blocks E s recvMsg ballot key addrSet (GetBlocksByNumber (fm_BlockNum recvMsg) (cs_FBFTLog s)) of
              (True, ev, addrSet) \<Rightarrow> (True, ev, addrSet)
            | (False, ev, addrSet) \<Rightarrow>
                (case ds_ballot_keys E s recvMsg ballot key addrSet rest of
                   (stop, ev', addrSet) \<Rightarrow> (stop, ev @ ev', addrSet)))
      else ds_ballot_keys E s recvMsg ballot key addrSet rest)"

fun ds_senders ::
  "'c env \<Rightarrow> 'c Consensus \<Rightarrow> FBFTMessage \<Rightarrow> address list \<Rightarrow> PublicKeyWrapper list \<Rightarrow> slash_record list" where
  "ds_senders E s recvMsg addrSet [] = []"
| "ds_senders E s recvMsg addrSet (pubKey2 # rest) =
     (case ReadBallot (dc_store (cs_Decider s)) Commit (pk_Bytes pubKey2) of
        None \<Rightarrow> ds_senders E s recvMsg addrSet rest
      | Some ballot \<Rightarrow>
          (case ds_ballot_keys E s recvMsg ballot (pk_Bytes pubKey2) addrSet (SignerPubKeys ballot) of
             (True, ev, addrSet) \<Rightarrow> ev
           | (False, ev, addrSet) \<Rightarrow> ev @ ds_senders E s recvMsg addrSet rest))"

definition checkDoubleSign :: "'c env \<Rightarrow> FBFTMessage \<Rightarrow> 'c Consensus \<Rightarrow> bool \<times> 'c Consensus" where
  "checkDoubleSign E recvMsg s =
     (if couldThisBeADoubleSigner recvMsg s
      then (True, fold (\<lambda>ev. spawn (Slash ev)) (ds_senders E s recvMsg [] (fm_SenderPubkeys recvMsg)) s)
      else (False, s))"

section \<open>Commit votes\<close>

definition onCommit :: "'c env \<Rightarrow> FBFTMessage \<Rightarrow> 'c Consensus \<Rightarrow> 'c Consensus" where
  "onCommit E recvMsg s =
     (if \<not> isRightBlockNumAndViewID recvMsg s then s
      else if list_ex (\<lambda>signer. ReadBallot (dc_store (cs_Decider s)) Commit (pk_Bytes signer) \<noteq> None) (fm_SenderPubkeys recvMsg)
      then s
      else let quorumWasMet = IsQuorumAchieved (cs_Decider s) Commit in
        case ev_Deserialize E (fm_Payload recvMsg) of
          None \<Rightarrow> s
        | Some sign \<Rightarrow>
            (case GetBlockByHash (fm_BlockHash recvMsg) (cs_FBFTLog s) of
               None \<Rightarrow> s
             | Some blockObj \<Rightarrow>
                 if \<not> ev_VerifyHash E sign (signer_key E recvMsg) (commit_payload E blockObj) then s
                 else (let r = checkDoubleSign E recvMsg s
                       in if fst r then snd r
                          else let s = snd r in
                           (case AddNewVote (ev_bls E) Commit (fm_SenderPubkeys recvMsg) sign (fm_BlockHash recvMsg)
                                   (fm_BlockNum recvMsg) 0 (cs_Decider s) of
                              Inl _ \<Rightarrow> s
                            | Inr (_, d) \<Rightarrow>
                                (let s = s\<lparr>cs_Decider := d\<rparr>
                                 in case cs_commitBitmap s of
                                      None \<Rightarrow> crash s
                                    | Some m \<Rightarrow>
                                        (case ml_SetKeysAtomic (ev_mask E) m (fm_SenderPubkeys recvMsg) of
                                           None \<Rightarrow> s
                                         | Some m' \<Rightarrow>
                                             (let s = s\<lparr>cs_commitBitmap := Some m'\<rparr>
                                              in if IsAllSigsCollected (cs_Decider s)
                                                 then stop_retry PREPARED (finalCommit E s)
                                                 else if \<not> quorumWasMet \<and> IsQuorumAchieved (cs_Decider s) Commit
                                                 then (let viewID = cs_blockViewID s;
                                                           s = (if \<not> ev_IsLastBlockInEpoch E blockObj
                                                                then preCommitAndPropose E blockObj s else s)
                                                       in stop_retry PREPARED (spawn (GracePeriod viewID) s))
                                                 else s)))))))"

text \<open>The goroutine that \<open>onCommit\<close> starts, after its sleep.\<close>

definition run_GracePeriod :: "'c env \<Rightarrow> u64 \<Rightarrow> 'c Consensus \<Rightarrow> 'c Consensus" where
  "run_GracePeriod E viewID s = (if viewID = cs_blockViewID s then finalCommit E s else s)"

definition selfCommit :: "'c env \<Rightarrow> bytes \<Rightarrow> 'c Consensus \<Rightarrow> bool \<times> 'c Consensus" where
  "selfCommit E payload s =
     (let blockHash = be_word (take 32 payload)
      in if length payload < 32 then (False, crash s)
         else case GetBlockByHash blockHash (cs_FBFTLog s) of
           None \<Rightarrow> (False, s)
         | Some block \<Rightarrow>
             (case ReadSignatureBitmapPayload E payload 32 s of
                None \<Rightarrow> (False, s)
              | Some (aggSig, m) \<Rightarrow>
                  (let s = (switchPhase FBFTCommit (ResetState E s))
                             \<lparr>cs_blockHash := blockHash, cs_aggregatedPrepareSig := Some aggSig, cs_prepareBitmap := Some m\<rparr>;
                       s = fold (\<lambda>key s.
                                   snd (leader_votes E Commit (commit_payload E block) (cs_blockHash s)
                                          (Block_NumberU64 block) [key] s)) (cs_priKey s) s
                   in (True, s))))"

section \<open>The validator\<close>

definition constructP2pMessages ::
  "'c env \<Rightarrow> MessageType \<Rightarrow> bytes \<Rightarrow> PrivateKeyWrapper list \<Rightarrow> 'c Consensus \<Rightarrow> NetworkMessage option list" where
  "constructP2pMessages E msgType payloadForSign priKeys s =
     (if cs_AggregateSig s
      then (case construct E msgType payloadForSign priKeys s of Inl _ \<Rightarrow> [] | Inr nm \<Rightarrow> [nm])
      else concat (map (\<lambda>key. case construct E msgType payloadForSign [key] s of Inl _ \<Rightarrow> [] | Inr nm \<Rightarrow> [nm]) priKeys))"

fun broadcastConsensusP2pMessages :: "NetworkMessage option list \<Rightarrow> 'c Consensus \<Rightarrow> 'c Consensus" where
  "broadcastConsensusP2pMessages [] s = s"
| "broadcastConsensusP2pMessages (nm # rest) s =
     (if cs_mode s \<noteq> Listening
      then (case nm of
              None \<Rightarrow> crash s
            | Some m \<Rightarrow>
                broadcastConsensusP2pMessages rest
                  (s\<lparr>cs_msgSender := SendWithoutRetry (shard_groups s) (ConstructMessage (nm_Bytes m)) (cs_msgSender s)\<rparr>))
      else broadcastConsensusP2pMessages rest s)"

definition prepare :: "'c env \<Rightarrow> 'c Consensus \<Rightarrow> 'c Consensus" where
  "prepare E s =
     (let p2pMsgs = constructP2pMessages E PREPARE [] (getPriKeysInCommittee s) s
      in switchPhase FBFTPrepare (broadcastConsensusP2pMessages p2pMsgs s))"

definition sendCommitMessages :: "'c env \<Rightarrow> Block \<Rightarrow> 'c Consensus \<Rightarrow> 'c Consensus" where
  "sendCommitMessages E blockObj s =
     (let p2pMsgs = constructP2pMessages E COMMIT (commit_payload E blockObj) (getPriKeysInCommittee s) s
      in broadcastConsensusP2pMessages p2pMsgs s)"

text \<open>On a parse error the log line reads the block number of the nil message.\<close>

definition onAnnounce :: "'c env \<Rightarrow> Message \<Rightarrow> 'c Consensus \<Rightarrow> 'c Consensus" where
  "onAnnounce E msg s =
     (case ParseFBFTMessage (state_parse_lib E s) msg of
        Inl _ \<Rightarrow> crash s
      | Inr recvMsg \<Rightarrow>
          if \<not> onAnnounceSanityChecks recvMsg s then s
          else (let s = StartFinalityCount s;
                    s = s\<lparr>cs_FBFTLog := AddVerifiedMessage recvMsg (cs_FBFTLog s), cs_blockHash := fm_BlockHash recvMsg\<rparr>
                in prepare E s))"

definition onPrepared :: "'c env \<Rightarrow> FBFTMessage \<Rightarrow> 'c Consensus \<Rightarrow> 'c Consensus" where
  "onPrepared E recvMsg s =
     (if fm_BlockNum recvMsg < cs_blockNum s then s
      else let s = (if cs_blockNum s < fm_BlockNum recvMsg then spinUpStateSync s else s) in
        case ReadSignatureBitmapPayload E (fm_Payload recvMsg) 0 s of
          None \<Rightarrow> s
        | Some (aggSig, m) \<Rightarrow>
            if \<not> IsQuorumAchievedByMask (cs_Decider s) (Some (mk_Bitmap m)) then s
            else if \<not> ev_VerifyHash E aggSig (mk_AggregatePublic m) (be_bytes 32 (fm_BlockHash recvMsg)) then s
            else (case ev_DecodeBlock E (fm_Block recvMsg) of
                    None \<Rightarrow> s
                  | Some blockObj \<Rightarrow>
                      if \<not> onPreparedSanityChecks E blockObj recvMsg s then s
                      else (let s = s\<lparr>cs_FBFTLog := AddVerifiedMessage (recvMsg\<lparr>fm_Block := []\<rparr>)
                                        (AddBlock (ev_crypto E) blockObj (cs_FBFTLog s)),
                                      cs_block := fm_Block recvMsg\<rparr>
                            in if \<not> cs_hasBlockVerifier s then s
                               else if \<not> ev_BlockVerifier E blockObj then s
                               else (let s = s\<lparr>cs_FBFTLog := MarkBlockVerified (ev_crypto E) blockObj (cs_FBFTLog s)\<rparr>
                                     in if cs_blockNum s < fm_BlockNum recvMsg then s
                                        else spawn (CommittedScan blockObj (cs_blockNum s))
                                               (s\<lparr>cs_aggregatedPrepareSig := Some aggSig, cs_prepareBitmap := Some m,
                                                  cs_blockHash := fm_BlockHash recvMsg\<rparr>)))))"

text \<open>A committed signature with more signers replaces the one on record for the same block.\<close>

definition override_commit_sig :: "'c env \<Rightarrow> Block \<Rightarrow> FBFTMessage \<Rightarrow> Mask \<Rightarrow> 'c Consensus \<Rightarrow> 'c Consensus" where
  "override_commit_sig E blockObj recvMsg m s =
     (case co_ReadCommitSig (ev_chain E) (cs_Blockchain s) (Block_NumberU64 blockObj) of
        None \<Rightarrow> s
      | Some commitSigBitmap \<Rightarrow>
          if length commitSigBitmap = length (fm_Payload recvMsg) \<and>
             co_GetBlockByHash (ev_chain E) (cs_Blockchain s) (block_hash E blockObj) \<noteq> None
          then (let new = ml_CountEnabled (ev_mask E) m;
                    m' = (case ml_SetMask (ev_mask E) m (drop BLSSignatureSizeInBytes commitSigBitmap) of None \<Rightarrow> m | Some m' \<Rightarrow> m');
                    s = s\<lparr>cs_commitBitmap := Some m'\<rparr>
                in if ml_CountEnabled (ev_mask E) m' < new
                   then s\<lparr>cs_Blockchain := co_WriteCommitSig (ev_chain E) (Block_NumberU64 blockObj) (fm_Payload recvMsg) (cs_Blockchain s)\<rparr>
                   else s)
          else s)"

definition onCommitted :: "'c env \<Rightarrow> FBFTMessage \<Rightarrow> 'c Consensus \<Rightarrow> 'c Consensus" where
  "onCommitted E recvMsg s =
     (if fm_BlockNum recvMsg < cs_blockNum s - 1 then s
      else let s = (if cs_blockNum s < fm_BlockNum recvMsg then spinUpStateSync s else s);
               s = s\<lparr>cs_FBFTLog := AddNotVerifiedMessage recvMsg (cs_FBFTLog s)\<rparr> in
        case ReadSignatureBitmapPayload E (fm_Payload recvMsg) 0 s of
          None \<Rightarrow> s
        | Some (aggSig, m) \<Rightarrow>
            if \<not> IsQuorumAchievedByMask (cs_Decider s) (Some (mk_Bitmap m)) then s
            else (case GetBlockByHash (fm_BlockHash recvMsg) (cs_FBFTLog s) of
                    None \<Rightarrow> s
                  | Some blockObj \<Rightarrow>
                      if \<not> ev_VerifyHash E aggSig (mk_AggregatePublic m) (commit_payload E blockObj) then s
                      else (let s = s\<lparr>cs_FBFTLog := AddVerifiedMessage recvMsg (cs_FBFTLog s),
                                      cs_aggregatedCommitSig := Some aggSig, cs_commitBitmap := Some m\<rparr>;
                                s = override_commit_sig E blockObj recvMsg m s;
                                initBn = cs_blockNum s;
                                s = tryCatchup E s
                            in if cs_blockNum s < fm_BlockNum recvMsg then s
                               else (let s = (if Timeout_IsActive (cs_timeoutBootstrap s)
                                              then s\<lparr>cs_timeoutBootstrap := Timeout_Stop (cs_now s) (cs_timeoutBootstrap s)\<rparr>
                                              else s)
                                     in if initBn < cs_blockNum s
                                        then s\<lparr>cs_timeoutConsensus := Timeout_Start (cs_now s) (cs_timeoutConsensus s)\<rparr>
                                        else s))))"

text \<open>The goroutine that \<open>onPrepared\<close> starts.\<close>

fun run_CommittedScan_loop :: "'c env \<Rightarrow> u64 \<Rightarrow> FBFTMessage list \<Rightarrow> 'c Consensus \<Rightarrow> 'c Consensus" where
  "run_CommittedScan_loop E curBlockNum [] s = s"
| "run_CommittedScan_loop E curBlockNum (committedMsg # rest) s =
     (let s = onCommitted E committedMsg s
      in if curBlockNum < cs_blockNum s then s else run_CommittedScan_loop E curBlockNum rest s)"

definition run_CommittedScan :: "'c env \<Rightarrow> Block \<Rightarrow> 'c Consensus \<Rightarrow> 'c Consensus" where
  "run_CommittedScan E blockObj s =
     run_CommittedScan_loop E (cs_blockNum s)
       (GetNotVerifiedCommittedMessages (Block_NumberU64 blockObj) 0 (block_hash E blockObj) (cs_FBFTLog s)) s"

section \<open>Routing\<close>

datatype handle_error = SenderPubKeyNotLeader | VerifyMessageSignature | ParsingFBFTMessage parse_error

definition HandleMessageUpdate ::
  "'c env \<Rightarrow> Message \<Rightarrow> blskey \<Rightarrow> 'c Consensus \<Rightarrow> handle_error option \<times> 'c Consensus" where
  "HandleMessageUpdate E msg senderKey s =
     (let t = ms_Type msg;
          fromLeader = (t = ANNOUNCE \<or> t = PREPARED \<or> t = COMMITTED)
      in if fromLeader \<and> cs_LeaderPubKey s = None then (None, crash s)
         else if fromLeader \<and> senderKey \<noteq> pk_Bytes (the (cs_LeaderPubKey s)) \<and>
                 cs_mode s = Normal \<and> \<not> cs_IgnoreViewIDCheck s
         then (Some SenderPubKeyNotLeader, s)
         else if t \<noteq> PREPARE \<and> t \<noteq> COMMIT \<and> \<not> senderKeySanityChecks E msg senderKey
         then (Some VerifyMessageSignature, s)
         else (case ParseFBFTMessage (state_parse_lib E s) msg of
                 Inl e \<Rightarrow> (Some (ParsingFBFTMessage e), s)
               | Inr fbftMsg \<Rightarrow>
                   (case IsLeader E s of
                      None \<Rightarrow> (None, crash s)
                    | Some leader \<Rightarrow>
                        (None,
                         if t = ANNOUNCE \<and> \<not> leader then onAnnounce E msg s
                         else if t = PREPARED \<and> \<not> leader then onPrepared E fbftMsg s
                         else if t = COMMITTED \<and> \<not> leader then onCommitted E fbftMsg s
                         else if t = PREPARE \<and> leader then onPrepare E fbftMsg s
                         else if t = COMMIT \<and> leader then onCommit E fbftMsg s
                         else s))))"

end
