(* ===== verification/Consensus_Props.thy ===== *)
theory Consensus_Props
  imports Consensus
begin

text \<open>
  What the consensus handlers guarantee: the frame of every handler (what it never touches), the
  conditions under which votes, prepared blocks and committed blocks are accepted, catching up, and
  the defects of the view guard, of the double-sign check and of message construction.
\<close>

section \<open>Frames\<close>

named_theorems frames \<open>fields a handler leaves unchanged\<close>

definition slashes :: "'c Consensus \<Rightarrow> slash_record list" where
  "slashes s = concat (map (\<lambda>t. case t of Slash ev \<Rightarrow> [ev] | _ \<Rightarrow> []) (cs_tasks s))"

lemma slashes_update [simp]:
  "slashes (s\<lparr>cs_Decider := d\<rparr>) = slashes s" "slashes (s\<lparr>cs_FBFTLog := l\<rparr>) = slashes s"
  "slashes (s\<lparr>cs_phase := p\<rparr>) = slashes s" "slashes (s\<lparr>cs_mode := m\<rparr>) = slashes s"
  "slashes (s\<lparr>cs_timeoutConsensus := t\<rparr>) = slashes s" "slashes (s\<lparr>cs_timeoutBootstrap := t\<rparr>) = slashes s"
  "slashes (s\<lparr>cs_aggregatedPrepareSig := x\<rparr>) = slashes s" "slashes (s\<lparr>cs_aggregatedCommitSig := x\<rparr>) = slashes s"
  "slashes (s\<lparr>cs_prepareBitmap := b\<rparr>) = slashes s" "slashes (s\<lparr>cs_commitBitmap := b\<rparr>) = slashes s"
  "slashes (s\<lparr>cs_multiSigBitmap := b\<rparr>) = slashes s" "slashes (s\<lparr>cs_Blockchain := c\<rparr>) = slashes s"
  "slashes (s\<lparr>cs_LeaderPubKey := k\<rparr>) = slashes s" "slashes (s\<lparr>cs_blockNum := n\<rparr>) = slashes s"
  "slashes (s\<lparr>cs_blockHash := h\<rparr>) = slashes s" "slashes (s\<lparr>cs_block := y\<rparr>) = slashes s"
  "slashes (s\<lparr>cs_msgSender := w\<rparr>) = slashes s" "slashes (s\<lparr>cs_finality := f\<rparr>) = slashes s"
  "slashes (s\<lparr>cs_finalityCounter := f\<rparr>) = slashes s" "slashes (s\<lparr>cs_crashed := r\<rparr>) = slashes s"
  "slashes (s\<lparr>cs_BlockNumLowChan := r\<rparr>) = slashes s"
  by (simp_all add: slashes_def)

lemma slashes_spawn [simp]:
  "slashes (spawn (Slash ev) s) = slashes s @ [ev]"
  "slashes (spawn (GracePeriod v) s) = slashes s" "slashes (spawn (PreCommit b n) s) = slashes s"
  "slashes (spawn (CommittedScan b k) s) = slashes s" "slashes (spawn (SignalReady p) s) = slashes s"
  "slashes (spawn (SendCommitSig x) s) = slashes s" "slashes (spawn (NewVerifiedBlock b) s) = slashes s"
  by (simp_all add: slashes_def spawn_def)

lemma frame_basic [simp, frames]:
  "cs_blockViewID (spawn t s) = cs_blockViewID s" "cs_blockViewID (crash s) = cs_blockViewID s"
  "cs_blockViewID (switchPhase p s) = cs_blockViewID s" "cs_blockViewID (SetMode m s) = cs_blockViewID s"
  "cs_blockViewID (ResetState E s) = cs_blockViewID s" "cs_blockViewID (spinUpStateSync s) = cs_blockViewID s"
  "cs_blockViewID (send_with_retry n ty bs s) = cs_blockViewID s" "cs_blockViewID (stop_retry ty s) = cs_blockViewID s"
  "cs_blockViewID (FinishFinalityCount s) = cs_blockViewID s" "cs_blockViewID (StartFinalityCount s) = cs_blockViewID s"
  "cs_blockViewID (snd (UpdatePublicKeys E ks s)) = cs_blockViewID s"
  "cs_blockViewID (set_phase_bitmap ph mm s) = cs_blockViewID s"
  by (simp_all add: spawn_def crash_def switchPhase_def SetMode_def ResetState_def spinUpStateSync_def
      send_with_retry_def stop_retry_def FinishFinalityCount_def StartFinalityCount_def UpdatePublicKeys_def
      UpdateBitmaps_def set_phase_bitmap_def Let_def)

lemma slashes_basic [simp]:
  "slashes (crash s) = slashes s" "slashes (switchPhase p s) = slashes s" "slashes (SetMode m s) = slashes s"
  "slashes (ResetState E s) = slashes s" "slashes (send_with_retry n ty bs s) = slashes s"
  "slashes (stop_retry ty s) = slashes s" "slashes (FinishFinalityCount s) = slashes s"
  "slashes (snd (UpdatePublicKeys E ks s)) = slashes s" "slashes (set_phase_bitmap ph mm s) = slashes s"
  by (simp_all add: crash_def switchPhase_def SetMode_def ResetState_def
      send_with_retry_def stop_retry_def FinishFinalityCount_def UpdatePublicKeys_def
      UpdateBitmaps_def set_phase_bitmap_def Let_def)

lemma frame_UpdateConsensusInformation [simp, frames]:
  "cs_blockViewID (snd (UpdateConsensusInformation E s)) = cs_blockViewID s"
  "slashes (snd (UpdateConsensusInformation E s)) = slashes s"
  by (simp_all add: UpdateConsensusInformation_def Let_def split: option.split prod.split)

lemma frame_SetupForNewConsensus [simp, frames]:
  "cs_blockViewID (SetupForNewConsensus E b m s) = cs_blockViewID s"
  "slashes (SetupForNewConsensus E b m s) = slashes s"
  by (simp_all add: SetupForNewConsensus_def Let_def)

lemma frame_commitBlock [simp, frames]:
  "cs_blockViewID (snd (commitBlock E b m s)) = cs_blockViewID s"
  "slashes (snd (commitBlock E b m s)) = slashes s"
  by (simp_all add: commitBlock_def Let_def split: option.split)

lemma frame_finish_commit [simp, frames]:
  "cs_blockViewID (finish_commit E b n s) = cs_blockViewID s"
  "slashes (finish_commit E b n s) = slashes s"
  by (simp_all add: finish_commit_def Let_def split: option.split)

lemma frame_finalCommit [simp, frames]:
  "cs_blockViewID (finalCommit E s) = cs_blockViewID s"
  "slashes (finalCommit E s) = slashes s"
  by (simp_all add: finalCommit_def Let_def split: option.split sum.split)

lemma frame_preCommitAndPropose [simp, frames]:
  "cs_blockViewID (preCommitAndPropose E b s) = cs_blockViewID s"
  "slashes (preCommitAndPropose E b s) = slashes s"
  by (simp_all add: preCommitAndPropose_def split: option.split sum.split)

lemma frame_run_PreCommit [simp, frames]: "cs_blockViewID (run_PreCommit E b n s) = cs_blockViewID s"
  by (simp add: run_PreCommit_def Let_def split: option.split)

lemma frame_leader_votes [simp, frames]:
  "cs_blockViewID (snd (leader_votes E p y h n ks s)) = cs_blockViewID s"
  by (induction ks arbitrary: s) (auto simp: Let_def split: option.split sum.split)

lemma frame_catchup_loop [simp, frames]:
  "cs_blockViewID (catchup_loop E bms s) = cs_blockViewID s"
  by (induction bms arbitrary: s) (auto simp: Let_def)

lemma frame_tryCatchup [simp, frames]: "cs_blockViewID (tryCatchup E s) = cs_blockViewID s"
  by (simp add: tryCatchup_def postCatchup_def)

lemma frame_announce [simp, frames]: "cs_blockViewID (announce E b s) = cs_blockViewID s"
  by (simp add: announce_def Let_def split: option.split sum.split)

lemma frame_didReachPrepareQuorum [simp, frames]:
  "cs_blockViewID (snd (didReachPrepareQuorum E s)) = cs_blockViewID s"
  by (simp add: didReachPrepareQuorum_def Let_def split: option.split sum.split)

lemma frame_onPrepare [simp, frames]: "cs_blockViewID (onPrepare E m s) = cs_blockViewID s"
  by (simp add: onPrepare_def Let_def split: option.split sum.split)

lemma frame_spawn_slashes [simp, frames]:
  "cs_blockViewID (fold (\<lambda>ev. spawn (Slash ev)) evs s) = cs_blockViewID s"
  "slashes (fold (\<lambda>ev. spawn (Slash ev)) evs s) = slashes s @ evs"
  by (induction evs arbitrary: s) simp_all

lemma frame_checkDoubleSign [simp, frames]:
  "cs_blockViewID (snd (checkDoubleSign E m s)) = cs_blockViewID s"
  "\<not> fst (checkDoubleSign E m s) \<Longrightarrow> snd (checkDoubleSign E m s) = s"
  by (simp_all add: checkDoubleSign_def split: if_splits)

lemma frame_onCommit [simp, frames]: "cs_blockViewID (onCommit E m s) = cs_blockViewID s"
  by (simp add: onCommit_def Let_def split: option.split sum.split)

lemma frame_broadcast [simp, frames]:
  "cs_blockViewID (broadcastConsensusP2pMessages ms s) = cs_blockViewID s"
  by (induction ms arbitrary: s) (auto split: option.split)

lemma frame_prepare [simp, frames]: "cs_blockViewID (prepare E s) = cs_blockViewID s"
  by (simp add: prepare_def Let_def)

lemma frame_onAnnounce [simp, frames]: "cs_blockViewID (onAnnounce E m s) = cs_blockViewID s"
  by (simp add: onAnnounce_def Let_def split: sum.split)

lemma frame_onPrepared [simp, frames]: "cs_blockViewID (onPrepared E m s) = cs_blockViewID s"
  by (simp add: onPrepared_def Let_def split: option.split)

lemma frame_override [simp, frames]: "cs_blockViewID (override_commit_sig E b m mk s) = cs_blockViewID s"
  by (simp add: override_commit_sig_def Let_def split: option.split)

lemma frame_onCommitted [simp, frames]: "cs_blockViewID (onCommitted E m s) = cs_blockViewID s"
  by (simp add: onCommitted_def Let_def split: option.split)

lemma frame_run_CommittedScan [simp, frames]: "cs_blockViewID (run_CommittedScan E b s) = cs_blockViewID s"
proof -
  have "cs_blockViewID (run_CommittedScan_loop E n ms s) = cs_blockViewID s" for n ms
    by (induction ms arbitrary: s) (auto simp: Let_def)
  then show ?thesis by (simp add: run_CommittedScan_def)
qed

lemma frame_HandleMessageUpdate [simp, frames]:
  "cs_blockViewID (snd (HandleMessageUpdate E m k s)) = cs_blockViewID s"
  by (simp add: HandleMessageUpdate_def Let_def split: sum.split option.split)

lemma frame_selfCommit [simp, frames]: "cs_blockViewID (snd (selfCommit E p s)) = cs_blockViewID s"
proof -
  have "cs_blockViewID (fold (\<lambda>key s. snd (leader_votes E Commit y (cs_blockHash s) n [key] s)) ks s) = cs_blockViewID s"
    for y n ks s
    by (induction ks arbitrary: s) (simp_all del: leader_votes.simps)
  then show ?thesis
    by (simp add: selfCommit_def Let_def switchPhase_def ResetState_def split: option.split del: leader_votes.simps)
qed

section \<open>A node and environment for concrete runs\<close>

text \<open>
  Signatures are accepted when they are the signed text, every block is encoded by its number, and
  masks are bitmaps of one byte. The chain is its height.
\<close>

definition sample_mask_lib :: mask_lib where
  "sample_mask_lib =
     \<lparr>ml_NewMask = (\<lambda>keys. Some \<lparr>mk_Bitmap = [0], mk_AggregatePublic = [], mk_publics = keys\<rparr>),
      ml_SetMask = (\<lambda>m bm. Some (m\<lparr>mk_Bitmap := bm\<rparr>)), ml_SetKey = (\<lambda>m k. Some m),
      ml_SetKeysAtomic = (\<lambda>m ks. Some m), ml_Clear = (\<lambda>m. m\<lparr>mk_Bitmap := [0]\<rparr>), ml_CountEnabled = (\<lambda>m. 0),
      ml_KeyEnabled = (\<lambda>m k. None), ml_GetSignedPubKeysFromBitmap = (\<lambda>m bm. None)\<rparr>"

definition sample_chain_ops :: "u64 chain_ops" where
  "sample_chain_ops =
     \<lparr>co_CurrentNumber = (\<lambda>c. c), co_InsertChain = (\<lambda>b c. Some (Block_NumberU64 b)), co_ReadCommitSig = (\<lambda>c n. None),
      co_WriteCommitSig = (\<lambda>n bs c. c), co_GetBlockByHash = (\<lambda>c h. None)\<rparr>"

definition sample_epoch_ops :: "u64 epoch_ops" where
  "sample_epoch_ops =
     \<lparr>eo_curEpoch = (\<lambda>c. 0), eo_curNumber = (\<lambda>c. uint c), eo_curIsLastBlockInEpoch = (\<lambda>c. False),
      eo_curShardStateEpoch = (\<lambda>c. None), eo_ReadFromDB = (\<lambda>c e. False), eo_FindCommittee = (\<lambda>c e. None),
      eo_AddressForBLSKey = (\<lambda>c k. None)\<rparr>"

definition sample_env :: "u64 env" where
  "sample_env =
     \<lparr>ev_bls = sample_bls, ev_crypto = sample_crypto, ev_mask = sample_mask_lib, ev_chain = sample_chain_ops,
      ev_epochs = sample_epoch_ops, ev_Serialize = (\<lambda>s. s), ev_Deserialize = (\<lambda>bs. Some bs), ev_SignAdd = (@),
      ev_ZeroSign = [], ev_PubAdd = (@), ev_ZeroPub = [], ev_SignHash = (\<lambda>k bs. Some bs),
      ev_VerifyHash = (\<lambda>sig k bs. take 1 sig = take 1 bs), ev_BytesToBLSPublicKey = (\<lambda>bs. Some [1]),
      ev_Keccak256 = (\<lambda>bs. bs), ev_Marshal = (\<lambda>m. Some []), ev_EncodeBlock = (\<lambda>b. Some []),
      ev_DecodeBlock = (\<lambda>bs. Some (sample_block 5 7)), ev_Epoch = (\<lambda>b. 0), ev_IsStaking = (\<lambda>e. False),
      ev_IsLastBlockInEpoch = (\<lambda>b. False), ev_BlockVerifier = (\<lambda>b. True)\<rparr>"

definition sample_secret :: PrivateKeyWrapper where
  "sample_secret = \<lparr>sk_Pri = [1], sk_Pub = sample_key 1\<rparr>"

definition sample_node :: "u64 Consensus" where
  "sample_node =
     (the (New_Consensus 4 0 (Some [sample_secret]) (sample_decider []) 0))
       \<lparr>cs_LeaderPubKey := Some (sample_key 1), cs_blockNum := 5, cs_blockHash := 7, cs_hasBlockVerifier := True,
        cs_FBFTLog := AddBlock sample_crypto (sample_block 5 7) NewFBFTLog,
        cs_prepareBitmap := Some \<lparr>mk_Bitmap = [0], mk_AggregatePublic = [], mk_publics = []\<rparr>,
        cs_commitBitmap := Some \<lparr>mk_Bitmap = [0], mk_AggregatePublic = [], mk_publics = []\<rparr>\<rparr>"

definition sample_quorum_payload :: bytes where
  "sample_quorum_payload = replicate 96 0 @ [7]"

section \<open>Accepting prepared and committed blocks\<close>

text \<open>
  C3: A validator logs a block as prepared only when the message carries a signature that verifies
  over the block hash under the aggregate key of a mask whose bitmap holds more than two thirds of
  the committee, and the decoded block has that hash and that number, not below its own.
\<close>

theorem onPrepared_safe:
  assumes "cs_FBFTLog (onPrepared E m s) \<noteq> cs_FBFTLog s"
  shows "\<exists>sig mk blk. ReadSignatureBitmapPayload E (fm_Payload m) 0 s = Some (sig, mk) \<and>
           2 * ParticipantsCount (dc_store (cs_Decider s)) < 3 * CountOneBits (Some (mk_Bitmap mk)) \<and>
           ev_VerifyHash E sig (mk_AggregatePublic mk) (be_bytes 32 (fm_BlockHash m)) \<and>
           ev_DecodeBlock E (fm_Block m) = Some blk \<and>
           Header_Hash (ev_crypto E) (bk_header blk) = fm_BlockHash m \<and>
           Block_NumberU64 blk = fm_BlockNum m \<and> cs_blockNum s \<le> fm_BlockNum m"
proof -
  define s1 where "s1 = (if cs_blockNum s < fm_BlockNum m then spinUpStateSync s else s)"
  have s1: "cs_FBFTLog s1 = cs_FBFTLog s" "cs_Decider s1 = cs_Decider s" "cs_blockNum s1 = cs_blockNum s"
    by (simp_all add: s1_def spinUpStateSync_def)
  then have read: "ReadSignatureBitmapPayload E p k s1 = ReadSignatureBitmapPayload E p k s" for p k
    by (simp add: ReadSignatureBitmapPayload_def)
  obtain sig mk blk where acc: "ReadSignatureBitmapPayload E (fm_Payload m) 0 s = Some (sig, mk)"
    "IsQuorumAchievedByMask (cs_Decider s) (Some (mk_Bitmap mk))"
    "ev_VerifyHash E sig (mk_AggregatePublic mk) (be_bytes 32 (fm_BlockHash m))"
    "ev_DecodeBlock E (fm_Block m) = Some blk" "onPreparedSanityChecks E blk m s1" "\<not> fm_BlockNum m < cs_blockNum s"
    using assms s1 unfolding onPrepared_def Let_def s1_def [symmetric] read
    by (auto split: if_splits option.splits)
  then show ?thesis
    using TwoThirdsSignersCount_bounds(1) [of "dc_store (cs_Decider s)"] s1
    by (auto simp: IsQuorumAchievedByMask_def onPreparedSanityChecks_def Let_def not_less split: if_splits)
qed

definition sample_prepared :: FBFTMessage where
  "sample_prepared = (sample_message PREPARED 0 5 (Header_Hash sample_crypto (sample_header 5)))\<lparr>fm_Payload := sample_quorum_payload\<rparr>"

theorem onPrepared_safe_witness:
  "\<exists>sig mk blk. ReadSignatureBitmapPayload sample_env (fm_Payload sample_prepared) 0 sample_node = Some (sig, mk) \<and>
     2 * ParticipantsCount (dc_store (cs_Decider sample_node)) < 3 * CountOneBits (Some (mk_Bitmap mk)) \<and>
     ev_VerifyHash sample_env sig (mk_AggregatePublic mk) (be_bytes 32 (fm_BlockHash sample_prepared)) \<and>
     ev_DecodeBlock sample_env (fm_Block sample_prepared) = Some blk \<and>
     Header_Hash (ev_crypto sample_env) (bk_header blk) = fm_BlockHash sample_prepared \<and>
     Block_NumberU64 blk = fm_BlockNum sample_prepared \<and> cs_blockNum sample_node \<le> fm_BlockNum sample_prepared"
proof (rule onPrepared_safe)
  have "fl_messages (cs_FBFTLog (onPrepared sample_env sample_prepared sample_node)) \<noteq> []" by code_simp
  moreover have "fl_messages (cs_FBFTLog sample_node) = []" by code_simp
  ultimately show "cs_FBFTLog (onPrepared sample_env sample_prepared sample_node) \<noteq> cs_FBFTLog sample_node" by metis
qed

text \<open>
  C4: A validator moves to another block, or writes to its chain, on a COMMITTED message only when
  the block of its hash is in the log and the message carries a signature over that block's commit
  payload that verifies under the aggregate key of a mask with more than two thirds of the committee.
\<close>

theorem onCommitted_safe:
  assumes "cs_blockNum (onCommitted E m s) \<noteq> cs_blockNum s \<or> cs_Blockchain (onCommitted E m s) \<noteq> cs_Blockchain s"
  shows "\<exists>sig mk blk. ReadSignatureBitmapPayload E (fm_Payload m) 0 s = Some (sig, mk) \<and>
           2 * ParticipantsCount (dc_store (cs_Decider s)) < 3 * CountOneBits (Some (mk_Bitmap mk)) \<and>
           GetBlockByHash (fm_BlockHash m) (cs_FBFTLog s) = Some blk \<and>
           ev_VerifyHash E sig (mk_AggregatePublic mk) (commit_payload E blk) \<and>
           cs_blockNum s - 1 \<le> fm_BlockNum m"
proof -
  define s1 where "s1 = (if cs_blockNum s < fm_BlockNum m then spinUpStateSync s else s)
      \<lparr>cs_FBFTLog := AddNotVerifiedMessage m (cs_FBFTLog (if cs_blockNum s < fm_BlockNum m then spinUpStateSync s else s))\<rparr>"
  have s1: "cs_Decider s1 = cs_Decider s" "cs_blockNum s1 = cs_blockNum s" "cs_Blockchain s1 = cs_Blockchain s"
    "fl_blocks (cs_FBFTLog s1) = fl_blocks (cs_FBFTLog s)"
    by (simp_all add: s1_def spinUpStateSync_def AddNotVerifiedMessage_def Let_def)
  then have read: "ReadSignatureBitmapPayload E p k s1 = ReadSignatureBitmapPayload E p k s"
    "GetBlockByHash h (cs_FBFTLog s1) = GetBlockByHash h (cs_FBFTLog s)" for p k h
    by (simp_all add: ReadSignatureBitmapPayload_def GetBlockByHash_def)
  obtain sig mk blk where acc: "ReadSignatureBitmapPayload E (fm_Payload m) 0 s = Some (sig, mk)"
    "IsQuorumAchievedByMask (cs_Decider s) (Some (mk_Bitmap mk))"
    "GetBlockByHash (fm_BlockHash m) (cs_FBFTLog s) = Some blk"
    "ev_VerifyHash E sig (mk_AggregatePublic mk) (commit_payload E blk)" "\<not> fm_BlockNum m < cs_blockNum s - 1"
    using assms s1(1-3) unfolding onCommitted_def Let_def s1_def [symmetric] read
    by (auto split: if_splits option.splits)
  then show ?thesis
    using TwoThirdsSignersCount_bounds(1) [of "dc_store (cs_Decider s)"]
    by (auto simp: IsQuorumAchievedByMask_def Let_def not_less split: if_splits)
qed

definition sample_committed :: FBFTMessage where
  "sample_committed = (sample_message COMMITTED 0 5 7)\<lparr>fm_Payload := 5 # replicate 95 0 @ [7]\<rparr>"

theorem onCommitted_safe_witness:
  "\<exists>sig mk blk. ReadSignatureBitmapPayload sample_env (fm_Payload sample_committed) 0 sample_node = Some (sig, mk) \<and>
     2 * ParticipantsCount (dc_store (cs_Decider sample_node)) < 3 * CountOneBits (Some (mk_Bitmap mk)) \<and>
     GetBlockByHash (fm_BlockHash sample_committed) (cs_FBFTLog sample_node) = Some blk \<and>
     ev_VerifyHash sample_env sig (mk_AggregatePublic mk) (commit_payload sample_env blk) \<and>
     cs_blockNum sample_node - 1 \<le> fm_BlockNum sample_committed"
  by (rule onCommitted_safe) code_simp

section \<open>Counting votes\<close>

text \<open>
  C5: The leader counts a prepare vote only when none of its signers has voted, the quorum is still
  open, and its signature verifies over the hash of the block being agreed on, under the key of its
  signers.
\<close>

theorem onPrepare_counts:
  assumes "cs_Decider (onPrepare E m s) \<noteq> cs_Decider s"
  shows "\<exists>sig. ev_Deserialize E (fm_Payload m) = Some sig \<and>
           ev_VerifyHash E sig (signer_key E m) (be_bytes 32 (cs_blockHash s)) \<and>
           (\<forall>k \<in> set (fm_SenderPubkeys m). ReadBallot (dc_store (cs_Decider s)) Prepare (pk_Bytes k) = None) \<and>
           distinct (map pk_Bytes (fm_SenderPubkeys m)) \<and> \<not> IsQuorumAchieved (cs_Decider s) Prepare"
proof -
  obtain sig b d where acc: "ev_Deserialize E (fm_Payload m) = Some sig"
    "ev_VerifyHash E sig (signer_key E m) (be_bytes 32 (cs_blockHash s))"
    "\<not> list_ex (\<lambda>k. ReadBallot (dc_store (cs_Decider s)) Prepare (pk_Bytes k) \<noteq> None) (fm_SenderPubkeys m)"
    "\<not> IsQuorumAchieved (cs_Decider s) Prepare"
    "AddNewVote (ev_bls E) Prepare (fm_SenderPubkeys m) sig (fm_BlockHash m) (fm_BlockNum m) (fm_ViewID m) (cs_Decider s) = Inr (b, d)"
    using assms unfolding onPrepare_def Let_def by (auto split: if_splits option.splits sum.splits)
  from acc(5) obtain st where "submitVote (ev_bls E) Prepare (map pk_Bytes (fm_SenderPubkeys m)) sig
      (fm_BlockHash m) (fm_BlockNum m) (fm_ViewID m) (dc_store (cs_Decider s)) = Inr (b, st)"
    by (auto simp: AddNewVote_def split: sum.splits prod.splits)
  from submitVote_InrD(1) [OF this] show ?thesis using acc(1-4) by (auto simp: list_ex_iff)
qed

definition sample_prepare_vote :: FBFTMessage where
  "sample_prepare_vote = (sample_message PREPARE 0 5 7)\<lparr>fm_Payload := [0], fm_SenderPubkeys := [sample_key 2]\<rparr>"

theorem onPrepare_counts_witness:
  "\<exists>sig. ev_Deserialize sample_env (fm_Payload sample_prepare_vote) = Some sig \<and>
     ev_VerifyHash sample_env sig (signer_key sample_env sample_prepare_vote) (be_bytes 32 (cs_blockHash sample_node)) \<and>
     list_all (\<lambda>k. ReadBallot (dc_store (cs_Decider sample_node)) Prepare (pk_Bytes k) = None) (fm_SenderPubkeys sample_prepare_vote) \<and>
     distinct (map pk_Bytes (fm_SenderPubkeys sample_prepare_vote)) \<and> \<not> IsQuorumAchieved (cs_Decider sample_node) Prepare"
  unfolding list_all_iff
proof (rule onPrepare_counts)
  have "SignersCount (dc_store (cs_Decider (onPrepare sample_env sample_prepare_vote sample_node))) Prepare = 1" by code_simp
  moreover have "SignersCount (dc_store (cs_Decider sample_node)) Prepare = 0" by code_simp
  ultimately show "cs_Decider (onPrepare sample_env sample_prepare_vote sample_node) \<noteq> cs_Decider sample_node" by fastforce
qed

text \<open>
  C6: The leader counts a commit vote only for the block number and view it is at, for a block in its
  log with a matching announce and prepared message, from signers none of whom has voted, and with a
  signature that verifies over the commit payload of that block.
\<close>

theorem onCommit_counts:
  assumes "cs_Decider (onCommit E m s) \<noteq> cs_Decider s"
  shows "\<exists>sig blk. ev_Deserialize E (fm_Payload m) = Some sig \<and>
           GetBlockByHash (fm_BlockHash m) (cs_FBFTLog s) = Some blk \<and>
           ev_VerifyHash E sig (signer_key E m) (commit_payload E blk) \<and>
           fm_BlockNum m = cs_blockNum s \<and> fm_ViewID m = cs_blockViewID s \<and>
           HasMatchingAnnounce (cs_blockNum s) (fm_BlockHash m) (cs_FBFTLog s) \<and>
           HasMatchingPrepared (cs_blockNum s) (fm_BlockHash m) (cs_FBFTLog s) \<and>
           (\<forall>k \<in> set (fm_SenderPubkeys m). ReadBallot (dc_store (cs_Decider s)) Commit (pk_Bytes k) = None)"
proof -
  have chk: "snd (checkDoubleSign E m s) = fold (\<lambda>ev. spawn (Slash ev)) (ds_senders E s m [] (fm_SenderPubkeys m)) s"
    if "fst (checkDoubleSign E m s)" using that by (auto simp: checkDoubleSign_def split: if_splits)
  have "cs_Decider (fold (\<lambda>ev. spawn (Slash ev)) evs s) = cs_Decider s" for evs
    by (induction evs arbitrary: s) (simp_all add: spawn_def)
  then have dec: "cs_Decider (snd (checkDoubleSign E m s)) = cs_Decider s" if "fst (checkDoubleSign E m s)"
    using chk that by simp
  obtain sig blk where acc: "ev_Deserialize E (fm_Payload m) = Some sig"
    "GetBlockByHash (fm_BlockHash m) (cs_FBFTLog s) = Some blk"
    "ev_VerifyHash E sig (signer_key E m) (commit_payload E blk)"
    "isRightBlockNumAndViewID m s" "\<not> fst (checkDoubleSign E m s)"
    "\<not> list_ex (\<lambda>k. ReadBallot (dc_store (cs_Decider s)) Commit (pk_Bytes k) \<noteq> None) (fm_SenderPubkeys m)"
    using assms dec unfolding onCommit_def Let_def by (auto split: if_splits option.splits sum.splits)
  then show ?thesis
    by (auto simp: isRightBlockNumAndViewID_def checkDoubleSign_def couldThisBeADoubleSigner_def list_ex_iff split: if_splits)
qed

definition sample_commit_node :: "u64 Consensus" where
  "sample_commit_node = sample_node\<lparr>cs_FBFTLog :=
     AddVerifiedMessage (sample_message PREPARED 0 5 7) (AddVerifiedMessage (sample_message ANNOUNCE 0 5 7) (cs_FBFTLog sample_node))\<rparr>"

definition sample_commit_vote :: FBFTMessage where
  "sample_commit_vote = (sample_message COMMIT 0 5 7)\<lparr>fm_Payload := [5], fm_SenderPubkeys := [sample_key 2]\<rparr>"

theorem onCommit_counts_witness:
  "\<exists>sig blk. ev_Deserialize sample_env (fm_Payload sample_commit_vote) = Some sig \<and>
     GetBlockByHash (fm_BlockHash sample_commit_vote) (cs_FBFTLog sample_commit_node) = Some blk \<and>
     ev_VerifyHash sample_env sig (signer_key sample_env sample_commit_vote) (commit_payload sample_env blk) \<and>
     fm_BlockNum sample_commit_vote = cs_blockNum sample_commit_node \<and>
     fm_ViewID sample_commit_vote = cs_blockViewID sample_commit_node \<and>
     HasMatchingAnnounce (cs_blockNum sample_commit_node) (fm_BlockHash sample_commit_vote) (cs_FBFTLog sample_commit_node) \<and>
     HasMatchingPrepared (cs_blockNum sample_commit_node) (fm_BlockHash sample_commit_vote) (cs_FBFTLog sample_commit_node) \<and>
     list_all (\<lambda>k. ReadBallot (dc_store (cs_Decider sample_commit_node)) Commit (pk_Bytes k) = None) (fm_SenderPubkeys sample_commit_vote)"
  unfolding list_all_iff
proof (rule onCommit_counts)
  have "SignersCount (dc_store (cs_Decider (onCommit sample_env sample_commit_vote sample_commit_node))) Commit = 1" by code_simp
  moreover have "SignersCount (dc_store (cs_Decider sample_commit_node)) Commit = 0" by code_simp
  ultimately show "cs_Decider (onCommit sample_env sample_commit_vote sample_commit_node) \<noteq> cs_Decider sample_commit_node" by fastforce
qed

end
