(* ===== verification/Tx_List.thy ===== *)
theory Tx_List
  imports Tx_Types Go_Heap
begin

text \<open>
  The per-account transaction lists of the pool (\<open>core/tx_list.go\<close>): the nonce heap, the sorted map
  \<open>txSortedMap\<close> built on it and the \<open>txList\<close> with its price bump and its cost and gas caps.

  \<open>by_nonce\<close>, the transactions sorted by nonce, is the abstraction of a sorted map. Its operations
  are proved to refine the obvious functions on that list, under the invariant \<open>sm_ok\<close>: items are
  stored under their nonce, the index is a heap of exactly those nonces, and a cache, when there is
  one, is the sorted list. The locale \<open>nonce_list\<close> is the interface the rest of the pool relies on.

  Where the code reads the item of a nonce taken from the index, an absent item would be a nil
  transaction; index and items have the same nonces, and the model appends nothing there.
\<close>

section \<open>The nonce heap and the sorted map\<close>

definition nonceHeap_Less :: "u64 \<Rightarrow> u64 \<Rightarrow> bool" where
  "nonceHeap_Less a b \<longleftrightarrow> a < b"

record txSortedMap =
  sm_items :: "(u64, Transaction) gomap"
  sm_index :: "u64 list"
  sm_cache :: "Transaction list option"

definition newTxSortedMap :: txSortedMap where
  "newTxSortedMap = \<lparr>sm_items = [], sm_index = [], sm_cache = None\<rparr>"

definition sm_Get :: "u64 \<Rightarrow> txSortedMap \<Rightarrow> Transaction option" where
  "sm_Get nonce m = mget (sm_items m) nonce"

definition sm_Put :: "Transaction \<Rightarrow> txSortedMap \<Rightarrow> txSortedMap" where
  "sm_Put tx m =
     (let nonce = tx_Nonce tx;
          m = (if mget (sm_items m) nonce = None
               then m\<lparr>sm_index := heap_push nonceHeap_Less (sm_index m) nonce\<rparr> else m)
      in m\<lparr>sm_items := mput nonce tx (sm_items m), sm_cache := None\<rparr>)"

definition item_at :: "u64 \<Rightarrow> (u64, Transaction) gomap \<Rightarrow> Transaction list" where
  "item_at nonce items = (case mget items nonce of None \<Rightarrow> [] | Some tx \<Rightarrow> [tx])"

function forward_loop ::
  "u64 \<Rightarrow> (u64, Transaction) gomap \<Rightarrow> u64 list \<Rightarrow> Transaction list \<times> (u64, Transaction) gomap \<times> u64 list" where
  "forward_loop threshold items index =
     (if index \<noteq> [] \<and> index ! 0 < threshold
      then (let popped = heap_pop nonceHeap_Less index; nonce = fst popped;
                rest = forward_loop threshold (mdel nonce items) (snd popped)
            in (item_at nonce items @ fst rest, snd rest))
      else ([], items, index))"
  by pat_completeness auto
termination
  by (relation "measure (\<lambda>(threshold, items, index). length index)") (auto simp: heap_pop_length)

definition sm_Forward :: "u64 \<Rightarrow> txSortedMap \<Rightarrow> Transaction list \<times> txSortedMap" where
  "sm_Forward threshold m =
     (let r = forward_loop threshold (sm_items m) (sm_index m); removed = fst r
      in (removed, m\<lparr>sm_items := fst (snd r), sm_index := snd (snd r),
                     sm_cache := map_option (drop (length removed)) (sm_cache m)\<rparr>))"

definition sm_reheap :: "txSortedMap \<Rightarrow> txSortedMap" where
  "sm_reheap m = m\<lparr>sm_index := heap_init nonceHeap_Less (map fst (sm_items m)), sm_cache := None\<rparr>"

text \<open>\<open>filter\<close>, which leaves the index as it is, and \<open>Filter\<close>, which rebuilds it.\<close>

definition sm_filter :: "(Transaction \<Rightarrow> bool) \<Rightarrow> txSortedMap \<Rightarrow> Transaction list \<times> txSortedMap" where
  "sm_filter f m =
     (let removed = map snd (filter (\<lambda>(nonce, tx). f tx) (sm_items m));
          m = m\<lparr>sm_items := filter (\<lambda>(nonce, tx). \<not> f tx) (sm_items m)\<rparr>
      in (removed, if 0 < length removed then m\<lparr>sm_cache := None\<rparr> else m))"

definition sm_Filter :: "(Transaction \<Rightarrow> bool) \<Rightarrow> txSortedMap \<Rightarrow> Transaction list \<times> txSortedMap" where
  "sm_Filter f m =
     (let r = sm_filter f m; removed = fst r
      in (removed, if 0 < length removed then sm_reheap (snd r) else snd r))"

text \<open>
  The loop of \<open>Cap\<close> runs over the sorted index from its end. A negative threshold, or an index
  shorter than the items, makes it read out of range: a panic, \<open>None\<close>.
\<close>

fun cap_loop ::
  "nat \<Rightarrow> nat \<Rightarrow> u64 list \<Rightarrow> (u64, Transaction) gomap \<Rightarrow> Transaction list \<times> (u64, Transaction) gomap" where
  "cap_loop threshold 0 index items = ([], items)"
| "cap_loop threshold (Suc n) index items =
     (if threshold < Suc n
      then (let nonce = index ! n; rest = cap_loop threshold n index (mdel nonce items)
            in (item_at nonce items @ fst rest, snd rest))
      else ([], items))"

definition sm_Cap :: "int \<Rightarrow> txSortedMap \<Rightarrow> (Transaction list \<times> txSortedMap) option" where
  "sm_Cap threshold m =
     (if int (length (sm_items m)) \<le> threshold then Some ([], m)
      else if threshold < 0 \<or> length (sm_index m) < length (sm_items m) then None
      else (let index = sort (sm_index m);
                r = cap_loop (nat threshold) (length (sm_items m)) index (sm_items m); drops = fst r
            in Some (drops, m\<lparr>sm_items := snd r,
                              sm_index := heap_init nonceHeap_Less (take (nat threshold) index),
                              sm_cache := map_option (\<lambda>c. take (length c - length drops) c) (sm_cache m)\<rparr>)))"

fun index_of :: "u64 \<Rightarrow> u64 list \<Rightarrow> nat option" where
  "index_of nonce [] = None"
| "index_of nonce (x # xs) = (if x = nonce then Some 0 else map_option Suc (index_of nonce xs))"

definition sm_Remove :: "u64 \<Rightarrow> txSortedMap \<Rightarrow> bool \<times> txSortedMap" where
  "sm_Remove nonce m =
     (if mget (sm_items m) nonce = None then (False, m)
      else (True,
            m\<lparr>sm_index := (case index_of nonce (sm_index m) of
                             None \<Rightarrow> sm_index m
                           | Some i \<Rightarrow> snd (heap_remove nonceHeap_Less (sm_index m) i)),
              sm_items := mdel nonce (sm_items m), sm_cache := None\<rparr>))"

function ready_loop ::
  "u64 \<Rightarrow> (u64, Transaction) gomap \<Rightarrow> u64 list \<Rightarrow> Transaction list \<times> (u64, Transaction) gomap \<times> u64 list" where
  "ready_loop nxt items index =
     (if index \<noteq> [] \<and> index ! 0 = nxt
      then (let rest = ready_loop (nxt + 1) (mdel nxt items) (snd (heap_pop nonceHeap_Less index))
            in (item_at nxt items @ fst rest, snd rest))
      else ([], items, index))"
  by pat_completeness auto
termination
  by (relation "measure (\<lambda>(nxt, items, index). length index)") (auto simp: heap_pop_length)

declare forward_loop.simps [simp del] ready_loop.simps [simp del]

definition sm_Ready :: "u64 \<Rightarrow> txSortedMap \<Rightarrow> Transaction list \<times> txSortedMap" where
  "sm_Ready start m =
     (if length (sm_index m) = 0 \<or> start < sm_index m ! 0 then ([], m)
      else (let r = ready_loop (sm_index m ! 0) (sm_items m) (sm_index m)
            in (fst r, m\<lparr>sm_items := fst (snd r), sm_index := snd (snd r), sm_cache := None\<rparr>)))"

definition sm_Len :: "txSortedMap \<Rightarrow> int" where
  "sm_Len m = int (length (sm_items m))"

definition sm_flatten :: "txSortedMap \<Rightarrow> Transaction list \<times> txSortedMap" where
  "sm_flatten m =
     (case sm_cache m of
        Some c \<Rightarrow> (c, m)
      | None \<Rightarrow> (let c = sort_key (\<lambda>tx. tx_Nonce tx) (map snd (sm_items m)) in (c, m\<lparr>sm_cache := Some c\<rparr>)))"

definition sm_Flatten :: "txSortedMap \<Rightarrow> Transaction list \<times> txSortedMap" where
  "sm_Flatten m = sm_flatten m"

text \<open>On an empty map the last element is read at index \<open>-1\<close>, which panics.\<close>

definition sm_LastElement :: "txSortedMap \<Rightarrow> Transaction option \<times> txSortedMap" where
  "sm_LastElement m =
     (let r = sm_flatten m in (if fst r = [] then None else Some (last (fst r)), snd r))"

section \<open>Account lists\<close>

record txList =
  tl_strict :: bool
  tl_txs :: txSortedMap
  tl_costcap :: int
  tl_gascap :: u64

definition newTxList :: "bool \<Rightarrow> txList" where
  "newTxList strict = \<lparr>tl_strict = strict, tl_txs = newTxSortedMap, tl_costcap = 0, tl_gascap = 0\<rparr>"

definition tl_Overlaps :: "Transaction \<Rightarrow> txList \<Rightarrow> bool" where
  "tl_Overlaps tx l \<longleftrightarrow> sm_Get (tx_Nonce tx) (tl_txs l) \<noteq> None"

text \<open>The price a replacement must reach: \<open>100 + int64(priceBump)\<close> percent, rounded down.\<close>

definition bump_threshold :: "u64 \<Rightarrow> Transaction \<Rightarrow> int" where
  "bump_threshold priceBump old = sint (100 + priceBump) * tx_GasPrice old div 100"

definition tl_Add :: "Transaction \<Rightarrow> u64 \<Rightarrow> txList \<Rightarrow> (bool \<times> Transaction option) \<times> txList" where
  "tl_Add tx priceBump l =
     (let old = sm_Get (tx_Nonce tx) (tl_txs l);
          refused = (case old of
                       None \<Rightarrow> False
                     | Some o' \<Rightarrow> 0 \<le> GasPriceCmp o' tx \<or> GasPriceIntCmp tx (bump_threshold priceBump o') < 0)
      in if refused then ((False, None), l)
         else ((True, old),
               l\<lparr>tl_txs := sm_Put tx (tl_txs l),
                 tl_costcap := (if big_Cmp (tl_costcap l) (tx_Cost tx) < 0 then tx_Cost tx else tl_costcap l),
                 tl_gascap := (if tl_gascap l < tx_Gas tx then tx_Gas tx else tl_gascap l)\<rparr>))"

definition tl_Forward :: "u64 \<Rightarrow> txList \<Rightarrow> Transaction list \<times> txList" where
  "tl_Forward threshold l = (let r = sm_Forward threshold (tl_txs l) in (fst r, l\<lparr>tl_txs := snd r\<rparr>))"

definition lowest_nonce :: "Transaction list \<Rightarrow> u64" where
  "lowest_nonce removed = fold (\<lambda>tx lowest. if tx_Nonce tx < lowest then tx_Nonce tx else lowest) removed (- 1)"

definition tl_Filter :: "int \<Rightarrow> u64 \<Rightarrow> txList \<Rightarrow> (Transaction list \<times> Transaction list) \<times> txList" where
  "tl_Filter costLimit gasLimit l =
     (if big_Cmp (tl_costcap l) costLimit \<le> 0 \<and> tl_gascap l \<le> gasLimit then (([], []), l)
      else
        let r = sm_Filter (\<lambda>tx. gasLimit < tx_Gas tx \<or> 0 < big_Cmp (tx_Cost tx) costLimit) (tl_txs l);
            removed = fst r;
            l = l\<lparr>tl_costcap := costLimit, tl_gascap := gasLimit, tl_txs := snd r\<rparr>
        in if length removed = 0 then (([], []), l)
           else let q = (if tl_strict l
                         then sm_filter (\<lambda>tx. lowest_nonce removed < tx_Nonce tx) (tl_txs l) else ([], tl_txs l))
                in ((removed, fst q), l\<lparr>tl_txs := sm_reheap (snd q)\<rparr>))"

definition tl_Cap :: "int \<Rightarrow> txList \<Rightarrow> (Transaction list \<times> txList) option" where
  "tl_Cap threshold l = map_option (\<lambda>r. (fst r, l\<lparr>tl_txs := snd r\<rparr>)) (sm_Cap threshold (tl_txs l))"

definition tl_Remove :: "Transaction \<Rightarrow> txList \<Rightarrow> (bool \<times> Transaction list) \<times> txList" where
  "tl_Remove tx l =
     (let nonce = tx_Nonce tx; r = sm_Remove nonce (tl_txs l)
      in if \<not> fst r then ((False, []), l)
         else if tl_strict l
         then (let q = sm_Filter (\<lambda>tx. nonce < tx_Nonce tx) (snd r) in ((True, fst q), l\<lparr>tl_txs := snd q\<rparr>))
         else ((True, []), l\<lparr>tl_txs := snd r\<rparr>))"

definition tl_Ready :: "u64 \<Rightarrow> txList \<Rightarrow> Transaction list \<times> txList" where
  "tl_Ready start l = (let r = sm_Ready start (tl_txs l) in (fst r, l\<lparr>tl_txs := snd r\<rparr>))"

definition tl_Len :: "txList \<Rightarrow> int" where
  "tl_Len l = sm_Len (tl_txs l)"

definition tl_Empty :: "txList \<Rightarrow> bool" where
  "tl_Empty l \<longleftrightarrow> tl_Len l = 0"

definition tl_Flatten :: "txList \<Rightarrow> Transaction list \<times> txList" where
  "tl_Flatten l = (let r = sm_Flatten (tl_txs l) in (fst r, l\<lparr>tl_txs := snd r\<rparr>))"

definition tl_LastElement :: "txList \<Rightarrow> Transaction option \<times> txList" where
  "tl_LastElement l = (let r = sm_LastElement (tl_txs l) in (fst r, l\<lparr>tl_txs := snd r\<rparr>))"

section \<open>Sorted by nonce\<close>

abbreviation nonce_of :: "Transaction \<Rightarrow> u64" where
  "nonce_of tx \<equiv> tx_Nonce tx"

definition by_nonce :: "(u64, Transaction) gomap \<Rightarrow> Transaction list" where
  "by_nonce items = sort_key nonce_of (map snd items)"

abbreviation increasing :: "Transaction list \<Rightarrow> bool" where
  "increasing txs \<equiv> sorted_wrt (\<lambda>a b. nonce_of a < nonce_of b) txs"

lemma keyed_entry: "keyed key m \<Longrightarrow> (k, v) \<in> set m \<Longrightarrow> key v = k"
  by (auto simp: keyed_def)

lemma keyed_keys: "keyed key m \<Longrightarrow> map fst m = map (key \<circ> snd) m"
  by (auto simp: keyed_def)

lemma increasing_unique:
  assumes "increasing xs" "increasing ys" "set xs = set ys"
  shows "xs = ys"
proof -
  have "sorted_wrt (<) (map nonce_of xs)" "sorted_wrt (<) (map nonce_of ys)"
    using assms(1,2) by (simp_all add: sorted_wrt_map)
  moreover have "set (map nonce_of xs) = set (map nonce_of ys)" using assms(3) by simp
  ultimately have "map nonce_of xs = map nonce_of ys"
    using strict_sorted_equal by blast
  moreover have "inj_on nonce_of (set xs)"
    using \<open>sorted_wrt (<) (map nonce_of xs)\<close> by (metis distinct_map strict_sorted_iff)
  ultimately show ?thesis using assms(3) by (metis map_inj_on Un_absorb)
qed

lemma by_nonce_increasing:
  assumes "keyed nonce_of items"
  shows "increasing (by_nonce items)" "set (by_nonce items) = snd ` set items"
proof -
  have "distinct (map (nonce_of \<circ> snd) items)"
    using keyed_gomap [OF assms] keyed_keys [OF assms] by (simp add: gomap_ok_def)
  moreover have "mset (map nonce_of (by_nonce items)) = mset (map (nonce_of \<circ> snd) items)"
    by (simp add: by_nonce_def multiset.map_comp)
  ultimately have "distinct (map nonce_of (by_nonce items))"
    by (metis mset_eq_imp_distinct_iff)
  then have "sorted_wrt (<) (map nonce_of (by_nonce items))"
    by (simp add: strict_sorted_iff by_nonce_def)
  then show "increasing (by_nonce items)" by (simp add: sorted_wrt_map)
  show "set (by_nonce items) = snd ` set items" by (simp add: by_nonce_def)
qed

lemma by_nonce_eqI:
  "keyed nonce_of items \<Longrightarrow> increasing xs \<Longrightarrow> set xs = snd ` set items \<Longrightarrow> by_nonce items = xs"
  using increasing_unique by_nonce_increasing by metis

lemma increasing_filter: "increasing xs \<Longrightarrow> increasing (filter P xs)"
  by (simp add: sorted_wrt_filter)

lemma length_by_nonce [simp]: "length (by_nonce items) = length items"
  by (simp add: by_nonce_def)

lemma by_nonce_Nil [simp]: "by_nonce [] = []"
  by (simp add: by_nonce_def)

lemma by_nonce_Nil_iff [simp]: "by_nonce items = [] \<longleftrightarrow> items = []"
  by (metis length_0_conv length_by_nonce)

lemma find_increasing:
  "increasing xs \<Longrightarrow> tx \<in> set xs \<Longrightarrow> find (\<lambda>t. nonce_of t = nonce_of tx) xs = Some tx"
  by (induction xs) auto

lemma mget_by_nonce:
  assumes k: "keyed nonce_of items"
  shows "mget items n = find (\<lambda>tx. nonce_of tx = n) (by_nonce items)"
proof (cases "mget items n")
  case None
  have "nonce_of tx \<noteq> n" if "tx \<in> set (by_nonce items)" for tx
  proof -
    from that obtain a where "(a, tx) \<in> set items" by (auto simp: by_nonce_increasing [OF k])
    then show ?thesis using None keyed_entry [OF k] by (metis image_eqI fst_conv mget_None_iff)
  qed
  then have "find (\<lambda>tx. nonce_of tx = n) (by_nonce items) = None" by (auto simp: find_None_iff)
  then show ?thesis using None by simp
next
  case (Some tx)
  then have "tx \<in> set (by_nonce items)"
    by (auto simp: by_nonce_increasing [OF k] dest: map_of_SomeD intro: rev_image_eqI)
  then show ?thesis
    using find_increasing [OF by_nonce_increasing(1) [OF k], of tx] keyed_mget [OF k Some] Some by simp
qed

lemma by_nonce_mdel:
  assumes "keyed nonce_of items"
  shows "by_nonce (mdel n items) = filter (\<lambda>tx. nonce_of tx \<noteq> n) (by_nonce items)"
proof (rule by_nonce_eqI [OF keyed_mdel [OF assms] increasing_filter [OF by_nonce_increasing(1) [OF assms]]])
  show "set (filter (\<lambda>tx. nonce_of tx \<noteq> n) (by_nonce items)) = snd ` set (mdel n items)"
    using keyed_entry [OF assms] by (force simp: by_nonce_increasing [OF assms] set_mdel)
qed

lemma by_nonce_filter:
  assumes "keyed nonce_of items"
  shows "by_nonce (filter (\<lambda>(n, tx). P tx) items) = filter P (by_nonce items)"
proof (rule by_nonce_eqI [OF keyed_filter [OF assms] increasing_filter [OF by_nonce_increasing(1) [OF assms]]])
  show "set (filter P (by_nonce items)) = snd ` set (filter (\<lambda>(n, tx). P tx) items)"
    by (force simp: by_nonce_increasing(2) [OF assms])
qed

lemma increasing_insort:
  "increasing xs \<Longrightarrow> \<forall>x \<in> set xs. nonce_of x \<noteq> nonce_of tx \<Longrightarrow> increasing (insort_key nonce_of tx xs)"
  by (induction xs) (auto simp: set_insort_key)

lemma by_nonce_mput:
  assumes "keyed nonce_of items"
  shows "by_nonce (mput (nonce_of tx) tx items) =
           insort_key nonce_of tx (filter (\<lambda>t. nonce_of t \<noteq> nonce_of tx) (by_nonce items))"
proof (rule by_nonce_eqI [OF keyed_mput [OF assms refl] increasing_insort])
  show "increasing (filter (\<lambda>t. nonce_of t \<noteq> nonce_of tx) (by_nonce items))"
    by (rule increasing_filter [OF by_nonce_increasing(1) [OF assms]])
  show "set (insort_key nonce_of tx (filter (\<lambda>t. nonce_of t \<noteq> nonce_of tx) (by_nonce items))) =
      snd ` set (mput (nonce_of tx) tx items)"
    using keyed_entry [OF assms]
    by (force simp: set_insort_key by_nonce_increasing [OF assms] set_mput [OF keyed_gomap [OF assms]])
qed simp

section \<open>The index\<close>

interpretation nonce_order: heap_order nonceHeap_Less
  by unfold_locales (auto simp: nonceHeap_Less_def)

definition index_ok :: "(u64, Transaction) gomap \<Rightarrow> u64 list \<Rightarrow> bool" where
  "index_ok items index \<longleftrightarrow>
     keyed nonce_of items \<and> mset index = mset (map fst items) \<and> is_heap nonceHeap_Less index"

lemma index_okD:
  assumes "index_ok items index"
  shows "keyed nonce_of items" "mset index = mset (map fst items)" "is_heap nonceHeap_Less index"
    "length index = length items" "set index = fst ` set items"
proof -
  show "keyed nonce_of items" and m: "mset index = mset (map fst items)" and "is_heap nonceHeap_Less index"
    using assms by (simp_all add: index_ok_def)
  show "length index = length items" using mset_eq_length [OF m] by simp
  show "set index = fst ` set items" using mset_eq_setD [OF m] by simp
qed

lemma mset_keys_mdel:
  assumes "gomap_ok m" "n \<in> fst ` set m"
  shows "mset (map fst m) = add_mset n (mset (map fst (mdel n m)))"
proof -
  have "fst ` {kv \<in> set m. fst kv \<noteq> n} = fst ` set m - {n}" by auto
  then have "mset (map fst m) = mset_set (fst ` set m)" "mset (map fst (mdel n m)) = mset_set (fst ` set m - {n})"
    using mset_set_set [of "map fst m"] mset_set_set [of "map fst (mdel n m)"] assms(1)
      gomap_ok_mdel [OF assms(1), of n] by (simp_all add: gomap_ok_def set_mdel)
  then show ?thesis using mset_set.remove [of "fst ` set m" n] assms(2) by simp
qed

text \<open>Popping the index takes the first transaction of the sorted list.\<close>

lemma index_pop:
  assumes ok: "index_ok items index" and ne: "index \<noteq> []"
  obtains tx rest where "by_nonce items = tx # rest" "index ! 0 = nonce_of tx"
    "fst (heap_pop nonceHeap_Less index) = nonce_of tx" "item_at (nonce_of tx) items = [tx]"
    "by_nonce (mdel (nonce_of tx) items) = rest"
    "index_ok (mdel (nonce_of tx) items) (snd (heap_pop nonceHeap_Less index))"
proof -
  note k = index_okD(1) [OF ok]
  have "items \<noteq> []" using index_okD(4) [OF ok] ne by auto
  then obtain tx rest where l: "by_nonce items = tx # rest" by (cases "by_nonce items") auto
  have inc: "increasing (tx # rest)" using by_nonce_increasing(1) [OF k] l by simp
  have mem: "tx \<in> snd ` set items" using by_nonce_increasing(2) [OF k] l by auto
  have "set index = nonce_of ` snd ` set items"
    using index_okD(5) [OF ok] arg_cong [OF keyed_keys [OF k], of set] by (simp add: image_comp)
  then have keys: "set index = nonce_of ` set (tx # rest)" using by_nonce_increasing(2) [OF k] l by simp
  have "\<not> nonceHeap_Less (index ! i) (index ! 0)" if "i < length index" for i
    using nonce_order.heap_root_least index_okD(3) [OF ok] that by (simp add: is_heap_def)
  then have least: "index ! 0 \<le> n" if "n \<in> set index" for n
    using that by (auto simp: nonceHeap_Less_def in_set_conv_nth not_less)
  have "index ! 0 \<in> set index" using ne by (cases index) auto
  then have "nonce_of tx \<le> index ! 0" using keys inc by (auto simp: less_imp_le)
  then have root: "index ! 0 = nonce_of tx" using least [of "nonce_of tx"] keys by simp
  note pop = nonce_order.heap_pop_correct [OF index_okD(3) [OF ok] ne, of "fst (heap_pop nonceHeap_Less index)"
      "snd (heap_pop nonceHeap_Less index)", simplified]
  have get: "mget items (nonce_of tx) = Some tx" using mem by (simp add: keyed_mget_iff [OF k])
  have "add_mset (nonce_of tx) (mset (map fst (mdel (nonce_of tx) items))) = mset index"
    using mset_keys_mdel [OF keyed_gomap [OF k], of "nonce_of tx"] get index_okD(2) [OF ok]
    by (metis image_eqI fst_conv map_of_SomeD)
  then have "mset (snd (heap_pop nonceHeap_Less index)) = mset (map fst (mdel (nonce_of tx) items))"
    using pop(1,2) root by (metis add_mset_add_mset_same_iff)
  then have "index_ok (mdel (nonce_of tx) items) (snd (heap_pop nonceHeap_Less index))"
    using pop(3) keyed_mdel [OF k] by (simp add: index_ok_def)
  moreover have "by_nonce (mdel (nonce_of tx) items) = rest"
    using inc l by (auto simp: by_nonce_mdel [OF k] filter_id_conv)
  ultimately show thesis using that l root pop get by (simp add: item_at_def)
qed

section \<open>The sorted map refines the sorted list\<close>

definition sm_ok :: "txSortedMap \<Rightarrow> bool" where
  "sm_ok m \<longleftrightarrow> index_ok (sm_items m) (sm_index m) \<and> (\<forall>c. sm_cache m = Some c \<longrightarrow> c = by_nonce (sm_items m))"

abbreviation txs_of :: "txSortedMap \<Rightarrow> Transaction list" where
  "txs_of m \<equiv> by_nonce (sm_items m)"

text \<open>The transactions with consecutive nonces from \<open>n\<close> on, at the front of a list.\<close>

fun run :: "u64 \<Rightarrow> Transaction list \<Rightarrow> Transaction list" where
  "run n [] = []"
| "run n (tx # txs) = (if nonce_of tx = n then tx # run (n + 1) txs else [])"

lemma run_prefix: "run n txs = take (length (run n txs)) txs"
  by (induction n txs rule: run.induct) auto

lemma sm_okD:
  assumes "sm_ok m"
  shows "index_ok (sm_items m) (sm_index m)" "keyed nonce_of (sm_items m)" "sm_cache m = Some c \<Longrightarrow> c = txs_of m"
    "increasing (txs_of m)"
proof -
  show ok: "index_ok (sm_items m) (sm_index m)" using assms by (simp add: sm_ok_def)
  show k: "keyed nonce_of (sm_items m)" by (rule index_okD(1) [OF ok])
  show "increasing (txs_of m)" by (rule by_nonce_increasing(1) [OF k])
  show "sm_cache m = Some c \<Longrightarrow> c = txs_of m" using assms by (simp add: sm_ok_def)
qed

lemma sm_ok_new [simp]: "sm_ok newTxSortedMap" "txs_of newTxSortedMap = []"
  by (simp_all add: sm_ok_def newTxSortedMap_def index_ok_def)

lemma sm_Get_find: "sm_ok m \<Longrightarrow> sm_Get n m = find (\<lambda>tx. nonce_of tx = n) (txs_of m)"
  by (simp add: sm_Get_def mget_by_nonce sm_okD(2))

lemma sm_Put_txs:
  assumes "sm_ok m"
  shows "txs_of (sm_Put tx m) = insort_key nonce_of tx (filter (\<lambda>t. nonce_of t \<noteq> nonce_of tx) (txs_of m))"
  by (simp add: sm_Put_def Let_def by_nonce_mput [OF sm_okD(2) [OF assms]])

lemma sm_ok_Put:
  assumes "sm_ok m"
  shows "sm_ok (sm_Put tx m)"
proof -
  note ok = sm_okD(1) [OF assms]
  have keys: "mset (map fst (mput n tx (sm_items m))) =
      (if mget (sm_items m) n = None then add_mset n (mset (map fst (sm_items m))) else mset (map fst (sm_items m)))" for n
    by (simp add: update_keys map_of_eq_None_iff)
  have "index_ok (sm_items (sm_Put tx m)) (sm_index (sm_Put tx m))"
    using index_okD(1-3) [OF ok] keyed_mput [OF index_okD(1) [OF ok] refl, of tx] keys [of "nonce_of tx"]
      nonce_order.heap_push_heap [of "sm_index m" "nonce_of tx"]
    unfolding index_ok_def sm_Put_def Let_def by (simp split: if_splits)
  then show ?thesis by (simp add: sm_ok_def sm_Put_def Let_def)
qed

lemma forward_loop_correct:
  "index_ok items index \<Longrightarrow>
     fst (forward_loop thr items index) = takeWhile (\<lambda>tx. nonce_of tx < thr) (by_nonce items) \<and>
     by_nonce (fst (snd (forward_loop thr items index))) = dropWhile (\<lambda>tx. nonce_of tx < thr) (by_nonce items) \<and>
     index_ok (fst (snd (forward_loop thr items index))) (snd (snd (forward_loop thr items index)))"
proof (induction thr items index rule: forward_loop.induct)
  case (1 thr items index)
  show ?case
  proof (cases "index = []")
    case True
    then have "items = []" using index_okD(4) [OF "1.prems"] by simp
    then show ?thesis using True "1.prems" by (subst (1 2 3 4) forward_loop.simps) simp
  next
    case False
    from index_pop [OF "1.prems" False] obtain tx rest where p: "by_nonce items = tx # rest"
      "index ! 0 = nonce_of tx" "fst (heap_pop nonceHeap_Less index) = nonce_of tx"
      "item_at (nonce_of tx) items = [tx]" "by_nonce (mdel (nonce_of tx) items) = rest"
      "index_ok (mdel (nonce_of tx) items) (snd (heap_pop nonceHeap_Less index))" .
    show ?thesis
    proof (cases "nonce_of tx < thr")
      case True
      note ih = "1.IH" [OF _ refl refl, simplified p(3), OF _ p(6)]
      show ?thesis using ih False True p by (subst (1 2 3 4) forward_loop.simps) (simp add: Let_def)
    next
      case no: False
      then show ?thesis using False p "1.prems" by (subst (1 2 3 4) forward_loop.simps) simp
    qed
  qed
qed

lemma sm_Forward_correct:
  assumes "sm_ok m"
  shows "fst (sm_Forward thr m) = takeWhile (\<lambda>tx. nonce_of tx < thr) (txs_of m)"
    "txs_of (snd (sm_Forward thr m)) = dropWhile (\<lambda>tx. nonce_of tx < thr) (txs_of m)"
    "sm_ok (snd (sm_Forward thr m))"
proof -
  note loop = forward_loop_correct [OF sm_okD(1) [OF assms], of thr]
  show "fst (sm_Forward thr m) = takeWhile (\<lambda>tx. nonce_of tx < thr) (txs_of m)"
    and t: "txs_of (snd (sm_Forward thr m)) = dropWhile (\<lambda>tx. nonce_of tx < thr) (txs_of m)"
    using loop by (simp_all add: sm_Forward_def Let_def)
  have "drop (length (takeWhile P xs)) xs = dropWhile P xs" for P and xs :: "Transaction list"
    by (simp add: dropWhile_eq_drop)
  then show "sm_ok (snd (sm_Forward thr m))"
    using loop t sm_okD(3) [OF assms] by (auto simp: sm_ok_def sm_Forward_def Let_def)
qed

lemma sm_ok_reheap:
  assumes "keyed nonce_of (sm_items m)"
  shows "sm_ok (sm_reheap m)"
  using assms by (simp add: sm_ok_def index_ok_def sm_reheap_def nonce_order.heap_init_heap)

lemma sm_filter_correct:
  assumes "keyed nonce_of (sm_items m)"
  shows "set (fst (sm_filter P m)) = {tx \<in> set (txs_of m). P tx}"
    "txs_of (snd (sm_filter P m)) = filter (\<lambda>tx. \<not> P tx) (txs_of m)"
    "keyed nonce_of (sm_items (snd (sm_filter P m)))"
    "fst (sm_filter P m) = [] \<Longrightarrow> snd (sm_filter P m) = m"
proof -
  have items: "sm_items (snd (sm_filter P m)) = filter (\<lambda>(n, tx). \<not> P tx) (sm_items m)"
    by (simp add: sm_filter_def Let_def)
  show "set (fst (sm_filter P m)) = {tx \<in> set (txs_of m). P tx}"
    by (force simp: sm_filter_def Let_def by_nonce_increasing(2) [OF assms])
  show "txs_of (snd (sm_filter P m)) = filter (\<lambda>tx. \<not> P tx) (txs_of m)"
    "keyed nonce_of (sm_items (snd (sm_filter P m)))"
    using by_nonce_filter [OF assms] keyed_filter [OF assms] by (simp_all add: items)
  assume "fst (sm_filter P m) = []"
  then have "\<forall>(n, tx) \<in> set (sm_items m). \<not> P tx" by (auto simp: sm_filter_def Let_def filter_empty_conv)
  then have "filter (\<lambda>(n, tx). \<not> P tx) (sm_items m) = sm_items m" by (auto simp: filter_id_conv)
  then show "snd (sm_filter P m) = m" using \<open>fst (sm_filter P m) = []\<close> by (simp add: sm_filter_def Let_def)
qed

lemma sm_Filter_correct:
  assumes "sm_ok m"
  shows "set (fst (sm_Filter P m)) = {tx \<in> set (txs_of m). P tx}"
    "txs_of (snd (sm_Filter P m)) = filter (\<lambda>tx. \<not> P tx) (txs_of m)"
    "sm_ok (snd (sm_Filter P m))"
proof -
  note f = sm_filter_correct [OF sm_okD(2) [OF assms], where P = P]
  show "set (fst (sm_Filter P m)) = {tx \<in> set (txs_of m). P tx}"
    using f(1) by (simp add: sm_Filter_def Let_def)
  show "txs_of (snd (sm_Filter P m)) = filter (\<lambda>tx. \<not> P tx) (txs_of m)"
    using f(2) by (simp add: sm_Filter_def Let_def sm_reheap_def)
  show "sm_ok (snd (sm_Filter P m))"
    using f(4) sm_ok_reheap [OF f(3)] assms by (simp add: sm_Filter_def Let_def)
qed

lemma mset_by_nonce:
  assumes "keyed nonce_of items"
  shows "mset (map nonce_of (by_nonce items)) = mset (map fst items)"
proof -
  have "mset (map nonce_of (by_nonce items)) = mset (map (nonce_of \<circ> snd) items)"
    by (simp add: by_nonce_def multiset.map_comp)
  then show ?thesis by (simp only: keyed_keys [OF assms])
qed

lemma sort_index: "index_ok items index \<Longrightarrow> sort index = map nonce_of (by_nonce items)"
proof (rule properties_for_sort)
  assume ok: "index_ok items index"
  show "mset (map nonce_of (by_nonce items)) = mset index"
    using mset_by_nonce [OF index_okD(1) [OF ok]] index_okD(2) [OF ok] by simp
  show "sorted (map nonce_of (by_nonce items))" by (simp add: by_nonce_def)
qed

lemma cap_loop_correct:
  assumes "increasing L"
  shows "n \<le> length L \<Longrightarrow> keyed nonce_of items \<Longrightarrow> by_nonce items = take n L \<Longrightarrow>
     fst (cap_loop thr n (map nonce_of L) items) = rev (drop thr (take n L)) \<and>
     by_nonce (snd (cap_loop thr n (map nonce_of L) items)) = take thr (take n L) \<and>
     keyed nonce_of (snd (cap_loop thr n (map nonce_of L) items))"
proof (induction n arbitrary: items)
  case (Suc n)
  show ?case
  proof (cases "thr < Suc n")
    case True
    have take: "take (Suc n) L = take n L @ [L ! n]" using Suc.prems(1) by (simp add: take_Suc_conv_app_nth)
    have "increasing (take n L @ [L ! n])" using assms take by (metis sorted_wrt_take)
    then have below: "\<forall>t \<in> set (take n L). nonce_of t < nonce_of (L ! n)" by (simp add: sorted_wrt_append)
    have "by_nonce (mdel (nonce_of (L ! n)) items) = take n L"
      using below by (auto simp: by_nonce_mdel [OF Suc.prems(2)] Suc.prems(3) take filter_id_conv)
    note ih = Suc.IH [OF Suc_leD [OF Suc.prems(1)] keyed_mdel [OF Suc.prems(2)] this]
    have "L ! n \<in> snd ` set items"
      using by_nonce_increasing(2) [OF Suc.prems(2)] Suc.prems(3) take by auto
    then have "item_at (nonce_of (L ! n)) items = [L ! n]"
      using keyed_mget_iff [OF Suc.prems(2), of "L ! n"] by (simp add: item_at_def)
    then show ?thesis using ih True Suc.prems(1) by (simp add: Let_def take)
  next
    case False
    then show ?thesis using Suc.prems by simp
  qed
qed simp

lemma sm_Cap_correct:
  assumes "sm_ok m" and "0 \<le> t"
  obtains m' where "sm_Cap t m = Some (rev (drop (nat t) (txs_of m)), m')"
    "txs_of m' = take (nat t) (txs_of m)" "sm_ok m'"
proof (cases "int (length (sm_items m)) \<le> t")
  case True
  then show thesis using that [of m] assms by (simp add: sm_Cap_def)
next
  case False
  note ok = sm_okD(1) [OF assms(1)]
  let ?L = "txs_of m" and ?idx = "sort (sm_index m)"
  let ?r = "cap_loop (nat t) (length (sm_items m)) ?idx (sm_items m)"
  have r: "fst ?r = rev (drop (nat t) ?L)" "by_nonce (snd ?r) = take (nat t) ?L" "keyed nonce_of (snd ?r)"
    using cap_loop_correct [OF sm_okD(4) [OF assms(1)], of "length (sm_items m)" "sm_items m" "nat t"]
      sm_okD(2) [OF assms(1)] by (simp_all add: sort_index [OF ok])
  define m' where "m' = m\<lparr>sm_items := snd ?r, sm_index := heap_init nonceHeap_Less (take (nat t) ?idx),
      sm_cache := map_option (\<lambda>c. take (length c - length (fst ?r)) c) (sm_cache m)\<rparr>"
  have "mset (map fst (snd ?r)) = mset (map nonce_of (by_nonce (snd ?r)))"
    using mset_by_nonce [OF r(3)] by simp
  also have "\<dots> = mset (take (nat t) ?idx)" unfolding r(2) by (simp add: sort_index [OF ok] take_map)
  finally have "index_ok (sm_items m') (sm_index m')"
    using r(3) by (simp add: index_ok_def m'_def nonce_order.heap_init_heap)
  moreover have "sm_cache m' = Some c \<Longrightarrow> c = txs_of m'" for c
    using sm_okD(3) [OF assms(1)] False assms(2) r by (auto simp: m'_def min_def)
  ultimately have "sm_ok m'" by (simp add: sm_ok_def)
  moreover have "sm_Cap t m = Some (fst ?r, m')"
    using False assms(2) index_okD(4) [OF ok] by (simp add: sm_Cap_def Let_def m'_def)
  ultimately show thesis using that r by (simp add: m'_def)
qed

lemma index_of_Some: "index_of n xs = Some i \<Longrightarrow> i < length xs \<and> xs ! i = n"
  by (induction xs arbitrary: i) (auto split: if_splits)

lemma index_of_None: "index_of n xs = None \<longleftrightarrow> n \<notin> set xs"
  by (induction xs) auto

lemma sm_Remove_correct:
  assumes "sm_ok m"
  shows "fst (sm_Remove n m) \<longleftrightarrow> (\<exists>tx \<in> set (txs_of m). nonce_of tx = n)"
    "txs_of (snd (sm_Remove n m)) = filter (\<lambda>tx. nonce_of tx \<noteq> n) (txs_of m)"
    "sm_ok (snd (sm_Remove n m))"
proof -
  note ok = sm_okD(1) [OF assms] and k = sm_okD(2) [OF assms]
  have found: "mget (sm_items m) n \<noteq> None \<longleftrightarrow> (\<exists>tx \<in> set (txs_of m). nonce_of tx = n)"
    by (auto simp: mget_by_nonce [OF k] find_None_iff)
  then show "fst (sm_Remove n m) \<longleftrightarrow> (\<exists>tx \<in> set (txs_of m). nonce_of tx = n)"
    by (auto simp: sm_Remove_def)
  show "txs_of (snd (sm_Remove n m)) = filter (\<lambda>tx. nonce_of tx \<noteq> n) (txs_of m)"
    using found by (auto simp: sm_Remove_def by_nonce_mdel [OF k] filter_id_conv)
  show "sm_ok (snd (sm_Remove n m))"
  proof (cases "mget (sm_items m) n = None")
    case True
    then show ?thesis using assms by (simp add: sm_Remove_def)
  next
    case False
    then have key: "n \<in> fst ` set (sm_items m)" by (simp add: mget_None_iff)
    then obtain i where i: "index_of n (sm_index m) = Some i"
      using index_of_None [of n "sm_index m"] index_okD(5) [OF ok] by (cases "index_of n (sm_index m)") auto
    let ?r = "heap_remove nonceHeap_Less (sm_index m) i"
    note rem = nonce_order.heap_remove_correct [OF index_okD(3) [OF ok], of i "fst ?r" "snd ?r", simplified]
    have "add_mset n (mset (snd ?r)) = mset (sm_index m)" "is_heap nonceHeap_Less (snd ?r)"
      using rem index_of_Some [OF i] by auto
    moreover have "mset (sm_index m) = add_mset n (mset (map fst (mdel n (sm_items m))))"
      using mset_keys_mdel [OF keyed_gomap [OF k] key] index_okD(2) [OF ok] by simp
    ultimately have "index_ok (mdel n (sm_items m)) (snd ?r)" using keyed_mdel [OF k] by (simp add: index_ok_def)
    moreover obtain tx where "mget (sm_items m) n = Some tx" using False by blast
    ultimately show ?thesis using i by (simp add: sm_Remove_def sm_ok_def)
  qed
qed

lemma ready_loop_correct:
  "index_ok items index \<Longrightarrow>
     fst (ready_loop n items index) = run n (by_nonce items) \<and>
     by_nonce (fst (snd (ready_loop n items index))) = drop (length (run n (by_nonce items))) (by_nonce items) \<and>
     index_ok (fst (snd (ready_loop n items index))) (snd (snd (ready_loop n items index)))"
proof (induction n items index rule: ready_loop.induct)
  case (1 n items index)
  show ?case
  proof (cases "index = []")
    case True
    then have "items = []" using index_okD(4) [OF "1.prems"] by simp
    then show ?thesis using True "1.prems" by (subst (1 2 3 4) ready_loop.simps) simp
  next
    case False
    from index_pop [OF "1.prems" False] obtain tx rest where p: "by_nonce items = tx # rest"
      "index ! 0 = nonce_of tx" "item_at (nonce_of tx) items = [tx]" "by_nonce (mdel (nonce_of tx) items) = rest"
      "index_ok (mdel (nonce_of tx) items) (snd (heap_pop nonceHeap_Less index))" .
    show ?thesis
    proof (cases "nonce_of tx = n")
      case True
      note ih = "1.IH" [OF _ p(5) [unfolded True]]
      show ?thesis using ih False True p by (subst (1 2 3 4) ready_loop.simps) (simp add: Let_def)
    next
      case no: False
      then show ?thesis using False p "1.prems" by (subst (1 2 3 4) ready_loop.simps) simp
    qed
  qed
qed

text \<open>What \<open>Ready\<close> takes: nothing when the first nonce is above \<open>start\<close>, else the run from that nonce.\<close>

definition ready_part :: "u64 \<Rightarrow> Transaction list \<Rightarrow> Transaction list" where
  "ready_part start txs =
     (case txs of [] \<Rightarrow> [] | tx # _ \<Rightarrow> if start < nonce_of tx then [] else run (nonce_of tx) txs)"

lemma sm_Ready_correct:
  assumes "sm_ok m"
  shows "fst (sm_Ready start m) = ready_part start (txs_of m)"
    "txs_of (snd (sm_Ready start m)) = drop (length (ready_part start (txs_of m))) (txs_of m)"
    "sm_ok (snd (sm_Ready start m))"
proof -
  note ok = sm_okD(1) [OF assms]
  have "fst (sm_Ready start m) = ready_part start (txs_of m) \<and>
    txs_of (snd (sm_Ready start m)) = drop (length (ready_part start (txs_of m))) (txs_of m) \<and>
    sm_ok (snd (sm_Ready start m))"
  proof (cases "sm_index m = []")
    case True
    then have "sm_items m = []" using index_okD(4) [OF ok] by simp
    then show ?thesis using True assms by (simp add: sm_Ready_def ready_part_def)
  next
    case False
    from index_pop [OF ok False] obtain tx rest
      where root: "txs_of m = tx # rest" "sm_index m ! 0 = nonce_of tx" .
    have part: "ready_part start (txs_of m) = (if start < nonce_of tx then [] else run (nonce_of tx) (txs_of m))"
      by (simp add: ready_part_def root(1))
    show ?thesis
    proof (cases "start < nonce_of tx")
      case True
      then show ?thesis using root(2) assms part by (simp add: sm_Ready_def)
    next
      case no: False
      note loop = ready_loop_correct [OF ok, of "nonce_of tx"]
      show ?thesis using no False loop root(2) part by (simp add: sm_Ready_def sm_ok_def Let_def)
    qed
  qed
  then show "fst (sm_Ready start m) = ready_part start (txs_of m)"
    "txs_of (snd (sm_Ready start m)) = drop (length (ready_part start (txs_of m))) (txs_of m)"
    "sm_ok (snd (sm_Ready start m))" by simp_all
qed

lemma sm_flatten_correct:
  assumes "sm_ok m"
  shows "fst (sm_flatten m) = txs_of m" "sm_items (snd (sm_flatten m)) = sm_items m" "sm_ok (snd (sm_flatten m))"
  using assms by (auto simp: sm_flatten_def sm_ok_def by_nonce_def Let_def split: option.splits)

lemma sm_LastElement_correct:
  assumes "sm_ok m"
  shows "fst (sm_LastElement m) = (if txs_of m = [] then None else Some (last (txs_of m)))"
    "sm_items (snd (sm_LastElement m)) = sm_items m" "sm_ok (snd (sm_LastElement m))"
  using sm_flatten_correct [OF assms] by (simp_all add: sm_LastElement_def Let_def)

section \<open>The interface of a list of transactions\<close>

definition contiguous :: "Transaction list \<Rightarrow> bool" where
  "contiguous txs \<longleftrightarrow> (\<forall>i. Suc i < length txs \<longrightarrow> nonce_of (txs ! Suc i) = nonce_of (txs ! i) + 1)"

lemma contiguous_Nil [simp]: "contiguous []"
  by (simp add: contiguous_def)

lemma contiguous_take: "contiguous txs \<Longrightarrow> contiguous (take n txs)"
  by (simp add: contiguous_def)

lemma contiguous_drop: "contiguous txs \<Longrightarrow> contiguous (drop n txs)"
  by (simp add: contiguous_def)

lemma contiguous_takeWhile: "contiguous txs \<Longrightarrow> contiguous (takeWhile P txs)"
  by (metis contiguous_take takeWhile_eq_take)

lemma contiguous_Cons:
  assumes "contiguous txs" "txs \<noteq> [] \<Longrightarrow> nonce_of (hd txs) = nonce_of tx + 1"
  shows "contiguous (tx # txs)"
  unfolding contiguous_def
proof (intro allI impI)
  fix i assume i: "Suc i < length (tx # txs)"
  then show "nonce_of ((tx # txs) ! Suc i) = nonce_of ((tx # txs) ! i) + 1"
    using assms by (cases i) (auto simp: contiguous_def hd_conv_nth)
qed

lemma run_hd: "run n txs \<noteq> [] \<Longrightarrow> nonce_of (hd (run n txs)) = n"
  by (cases txs) (auto split: if_splits)

lemma contiguous_run: "contiguous (run n txs)"
  by (induction n txs rule: run.induct) (auto intro: contiguous_Cons simp: run_hd)

text \<open>
  What a client may assume of a nonce-sorted collection: each operation as a function of the sorted
  list. The lemmas of the locale are what the pool needs of its lists, for every implementation.
\<close>

locale nonce_list =
  fixes txs :: "'m \<Rightarrow> Transaction list"
    and invar :: "'m \<Rightarrow> bool"
    and put :: "Transaction \<Rightarrow> 'm \<Rightarrow> 'm"
    and forward :: "u64 \<Rightarrow> 'm \<Rightarrow> Transaction list \<times> 'm"
    and cap :: "int \<Rightarrow> 'm \<Rightarrow> (Transaction list \<times> 'm) option"
    and ready :: "u64 \<Rightarrow> 'm \<Rightarrow> Transaction list \<times> 'm"
  assumes sorted: "invar m \<Longrightarrow> increasing (txs m)"
    and put: "invar m \<Longrightarrow> invar (put tx m) \<and>
                txs (put tx m) = insort_key nonce_of tx (filter (\<lambda>t. nonce_of t \<noteq> nonce_of tx) (txs m))"
    and forward: "invar m \<Longrightarrow> invar (snd (forward n m)) \<and>
                    fst (forward n m) = takeWhile (\<lambda>tx. nonce_of tx < n) (txs m) \<and>
                    txs (snd (forward n m)) = dropWhile (\<lambda>tx. nonce_of tx < n) (txs m)"
    and cap: "invar m \<Longrightarrow> 0 \<le> k \<Longrightarrow> \<exists>m'. cap k m = Some (rev (drop (nat k) (txs m)), m') \<and>
                txs m' = take (nat k) (txs m) \<and> invar m'"
    and ready: "invar m \<Longrightarrow> invar (snd (ready n m)) \<and> fst (ready n m) = ready_part n (txs m) \<and>
                  txs (snd (ready n m)) = drop (length (ready_part n (txs m))) (txs m)"
begin

lemma ready_contiguous: "invar m \<Longrightarrow> contiguous (fst (ready n m))"
  by (auto simp: ready ready_part_def contiguous_run split: list.splits)

lemma ready_partition: "invar m \<Longrightarrow> fst (ready n m) @ txs (snd (ready n m)) = txs m"
proof -
  assume "invar m"
  moreover have "ready_part n l = take (length (ready_part n l)) l" for l
    using run_prefix by (auto simp: ready_part_def split: list.splits)
  ultimately show ?thesis by (metis append_take_drop_id ready)
qed

lemma forward_partition: "invar m \<Longrightarrow> fst (forward n m) @ txs (snd (forward n m)) = txs m"
  by (simp add: forward)

lemma forward_contiguous: "invar m \<Longrightarrow> contiguous (txs m) \<Longrightarrow> contiguous (txs (snd (forward n m)))"
  by (simp add: forward dropWhile_eq_drop contiguous_drop)

lemma cap_contiguous:
  "invar m \<Longrightarrow> contiguous (txs m) \<Longrightarrow> 0 \<le> k \<Longrightarrow> cap k m = Some (d, m') \<Longrightarrow> contiguous (txs m')"
  using cap [of m k] contiguous_take by auto

lemma put_mem: "invar m \<Longrightarrow> set (txs (put tx m)) = insert tx {t \<in> set (txs m). nonce_of t \<noteq> nonce_of tx}"
  by (simp add: put set_insort_key)

lemma put_append: "invar m \<Longrightarrow> \<forall>t \<in> set (txs m). nonce_of t < nonce_of tx \<Longrightarrow> txs (put tx m) = txs m @ [tx]"
proof -
  assume m: "invar m" and low: "\<forall>t \<in> set (txs m). nonce_of t < nonce_of tx"
  have "insort_key nonce_of tx l = l @ [tx]" if "\<forall>t \<in> set l. nonce_of t < nonce_of tx" for l
    using that by (induction l) auto
  moreover have "filter (\<lambda>t. nonce_of t \<noteq> nonce_of tx) (txs m) = txs m" using low by (auto simp: filter_id_conv)
  ultimately show ?thesis using put [OF m] low by simp
qed

end

interpretation sorted_map: nonce_list txs_of sm_ok sm_Put sm_Forward sm_Cap sm_Ready
proof unfold_locales
  fix m k
  assume "sm_ok m" "0 \<le> (k :: int)"
  from sm_Cap_correct [OF this] show "\<exists>m'. sm_Cap k m = Some (rev (drop (nat k) (txs_of m)), m') \<and>
      txs_of m' = take (nat k) (txs_of m) \<and> sm_ok m'" by blast
qed (simp_all add: sm_okD(4) sm_ok_Put sm_Put_txs sm_Forward_correct sm_Ready_correct)

section \<open>Correctness of account lists\<close>

abbreviation list_txs :: "txList \<Rightarrow> Transaction list" where
  "list_txs l \<equiv> txs_of (tl_txs l)"

text \<open>The caps bound the cost and the gas of every transaction in the list.\<close>

definition tl_ok :: "txList \<Rightarrow> bool" where
  "tl_ok l \<longleftrightarrow> sm_ok (tl_txs l) \<and> (\<forall>tx \<in> set (list_txs l). tx_Cost tx \<le> tl_costcap l \<and> tx_Gas tx \<le> tl_gascap l)"

lemma big_Cmp_simps [simp]:
  "big_Cmp a b \<le> 0 \<longleftrightarrow> a \<le> b" "big_Cmp a b < 0 \<longleftrightarrow> a < b" "0 < big_Cmp a b \<longleftrightarrow> b < a" "0 \<le> big_Cmp a b \<longleftrightarrow> b \<le> a"
  by (auto simp: big_Cmp_def)

lemma tl_ok_new [simp]: "tl_ok (newTxList strict)" "list_txs (newTxList strict) = []"
  by (simp_all add: tl_ok_def newTxList_def)

lemma tl_ok_sub:
  assumes "tl_ok l" "sm_ok m" "set (txs_of m) \<subseteq> set (list_txs l)"
  shows "tl_ok (l\<lparr>tl_txs := m\<rparr>)"
  using assms by (auto simp: tl_ok_def)

lemma tl_Forward_correct:
  assumes "tl_ok l"
  shows "fst (tl_Forward n l) = takeWhile (\<lambda>tx. nonce_of tx < n) (list_txs l)"
    "list_txs (snd (tl_Forward n l)) = dropWhile (\<lambda>tx. nonce_of tx < n) (list_txs l)"
    "tl_ok (snd (tl_Forward n l))" "tl_strict (snd (tl_Forward n l)) = tl_strict l"
proof -
  have ok: "sm_ok (tl_txs l)" using assms by (simp add: tl_ok_def)
  note f = sm_Forward_correct [OF ok, of n]
  show "fst (tl_Forward n l) = takeWhile (\<lambda>tx. nonce_of tx < n) (list_txs l)"
    "list_txs (snd (tl_Forward n l)) = dropWhile (\<lambda>tx. nonce_of tx < n) (list_txs l)"
    "tl_strict (snd (tl_Forward n l)) = tl_strict l"
    using f by (simp_all add: tl_Forward_def Let_def)
  have "set (dropWhile P xs) \<subseteq> set xs" for P and xs :: "Transaction list" using set_dropWhileD by fast
  then show "tl_ok (snd (tl_Forward n l))"
    using f tl_ok_sub [OF assms f(3)] by (simp add: tl_Forward_def Let_def)
qed

lemma tl_Ready_correct:
  assumes "tl_ok l"
  shows "fst (tl_Ready n l) = ready_part n (list_txs l)"
    "list_txs (snd (tl_Ready n l)) = drop (length (ready_part n (list_txs l))) (list_txs l)"
    "tl_ok (snd (tl_Ready n l))" "tl_strict (snd (tl_Ready n l)) = tl_strict l"
proof -
  have ok: "sm_ok (tl_txs l)" using assms by (simp add: tl_ok_def)
  note r = sm_Ready_correct [OF ok, of n]
  show "fst (tl_Ready n l) = ready_part n (list_txs l)"
    "list_txs (snd (tl_Ready n l)) = drop (length (ready_part n (list_txs l))) (list_txs l)"
    "tl_strict (snd (tl_Ready n l)) = tl_strict l"
    using r by (simp_all add: tl_Ready_def Let_def)
  show "tl_ok (snd (tl_Ready n l))"
    using r tl_ok_sub [OF assms, of "snd (sm_Ready n (tl_txs l))"] by (simp add: tl_Ready_def Let_def set_drop_subset)
qed

lemma tl_Cap_correct:
  assumes "tl_ok l" "0 \<le> k"
  obtains l' where "tl_Cap k l = Some (rev (drop (nat k) (list_txs l)), l')"
    "list_txs l' = take (nat k) (list_txs l)" "tl_ok l'" "tl_strict l' = tl_strict l"
proof -
  have ok: "sm_ok (tl_txs l)" using assms by (simp add: tl_ok_def)
  from sm_Cap_correct [OF ok assms(2)] obtain m' where m':
    "sm_Cap k (tl_txs l) = Some (rev (drop (nat k) (list_txs l)), m')"
    "txs_of m' = take (nat k) (list_txs l)" "sm_ok m'" .
  have "tl_ok (l\<lparr>tl_txs := m'\<rparr>)"
    using tl_ok_sub [OF assms(1) m'(3)] set_take_subset [of "nat k" "list_txs l"] m'(2) by simp
  then show thesis using that [of "l\<lparr>tl_txs := m'\<rparr>"] m' by (simp add: tl_Cap_def)
qed

lemma tl_Flatten_correct:
  assumes "tl_ok l"
  shows "fst (tl_Flatten l) = list_txs l" "list_txs (snd (tl_Flatten l)) = list_txs l" "tl_ok (snd (tl_Flatten l))"
    "tl_strict (snd (tl_Flatten l)) = tl_strict l"
proof -
  have ok: "sm_ok (tl_txs l)" using assms by (simp add: tl_ok_def)
  note f = sm_flatten_correct [OF ok]
  show "fst (tl_Flatten l) = list_txs l" "list_txs (snd (tl_Flatten l)) = list_txs l"
    "tl_strict (snd (tl_Flatten l)) = tl_strict l" "tl_ok (snd (tl_Flatten l))"
    using f tl_ok_sub [OF assms f(3)] by (simp_all add: tl_Flatten_def sm_Flatten_def Let_def)
qed

lemma tl_Len_length: "tl_Len l = int (length (list_txs l))" "tl_Empty l \<longleftrightarrow> list_txs l = []"
  by (simp_all add: tl_Len_def sm_Len_def tl_Empty_def)

lemma tl_Remove_cases:
  assumes "tl_ok l"
  obtains (missing) "\<forall>t \<in> set (list_txs l). nonce_of t \<noteq> nonce_of tx" "tl_Remove tx l = ((False, []), l)"
  | (strict) t invalids l' where "t \<in> set (list_txs l)" "nonce_of t = nonce_of tx" "tl_strict l"
      "tl_Remove tx l = ((True, invalids), l')" "set invalids = {t \<in> set (list_txs l). nonce_of tx < nonce_of t}"
      "list_txs l' = filter (\<lambda>t. nonce_of t < nonce_of tx) (list_txs l)" "tl_ok l'" "tl_strict l'"
  | (loose) t l' where "t \<in> set (list_txs l)" "nonce_of t = nonce_of tx" "\<not> tl_strict l"
      "tl_Remove tx l = ((True, []), l')"
      "list_txs l' = filter (\<lambda>t. nonce_of t \<noteq> nonce_of tx) (list_txs l)" "tl_ok l'" "\<not> tl_strict l'"
proof -
  have ok: "sm_ok (tl_txs l)" using assms by (simp add: tl_ok_def)
  let ?r = "sm_Remove (nonce_of tx) (tl_txs l)" and ?P = "\<lambda>t. nonce_of tx < nonce_of t"
  note r = sm_Remove_correct [OF ok, of "nonce_of tx"]
  note f = sm_Filter_correct [OF r(3), where P = ?P]
  have sub: "set (txs_of (snd ?r)) \<subseteq> set (list_txs l)" "set (txs_of (snd (sm_Filter ?P (snd ?r)))) \<subseteq> set (list_txs l)"
    unfolding f(2) r(2) by (simp_all add: filter_is_subset subset_iff)
  show thesis
  proof (cases "fst ?r")
    case False
    then show thesis using missing r(1) by (simp add: tl_Remove_def Let_def)
  next
    case True
    then obtain t where t: "t \<in> set (list_txs l)" "nonce_of t = nonce_of tx" using r(1) by blast
    show thesis
    proof (cases "tl_strict l")
      case st: True
      let ?l = "l\<lparr>tl_txs := snd (sm_Filter ?P (snd ?r))\<rparr>"
      have "filter (\<lambda>t. nonce_of t \<noteq> nonce_of tx \<and> \<not> nonce_of tx < nonce_of t) (list_txs l) =
          filter (\<lambda>t. nonce_of t < nonce_of tx) (list_txs l)" by (rule filter_cong [OF refl]) auto
      then have "list_txs ?l = filter (\<lambda>t. nonce_of t < nonce_of tx) (list_txs l)"
        using f(2) r(2) by (simp add: filter_filter)
      moreover have "set (fst (sm_Filter ?P (snd ?r))) = {t \<in> set (list_txs l). nonce_of tx < nonce_of t}"
        unfolding f(1) r(2) by auto
      moreover have "tl_Remove tx l = ((True, fst (sm_Filter ?P (snd ?r))), ?l)"
        using True st by (simp add: tl_Remove_def Let_def)
      ultimately show thesis
        using strict [OF t st] tl_ok_sub [OF assms f(3) sub(2)] st by simp
    next
      case no: False
      have "tl_Remove tx l = ((True, []), l\<lparr>tl_txs := snd ?r\<rparr>)" using True no by (simp add: tl_Remove_def Let_def)
      then show thesis using loose [OF t no] tl_ok_sub [OF assms r(3) sub(1)] no r(2) by simp
    qed
  qed
qed

lemma lowest_nonce_less: "lowest_nonce txs < n \<longleftrightarrow> (\<exists>t \<in> set txs. nonce_of t < n)"
proof -
  have "fold (\<lambda>tx lowest. if nonce_of tx < lowest then nonce_of tx else lowest) txs lo < n \<longleftrightarrow>
      lo < n \<or> (\<exists>t \<in> set txs. nonce_of t < n)" for lo
    by (induction txs arbitrary: lo) auto
  moreover have "\<not> (- 1 :: u64) < n" by (simp add: not_less word_order.extremum)
  ultimately show ?thesis by (simp add: lowest_nonce_def)
qed

text \<open>A list that \<open>Filter\<close> returns before looking at the transactions has nothing to filter.\<close>

lemma tl_Filter_correct:
  fixes costLimit :: int and gasLimit :: u64
  assumes "tl_ok l"
  defines "over \<equiv> \<lambda>tx. gasLimit < tx_Gas tx \<or> costLimit < tx_Cost tx"
  obtains removed invalids l' where "tl_Filter costLimit gasLimit l = ((removed, invalids), l')"
    "set removed = {tx \<in> set (list_txs l). over tx}"
    "set invalids = (if tl_strict l
       then {tx \<in> set (list_txs l). \<not> over tx \<and> (\<exists>r \<in> set removed. nonce_of r < nonce_of tx)} else {})"
    "list_txs l' = filter (\<lambda>tx. tx \<notin> set removed \<and> tx \<notin> set invalids) (list_txs l)"
    "tl_ok l'" "tl_strict l' = tl_strict l" "\<forall>tx \<in> set (list_txs l'). \<not> over tx"
proof (cases "tl_costcap l \<le> costLimit \<and> tl_gascap l \<le> gasLimit")
  case True
  then have none: "\<forall>tx \<in> set (list_txs l). \<not> over tx" using assms(1) by (fastforce simp: tl_ok_def over_def)
  show thesis
  proof (rule that)
    show "tl_Filter costLimit gasLimit l = (([], []), l)" using True by (simp add: tl_Filter_def)
  qed (use none assms(1) in auto)
next
  case False
  have ok: "sm_ok (tl_txs l)" using assms(1) by (simp add: tl_ok_def)
  note over = over_def [symmetric]
  let ?r = "sm_Filter over (tl_txs l)" and ?R = "set (fst (sm_Filter over (tl_txs l)))"
  note f = sm_Filter_correct [OF ok, where P = over]
  let ?l1 = "l\<lparr>tl_costcap := costLimit, tl_gascap := gasLimit, tl_txs := snd ?r\<rparr>"
  have ok1: "tl_ok ?l1" using f by (auto simp: tl_ok_def over_def not_less)
  show thesis
  proof (cases "fst ?r = []")
    case True
    then have none: "\<forall>tx \<in> set (list_txs l). \<not> over tx" using f(1) by auto
    show thesis
    proof (rule that)
      show "tl_Filter costLimit gasLimit l = (([], []), ?l1)"
        using True False by (auto simp: tl_Filter_def Let_def over)
      show "list_txs ?l1 = filter (\<lambda>tx. tx \<notin> set [] \<and> tx \<notin> set []) (list_txs l)"
        using f(2) none by (simp add: filter_id_conv)
    qed (use none ok1 f(2) in auto)
  next
    case some: False
    let ?low = "\<lambda>tx. lowest_nonce (fst ?r) < nonce_of tx"
    let ?q = "if tl_strict l then sm_filter ?low (snd ?r) else ([], snd ?r)"
    note g = sm_filter_correct [OF sm_okD(2) [OF f(3)], where P = ?low]
    have q: "keyed nonce_of (sm_items (snd ?q))" using g(3) sm_okD(2) [OF f(3)] by simp
    have inv: "set (fst ?q) = (if tl_strict l
        then {tx \<in> set (list_txs l). \<not> over tx \<and> (\<exists>r \<in> ?R. nonce_of r < nonce_of tx)} else {})"
      using g(1) f(2) by (auto simp: lowest_nonce_less)
    have txs: "txs_of (snd ?q) = filter (\<lambda>tx. tx \<notin> ?R \<and> tx \<notin> set (fst ?q)) (list_txs l)"
      unfolding inv using g(2) f(1,2) by (auto simp: filter_filter lowest_nonce_less intro!: filter_cong)
    show thesis
    proof (rule that)
      show "tl_Filter costLimit gasLimit l = ((fst ?r, fst ?q), ?l1\<lparr>tl_txs := sm_reheap (snd ?q)\<rparr>)"
        using some False by (auto simp: tl_Filter_def Let_def over)
      show "?R = {tx \<in> set (list_txs l). over tx}" by (rule f(1))
      show "list_txs (?l1\<lparr>tl_txs := sm_reheap (snd ?q)\<rparr>) =
          filter (\<lambda>tx. tx \<notin> ?R \<and> tx \<notin> set (fst ?q)) (list_txs l)"
        using txs by (simp add: sm_reheap_def)
      have sub: "set (txs_of (sm_reheap (snd ?q))) \<subseteq> set (list_txs ?l1)"
        using txs f(1,2) by (auto simp: sm_reheap_def)
      show "tl_ok (?l1\<lparr>tl_txs := sm_reheap (snd ?q)\<rparr>)"
        by (rule tl_ok_sub [OF ok1 sm_ok_reheap [OF q] sub])
      show "\<forall>tx \<in> set (list_txs (?l1\<lparr>tl_txs := sm_reheap (snd ?q)\<rparr>)). \<not> over tx"
        using sub f(2) by auto
    qed (use inv in simp_all)
  qed
qed

lemma tl_Add_cases:
  assumes "tl_ok l"
  obtains (refused) old where "find (\<lambda>t. nonce_of t = nonce_of tx) (list_txs l) = Some old"
      "tx_GasPrice tx \<le> tx_GasPrice old \<or> tx_GasPrice tx < bump_threshold bump old"
      "tl_Add tx bump l = ((False, None), l)"
  | (accepted) l' where "\<And>old. find (\<lambda>t. nonce_of t = nonce_of tx) (list_txs l) = Some old \<Longrightarrow>
        tx_GasPrice old < tx_GasPrice tx \<and> bump_threshold bump old \<le> tx_GasPrice tx"
      "tl_Add tx bump l = ((True, find (\<lambda>t. nonce_of t = nonce_of tx) (list_txs l)), l')"
      "list_txs l' = insort_key nonce_of tx (filter (\<lambda>t. nonce_of t \<noteq> nonce_of tx) (list_txs l))"
      "tl_ok l'" "tl_strict l' = tl_strict l"
proof -
  have ok: "sm_ok (tl_txs l)" using assms by (simp add: tl_ok_def)
  let ?old = "find (\<lambda>t. nonce_of t = nonce_of tx) (list_txs l)"
  let ?ref = "case ?old of None \<Rightarrow> False | Some o' \<Rightarrow> tx_GasPrice tx \<le> tx_GasPrice o' \<or> tx_GasPrice tx < bump_threshold bump o'"
  let ?l = "l\<lparr>tl_txs := sm_Put tx (tl_txs l), tl_costcap := (if tl_costcap l < tx_Cost tx then tx_Cost tx else tl_costcap l),
      tl_gascap := (if tl_gascap l < tx_Gas tx then tx_Gas tx else tl_gascap l)\<rparr>"
  have add: "tl_Add tx bump l = (if ?ref then ((False, None), l) else ((True, ?old), ?l))"
    by (auto simp: tl_Add_def Let_def sm_Get_find [OF ok] GasPriceCmp_def GasPriceIntCmp_def split: option.splits)
  show thesis
  proof (cases ?ref)
    case True
    then show thesis using refused add by (auto split: option.splits)
  next
    case False
    have "tl_ok ?l" using assms sm_ok_Put [OF ok]
      by (force simp: tl_ok_def sm_Put_txs [OF ok] set_insort_key)
    then show thesis using accepted [of ?l] add False sm_Put_txs [OF ok] by (auto split: option.splits)
  qed
qed

section \<open>No transaction is lost\<close>

text \<open>Every operation splits the transactions of a list into those it returns and those it keeps.\<close>

lemma mset_by_nonce_values: "mset (by_nonce items) = mset (map snd items)"
  by (simp add: by_nonce_def)

lemma sm_filter_partition: "mset (txs_of m) = mset (fst (sm_filter P m)) + mset (txs_of (snd (sm_filter P m)))"
proof -
  have "mset (map snd xs) = mset (map snd (filter (\<lambda>(n, tx). P tx) xs)) + mset (map snd (filter (\<lambda>(n, tx). \<not> P tx) xs))"
    for xs :: "(u64, Transaction) gomap" by (induction xs) auto
  from this [of "sm_items m"] show ?thesis by (simp add: mset_by_nonce_values sm_filter_def Let_def del: mset_map)
qed

lemma sm_Filter_partition: "mset (txs_of m) = mset (fst (sm_Filter P m)) + mset (txs_of (snd (sm_Filter P m)))"
  using sm_filter_partition [of m P] by (simp add: sm_Filter_def sm_reheap_def Let_def)

lemma tl_Filter_partition:
  "mset (list_txs l) = mset (fst (fst (tl_Filter c g l))) + mset (snd (fst (tl_Filter c g l))) + mset (list_txs (snd (tl_Filter c g l)))"
proof -
  let ?r = "sm_Filter (\<lambda>tx. g < tx_Gas tx \<or> c < tx_Cost tx) (tl_txs l)"
  note p = sm_Filter_partition [of "tl_txs l" "\<lambda>tx. g < tx_Gas tx \<or> c < tx_Cost tx"]
  note q = sm_filter_partition [of "snd ?r" "\<lambda>tx. lowest_nonce (fst ?r) < nonce_of tx"]
  consider "tl_costcap l \<le> c \<and> tl_gascap l \<le> g" | "\<not> (tl_costcap l \<le> c \<and> tl_gascap l \<le> g)" "fst ?r = []"
    | "\<not> (tl_costcap l \<le> c \<and> tl_gascap l \<le> g)" "fst ?r \<noteq> []" by blast
  then show ?thesis
  proof cases
    case 3
    show ?thesis
      using p q by (simp add: tl_Filter_def sm_reheap_def Let_def 3 del: de_Morgan_conj)
  qed (use p in \<open>auto simp: tl_Filter_def Let_def\<close>)
qed

lemma tl_Remove_partition:
  assumes "tl_ok l" "fst (fst (tl_Remove tx l))"
  obtains t where "nonce_of t = nonce_of tx"
    "mset (list_txs l) = add_mset t (mset (snd (fst (tl_Remove tx l))) + mset (list_txs (snd (tl_Remove tx l))))"
proof -
  have ok: "sm_ok (tl_txs l)" using assms(1) by (simp add: tl_ok_def)
  note k = sm_okD(2) [OF ok]
  obtain t where t: "mget (sm_items (tl_txs l)) (nonce_of tx) = Some t"
    using assms(2) by (auto simp: tl_Remove_def sm_Remove_def Let_def split: if_splits)
  have "mset (list_txs l) = add_mset t (mset (txs_of (snd (sm_Remove (nonce_of tx) (tl_txs l)))))"
    using msum_mdel [OF keyed_gomap [OF k], of "\<lambda>v. {#v#}" "nonce_of tx"] t
    by (simp add: mset_by_nonce_values sm_Remove_def mset_values at_key_def del: mset_map)
  moreover have "mset (txs_of (snd (sm_Remove (nonce_of tx) (tl_txs l)))) =
      mset (snd (fst (tl_Remove tx l))) + mset (list_txs (snd (tl_Remove tx l)))"
    using t sm_Filter_partition [of "snd (sm_Remove (nonce_of tx) (tl_txs l))" "\<lambda>t. nonce_of tx < nonce_of t"]
    by (cases "tl_strict l") (simp_all add: tl_Remove_def sm_Remove_def Let_def)
  ultimately show thesis using that [OF keyed_mget [OF k t]] by simp
qed

lemma tl_Add_partition:
  assumes "fst (fst (tl_Add tx b l))"
  shows "mset (list_txs (snd (tl_Add tx b l))) + (case snd (fst (tl_Add tx b l)) of None \<Rightarrow> {#} | Some old \<Rightarrow> {#old#}) =
    add_mset tx (mset (list_txs l))"
proof -
  have new: "mset (list_txs (snd (tl_Add tx b l))) = msum (\<lambda>v. {#v#}) (mput (nonce_of tx) tx (sm_items (tl_txs l)))"
    "snd (fst (tl_Add tx b l)) = mget (sm_items (tl_txs l)) (nonce_of tx)"
    using assms by (simp_all add: tl_Add_def sm_Put_def sm_Get_def mset_by_nonce_values mset_values Let_def del: mset_map split: if_splits)
  show ?thesis
    using msum_mput [of "\<lambda>v. {#v#}" "nonce_of tx" tx "sm_items (tl_txs l)"]
    unfolding new at_key_def by (simp add: mset_by_nonce_values mset_values del: mset_map)
qed

section \<open>Properties\<close>

text \<open>
  C19: The heap-indexed, cached map of an account refines the list of its transactions sorted by
  nonce: inserting, dropping low nonces, limiting the size, removing, taking the executable run and
  flattening are the obvious list functions, the limit never panics for a threshold of at least
  zero, and every operation keeps the invariant of the heap and the cache.
\<close>

theorem sorted_map_refines:
  assumes "sm_ok m"
  shows "increasing (txs_of m) \<and>
     sm_ok (sm_Put tx m) \<and>
     txs_of (sm_Put tx m) = insort_key nonce_of tx (filter (\<lambda>t. nonce_of t \<noteq> nonce_of tx) (txs_of m)) \<and>
     sm_ok (snd (sm_Forward n m)) \<and>
     fst (sm_Forward n m) = takeWhile (\<lambda>t. nonce_of t < n) (txs_of m) \<and>
     txs_of (snd (sm_Forward n m)) = dropWhile (\<lambda>t. nonce_of t < n) (txs_of m) \<and>
     (\<exists>m'. sm_Cap (int k) m = Some (rev (drop k (txs_of m)), m') \<and> txs_of m' = take k (txs_of m) \<and> sm_ok m') \<and>
     sm_ok (snd (sm_Remove n m)) \<and>
     fst (sm_Remove n m) = (n \<in> nonce_of ` set (txs_of m)) \<and>
     txs_of (snd (sm_Remove n m)) = filter (\<lambda>t. nonce_of t \<noteq> n) (txs_of m) \<and>
     sm_ok (snd (sm_Ready n m)) \<and>
     fst (sm_Ready n m) = ready_part n (txs_of m) \<and>
     txs_of (snd (sm_Ready n m)) = drop (length (ready_part n (txs_of m))) (txs_of m) \<and>
     sm_ok (snd (sm_Flatten m)) \<and> fst (sm_Flatten m) = txs_of m"
proof -
  have "fst (sm_Remove n m) = (n \<in> nonce_of ` set (txs_of m))" using sm_Remove_correct(1) [OF assms] by auto
  then show ?thesis
    using sorted_map.cap [OF assms, of "int k"] sorted_map.put [OF assms] sorted_map.forward [OF assms]
      sorted_map.ready [OF assms] sorted_map.sorted [OF assms] sm_Remove_correct(2,3) [OF assms] sm_flatten_correct [OF assms]
    by (simp add: sm_Flatten_def)
qed

definition sample_next :: Transaction where
  "sample_next = NewTransaction 0 6 0xAB 1 1 (Some 20) 21000 (Some 4) []"

definition sample_map :: txSortedMap where
  "sample_map = sm_Put sample_tx (sm_Put sample_next newTxSortedMap)"

lemma sample_map_ok: "sm_ok sample_map" "txs_of sample_map = [sample_tx, sample_next]"
proof -
  show "sm_ok sample_map" by (simp add: sample_map_def sm_ok_Put)
  show "txs_of sample_map = [sample_tx, sample_next]"
    by (simp add: sample_map_def sm_Put_txs sm_ok_Put)
      (simp add: sample_tx_def sample_next_def NewTransaction_def newTransaction_def Let_def)
qed

theorem sorted_map_refines_witness:
  "fst (sm_Forward 6 sample_map) = takeWhile (\<lambda>t. nonce_of t < 6) [sample_tx, sample_next] \<and>
   fst (sm_Ready 5 sample_map) = ready_part 5 [sample_tx, sample_next] \<and> fst (sm_Flatten sample_map) = [sample_tx, sample_next]"
  using sorted_map_refines [OF sample_map_ok(1), of sample_tx 6] sorted_map_refines [OF sample_map_ok(1), of sample_tx 5]
  by (simp add: sample_map_ok(2))

text \<open>
  C20: \<open>Filter\<close> is exact although it stops early on its cost and gas caps: it removes exactly the
  transactions above a limit and, in a strict list, exactly the payable ones with a nonce above a
  removed one; what is left is payable, and the caps still bound it.
\<close>

theorem txList_Filter_exact:
  assumes "tl_ok l" "tl_Filter costLimit gasLimit l = ((removed, invalids), l')"
  shows "set removed = {tx \<in> set (list_txs l). gasLimit < tx_Gas tx \<or> costLimit < tx_Cost tx} \<and>
         set invalids = (if tl_strict l then {tx \<in> set (list_txs l). tx_Gas tx \<le> gasLimit \<and> tx_Cost tx \<le> costLimit \<and>
                           (\<exists>r \<in> set removed. nonce_of r < nonce_of tx)} else {}) \<and>
         list_txs l' = filter (\<lambda>tx. tx \<notin> set removed \<and> tx \<notin> set invalids) (list_txs l) \<and> tl_ok l'"
proof -
  obtain removed' invalids' l'' where f: "tl_Filter costLimit gasLimit l = ((removed', invalids'), l'')"
    "set removed' = {tx \<in> set (list_txs l). gasLimit < tx_Gas tx \<or> costLimit < tx_Cost tx}"
    "set invalids' = (if tl_strict l then {tx \<in> set (list_txs l). \<not> (gasLimit < tx_Gas tx \<or> costLimit < tx_Cost tx) \<and>
       (\<exists>r \<in> set removed'. nonce_of r < nonce_of tx)} else {})"
    "list_txs l'' = filter (\<lambda>tx. tx \<notin> set removed' \<and> tx \<notin> set invalids') (list_txs l)" "tl_ok l''"
    by (rule tl_Filter_correct [OF assms(1), of costLimit gasLimit])
  then show ?thesis using assms(2) by (simp add: not_less)
qed

definition sample_list :: txList where
  "sample_list = snd (tl_Add sample_next 10 (snd (tl_Add sample_tx 10 (newTxList True))))"

lemma sample_list_ok: "tl_ok sample_list"
proof -
  have add: "tl_ok (snd (tl_Add tx b l))" if "tl_ok l" for tx b l
    using that by (rule tl_Add_cases [of l tx b]) (use that in auto)
  show ?thesis unfolding sample_list_def by (intro add tl_ok_new)
qed

theorem txList_Filter_exact_witness:
  "set (fst (fst (tl_Filter 15 30000 sample_list))) =
     {tx \<in> set (list_txs sample_list). 30000 < tx_Gas tx \<or> 15 < tx_Cost tx}"
  using txList_Filter_exact [OF sample_list_ok, of 15 30000 "fst (fst (tl_Filter 15 30000 sample_list))"
      "snd (fst (tl_Filter 15 30000 sample_list))" "snd (tl_Filter 15 30000 sample_list)"] by simp

text \<open>
  C21: A transaction replaces one with the same nonce only for a higher price that also reaches the
  configured percentage of the old one, up to rounding; a nonce that is free is always accepted, and
  a refused transaction changes nothing.
\<close>

theorem txList_Add_price_bump:
  assumes "tl_ok l" "tl_Add tx bump l = ((inserted, old), l')"
    and "find (\<lambda>t. nonce_of t = nonce_of tx) (list_txs l) = prev"
  shows "inserted = (case prev of None \<Rightarrow> True
                     | Some p \<Rightarrow> tx_GasPrice p < tx_GasPrice tx \<and> sint (100 + bump) * tx_GasPrice p < 100 * (tx_GasPrice tx + 1)) \<and>
         (if inserted then old = prev \<and> tx \<in> set (list_txs l') \<and> tl_ok l' \<and>
            set (list_txs l') = insert tx {t \<in> set (list_txs l). nonce_of t \<noteq> nonce_of tx}
          else l' = l)"
proof -
  have div: "a div 100 \<le> b \<longleftrightarrow> a < 100 * (b + 1)" for a b :: int
    using mult_div_mod_eq [of 100 a] pos_mod_bound [of 100 a] pos_mod_sign [of 100 a] by auto
  show ?thesis using assms(2,3)
    by (rule_tac tl_Add_cases [OF assms(1), of tx bump])
      (auto simp: bump_threshold_def div set_insort_key not_le not_less split: option.splits)
qed

theorem txList_Add_price_bump_witness:
  "fst (fst (tl_Add sample_tx 10 sample_list)) = False"
proof -
  have "find (\<lambda>t. nonce_of t = nonce_of sample_tx) (list_txs sample_list) = Some sample_tx" by code_simp
  from txList_Add_price_bump [OF sample_list_ok _ this, of 10 "fst (fst (tl_Add sample_tx 10 sample_list))"
      "snd (fst (tl_Add sample_tx 10 sample_list))" "snd (tl_Add sample_tx 10 sample_list)"]
  show ?thesis by simp
qed

lemma filter_takeWhile_increasing:
  "increasing xs \<Longrightarrow> (\<And>a b. a \<in> set xs \<Longrightarrow> b \<in> set xs \<Longrightarrow> nonce_of a < nonce_of b \<Longrightarrow> P b \<Longrightarrow> P a) \<Longrightarrow>
   filter P xs = takeWhile P xs"
proof (induction xs)
  case (Cons x xs)
  show ?case
  proof (cases "P x")
    case True
    have "filter P xs = takeWhile P xs"
    proof (rule Cons.IH)
      show "increasing xs" using Cons.prems(1) by simp
      show "P a" if "a \<in> set xs" "b \<in> set xs" "nonce_of a < nonce_of b" "P b" for a b
        using Cons.prems(2) [of a b] that by simp
    qed
    then show ?thesis using True by simp
  next
    case False
    then have "\<not> P b" if "b \<in> set xs" for b using Cons.prems(1) Cons.prems(2) [of x b] that by auto
    then show ?thesis using False by (simp add: filter_empty_conv)
  qed
qed simp

text \<open>
  C22: A strict list without gaps stays without gaps when transactions are removed, filtered out,
  capped or become too old.
\<close>

theorem strict_list_gapless:
  assumes "tl_ok l" "tl_strict l" "contiguous (list_txs l)"
  shows "contiguous (list_txs (snd (tl_Remove tx l))) \<and> contiguous (list_txs (snd (tl_Filter c g l))) \<and>
         contiguous (list_txs (snd (tl_Forward n l))) \<and> contiguous (list_txs (snd (the (tl_Cap (int k) l))))"
proof (intro conjI)
  have inc: "increasing (list_txs l)" using assms(1) by (simp add: tl_ok_def sm_okD(4))
  note prefix = filter_takeWhile_increasing [OF inc]
  show "contiguous (list_txs (snd (tl_Remove tx l)))"
  proof (rule tl_Remove_cases [OF assms(1), of tx])
    fix t invalids l'
    assume "tl_Remove tx l = ((True, invalids), l')" "list_txs l' = filter (\<lambda>t. nonce_of t < nonce_of tx) (list_txs l)"
    then show ?thesis using prefix [of "\<lambda>t. nonce_of t < nonce_of tx"] contiguous_takeWhile [OF assms(3)] by simp
  qed (use assms in simp_all)
  obtain removed invalids l' where f: "tl_Filter c g l = ((removed, invalids), l')"
    "set removed = {tx \<in> set (list_txs l). g < tx_Gas tx \<or> c < tx_Cost tx}"
    "set invalids = (if tl_strict l then {tx \<in> set (list_txs l). \<not> (g < tx_Gas tx \<or> c < tx_Cost tx) \<and>
       (\<exists>r \<in> set removed. nonce_of r < nonce_of tx)} else {})"
    "list_txs l' = filter (\<lambda>tx. tx \<notin> set removed \<and> tx \<notin> set invalids) (list_txs l)"
    by (rule tl_Filter_correct [OF assms(1), of c g])
  have "list_txs l' = takeWhile (\<lambda>tx. tx \<notin> set removed \<and> tx \<notin> set invalids) (list_txs l)"
    unfolding f(4)
  proof (rule prefix)
    fix a b
    assume ab: "a \<in> set (list_txs l)" "nonce_of a < nonce_of b" "b \<in> set (list_txs l)" "b \<notin> set removed \<and> b \<notin> set invalids"
    then have low: "\<not> nonce_of r < nonce_of b" if "r \<in> set removed" for r using f(2,3) assms(2) that by auto
    then have "a \<notin> set removed" using ab(2) by blast
    moreover have "a \<notin> set invalids" using f(3) assms(2) low ab(2) less_trans by fastforce
    ultimately show "a \<notin> set removed \<and> a \<notin> set invalids" ..
  qed
  then show "contiguous (list_txs (snd (tl_Filter c g l)))"
    using contiguous_takeWhile [OF assms(3)] f(1) by simp
  show "contiguous (list_txs (snd (tl_Forward n l)))"
    using tl_Forward_correct(2) [OF assms(1)] contiguous_drop [OF assms(3)] by (simp add: dropWhile_eq_drop)
  obtain l2 where "tl_Cap (int k) l = Some (rev (drop (nat (int k)) (list_txs l)), l2)"
    "list_txs l2 = take (nat (int k)) (list_txs l)" by (rule tl_Cap_correct [OF assms(1), of "int k"]) auto
  then show "contiguous (list_txs (snd (the (tl_Cap (int k) l))))" using contiguous_take [OF assms(3)] by simp
qed

theorem strict_list_gapless_witness:
  "contiguous (list_txs (snd (tl_Remove sample_next sample_list)))"
proof -
  have l: "list_txs sample_list = [sample_tx, sample_next]" by code_simp
  have "tl_strict sample_list" by code_simp
  moreover have "contiguous (list_txs sample_list)" unfolding l
    by (auto simp: contiguous_def less_Suc_eq_0_disj sample_tx_def sample_next_def NewTransaction_def newTransaction_def Let_def)
  ultimately show ?thesis using strict_list_gapless [OF sample_list_ok] by blast
qed

end
