(* ===== verification/Tx_Priced.thy ===== *)
theory Tx_Priced
  imports Tx_List
begin

text \<open>
  The indexes a transaction pool keeps over all its transactions: the look-up by hash and the set of
  local accounts of \<open>core/tx_pool.go\<close>, and the price-sorted list of \<open>core/tx_list.go\<close>, which keeps
  removed transactions as stale entries until a quarter of it is stale. The locale \<open>heap_order\<close> is
  interpreted on the order of the price heap. A nil transaction that is dereferenced, and a slice
  made with a negative capacity, is a panic: \<open>None\<close>.
\<close>

section \<open>Accounts and look-up\<close>

abbreviation hash_of :: "crypto_lib \<Rightarrow> Transaction \<Rightarrow> hash" where
  "hash_of C tx \<equiv> fst (tx_Hash C tx)"

definition txSlotSize :: nat where "txSlotSize = 32 * 1024"

definition txMaxSize :: nat where "txMaxSize = 4 * txSlotSize"

definition numSlots :: "crypto_lib \<Rightarrow> Transaction \<Rightarrow> int" where
  "numSlots C tx = int ((fst (tx_Size C tx) + txSlotSize - 1) div txSlotSize)"

record accountSet =
  as_accounts :: "(address, unit) gomap"
  as_signer :: Signer
  as_cache :: "address list option"

definition as_add :: "address \<Rightarrow> accountSet \<Rightarrow> accountSet" where
  "as_add addr s = s\<lparr>as_accounts := mput addr () (as_accounts s), as_cache := None\<rparr>"

definition newAccountSet :: "Signer \<Rightarrow> address list \<Rightarrow> accountSet" where
  "newAccountSet signer addrs =
     fold as_add addrs \<lparr>as_accounts = [], as_signer = signer, as_cache = None\<rparr>"

definition as_contains :: "address \<Rightarrow> accountSet \<Rightarrow> bool" where
  "as_contains addr s \<longleftrightarrow> mget (as_accounts s) addr \<noteq> None"

definition as_empty :: "accountSet \<Rightarrow> bool" where
  "as_empty s \<longleftrightarrow> length (as_accounts s) = 0"

definition as_containsTx :: "crypto_lib \<Rightarrow> Transaction \<Rightarrow> accountSet \<Rightarrow> bool" where
  "as_containsTx C tx s \<longleftrightarrow>
     (case fst (Sender C (as_signer s) tx) of Inl _ \<Rightarrow> False | Inr addr \<Rightarrow> as_contains addr s)"

definition as_addTx :: "crypto_lib \<Rightarrow> Transaction \<Rightarrow> accountSet \<Rightarrow> accountSet" where
  "as_addTx C tx s = (case fst (Sender C (as_signer s) tx) of Inl _ \<Rightarrow> s | Inr addr \<Rightarrow> as_add addr s)"

definition as_flatten :: "accountSet \<Rightarrow> address list \<times> accountSet" where
  "as_flatten s =
     (case as_cache s of
        Some c \<Rightarrow> (c, s)
      | None \<Rightarrow> (let accounts = map fst (as_accounts s) in (accounts, s\<lparr>as_cache := Some accounts\<rparr>)))"

definition as_merge :: "accountSet \<Rightarrow> accountSet \<Rightarrow> accountSet" where
  "as_merge other s =
     s\<lparr>as_accounts := fold (\<lambda>addr m. mput addr () m) (map fst (as_accounts other)) (as_accounts s), as_cache := None\<rparr>"

record txLookup =
  lk_all :: "(hash, Transaction) gomap"
  lk_slots :: int

definition newTxLookup :: txLookup where
  "newTxLookup = \<lparr>lk_all = [], lk_slots = 0\<rparr>"

definition lk_Get :: "hash \<Rightarrow> txLookup \<Rightarrow> Transaction option" where
  "lk_Get h t = mget (lk_all t) h"

definition lk_Count :: "txLookup \<Rightarrow> int" where
  "lk_Count t = int (length (lk_all t))"

definition lk_Add :: "crypto_lib \<Rightarrow> Transaction \<Rightarrow> txLookup \<Rightarrow> txLookup" where
  "lk_Add C tx t = \<lparr>lk_all = mput (hash_of C tx) tx (lk_all t), lk_slots = lk_slots t + numSlots C tx\<rparr>"

text \<open>Removing an unknown hash asks a nil transaction for its size.\<close>

definition lk_Remove :: "crypto_lib \<Rightarrow> hash \<Rightarrow> txLookup \<Rightarrow> txLookup option" where
  "lk_Remove C h t =
     (case mget (lk_all t) h of
        None \<Rightarrow> None
      | Some tx \<Rightarrow> Some \<lparr>lk_all = mdel h (lk_all t), lk_slots = lk_slots t - numSlots C tx\<rparr>)"

section \<open>The priced list\<close>

definition priceHeap_Less :: "Transaction \<Rightarrow> Transaction \<Rightarrow> bool" where
  "priceHeap_Less a b =
     (let c = GasPriceCmp a b in if c = -1 then True else if c = 1 then False else tx_Nonce b < tx_Nonce a)"

record txPricedList =
  pl_items :: "Transaction list"
  pl_stales :: int

definition newTxPricedList :: txPricedList where
  "newTxPricedList = \<lparr>pl_items = [], pl_stales = 0\<rparr>"

definition pl_Put :: "Transaction \<Rightarrow> txPricedList \<Rightarrow> txPricedList" where
  "pl_Put tx l = l\<lparr>pl_items := heap_push priceHeap_Less (pl_items l) tx\<rparr>"

definition pl_Removed :: "txLookup \<Rightarrow> int \<Rightarrow> txPricedList \<Rightarrow> txPricedList" where
  "pl_Removed all n l =
     (let l = l\<lparr>pl_stales := pl_stales l + n\<rparr>
      in if pl_stales l \<le> int (length (pl_items l)) div 4 then l
         else \<lparr>pl_items = heap_init priceHeap_Less (map snd (lk_all all)), pl_stales = 0\<rparr>)"

definition is_live :: "crypto_lib \<Rightarrow> txLookup \<Rightarrow> Transaction \<Rightarrow> bool" where
  "is_live C all tx \<longleftrightarrow> lk_Get (hash_of C tx) all \<noteq> None"

text \<open>The loop of \<open>Cap\<close>: what is dropped, what is kept aside, how many entries were stale, the rest.\<close>

function cap_prices ::
  "crypto_lib \<Rightarrow> txLookup \<Rightarrow> accountSet \<Rightarrow> int \<Rightarrow> Transaction list
     \<Rightarrow> (Transaction list \<times> Transaction list) \<times> int \<times> Transaction list" where
  "cap_prices C all local threshold items =
     (if items = [] then (([], []), 0, [])
      else let p = heap_pop priceHeap_Less items; tx = fst p; items = snd p in
        if \<not> is_live C all tx
        then (let r = cap_prices C all local threshold items in (fst r, fst (snd r) + 1, snd (snd r)))
        else if 0 \<le> GasPriceIntCmp tx threshold then (([], [tx]), 0, items)
        else (let r = cap_prices C all local threshold items; drop = fst (fst r); save = snd (fst r)
              in (if as_containsTx C tx local then (drop, tx # save) else (tx # drop, save), snd r)))"
  by pat_completeness auto
termination
  by (relation "measure (\<lambda>(C, all, local, threshold, items). length items)") (auto simp: heap_pop_length)

definition pl_Cap ::
  "crypto_lib \<Rightarrow> txLookup \<Rightarrow> int \<Rightarrow> accountSet \<Rightarrow> txPricedList \<Rightarrow> Transaction list \<times> txPricedList" where
  "pl_Cap C all threshold local l =
     (let r = cap_prices C all local threshold (pl_items l); drop = fst (fst r); save = snd (fst r)
      in (drop, \<lparr>pl_items = fold (\<lambda>tx h. heap_push priceHeap_Less h tx) save (snd (snd r)),
                 pl_stales = pl_stales l - fst (snd r)\<rparr>))"

function drop_stale :: "crypto_lib \<Rightarrow> txLookup \<Rightarrow> txPricedList \<Rightarrow> txPricedList" where
  "drop_stale C all l =
     (if pl_items l \<noteq> [] \<and> \<not> is_live C all (pl_items l ! 0)
      then drop_stale C all (l\<lparr>pl_stales := pl_stales l - 1, pl_items := snd (heap_pop priceHeap_Less (pl_items l))\<rparr>)
      else l)"
  by pat_completeness auto
termination
  by (relation "measure (\<lambda>(C, all, l). length (pl_items l))") (auto simp: heap_pop_length)

definition pl_Underpriced ::
  "crypto_lib \<Rightarrow> txLookup \<Rightarrow> Transaction \<Rightarrow> accountSet \<Rightarrow> txPricedList \<Rightarrow> bool \<times> txPricedList" where
  "pl_Underpriced C all tx local l =
     (if as_containsTx C tx local then (False, l)
      else let l = drop_stale C all l
           in if length (pl_items l) = 0 then (False, l)
              else (0 \<le> GasPriceCmp (pl_items l ! 0) tx, l))"

text \<open>The count of discardable transactions stops at \<open>slots\<close>.\<close>

fun count_discardable :: "crypto_lib \<Rightarrow> accountSet \<Rightarrow> int \<Rightarrow> int \<Rightarrow> Transaction list \<Rightarrow> int" where
  "count_discardable C local slots n [] = n"
| "count_discardable C local slots n (tx # txs) =
     (let n = (if \<not> as_containsTx C tx local then n + 1 else n)
      in if slots \<le> n then n else count_discardable C local slots n txs)"

function discard_loop ::
  "crypto_lib \<Rightarrow> txLookup \<Rightarrow> accountSet \<Rightarrow> int \<Rightarrow> Transaction list
     \<Rightarrow> (Transaction list \<times> Transaction list) \<times> int \<times> Transaction list" where
  "discard_loop C all local slots items =
     (if items \<noteq> [] \<and> 0 < slots
      then let p = heap_pop priceHeap_Less items; tx = fst p; items = snd p in
        if \<not> is_live C all tx
        then (let r = discard_loop C all local slots items in (fst r, fst (snd r) + 1, snd (snd r)))
        else if as_containsTx C tx local
        then (let r = discard_loop C all local slots items in ((fst (fst r), tx # snd (fst r)), snd r))
        else (let r = discard_loop C all local (slots - numSlots C tx) items in ((tx # fst (fst r), snd (fst r)), snd r))
      else (([], []), 0, items))"
  by pat_completeness auto
termination
  by (relation "measure (\<lambda>(C, all, local, slots, items). length items)") (auto simp: heap_pop_length)

declare cap_prices.simps [simp del] drop_stale.simps [simp del] discard_loop.simps [simp del]

definition pl_Discard ::
  "crypto_lib \<Rightarrow> txLookup \<Rightarrow> int \<Rightarrow> accountSet \<Rightarrow> txPricedList \<Rightarrow> (Transaction list \<times> txPricedList) option" where
  "pl_Discard C all slots local l =
     (let slots = (if \<not> as_empty local
                   then (let discardable = count_discardable C local slots 0 (pl_items l)
                         in if discardable < slots then discardable else slots)
                   else slots)
      in if slots = 0 then Some ([], l)
         else if slots < 0 \<or> int (length (pl_items l)) - slots < 0 then None
         else (let r = discard_loop C all local slots (pl_items l); drop = fst (fst r); save = snd (fst r)
               in Some (drop, \<lparr>pl_items = fold (\<lambda>tx h. heap_push priceHeap_Less h tx) save (snd (snd r)),
                               pl_stales = pl_stales l - fst (snd r)\<rparr>)))"

section \<open>The order of the price heap\<close>

lemma priceHeap_Less_iff:
  "priceHeap_Less a b \<longleftrightarrow> tx_GasPrice a < tx_GasPrice b \<or> tx_GasPrice a = tx_GasPrice b \<and> tx_Nonce b < tx_Nonce a"
  by (auto simp: priceHeap_Less_def GasPriceCmp_def big_Cmp_def Let_def)

interpretation price_order: heap_order priceHeap_Less
  by unfold_locales (auto simp: priceHeap_Less_iff)

lemma price_pop:
  assumes "is_heap priceHeap_Less items" "items \<noteq> []"
  obtains tx rest where "heap_pop priceHeap_Less items = (tx, rest)" "tx = items ! 0" "mset items = add_mset tx (mset rest)"
    "is_heap priceHeap_Less rest" "\<And>t. t \<in> set items \<Longrightarrow> \<not> priceHeap_Less t tx"
proof -
  obtain tx rest where p: "heap_pop priceHeap_Less items = (tx, rest)" by fastforce
  note c = price_order.heap_pop_correct [OF assms p]
  have "\<not> priceHeap_Less t tx" if "t \<in> set items" for t
    using that price_order.heap_root_least [of items "length items"] assms(1) c(1)
    by (auto simp: is_heap_def in_set_conv_nth)
  then show thesis using that [OF p c(1) c(2) [symmetric] c(3)] by blast
qed

lemma push_all:
  "is_heap priceHeap_Less h \<Longrightarrow> is_heap priceHeap_Less (fold (\<lambda>tx h. heap_push priceHeap_Less h tx) txs h) \<and>
   mset (fold (\<lambda>tx h. heap_push priceHeap_Less h tx) txs h) = mset txs + mset h"
  by (induction txs arbitrary: h) (simp_all add: price_order.heap_push_heap)

section \<open>Correctness of the priced list\<close>

text \<open>Every known transaction has an entry, and an entry whose hash is known is that transaction.\<close>

definition pl_ok :: "crypto_lib \<Rightarrow> txLookup \<Rightarrow> txPricedList \<Rightarrow> bool" where
  "pl_ok C all l \<longleftrightarrow> is_heap priceHeap_Less (pl_items l) \<and> keyed (hash_of C) (lk_all all) \<and>
     snd ` set (lk_all all) \<subseteq> set (pl_items l) \<and>
     (\<forall>tx \<in> set (pl_items l). is_live C all tx \<longrightarrow> tx \<in> snd ` set (lk_all all))"

lemma is_live_known: "keyed (hash_of C) (lk_all all) \<Longrightarrow> tx \<in> snd ` set (lk_all all) \<Longrightarrow> is_live C all tx"
  using keyed_mget_iff [of "hash_of C" "lk_all all" tx] by (simp add: is_live_def lk_Get_def)

lemma drop_stale_correct:
  "is_heap priceHeap_Less (pl_items l) \<Longrightarrow>
     is_heap priceHeap_Less (pl_items (drop_stale C all l)) \<and>
     filter_mset (is_live C all) (mset (pl_items (drop_stale C all l))) = filter_mset (is_live C all) (mset (pl_items l)) \<and>
     set (pl_items (drop_stale C all l)) \<subseteq> set (pl_items l) \<and>
     (pl_items (drop_stale C all l) \<noteq> [] \<longrightarrow> is_live C all (pl_items (drop_stale C all l) ! 0))"
proof (induction C all l rule: drop_stale.induct)
  case (1 C all l)
  show ?case
  proof (cases "pl_items l \<noteq> [] \<and> \<not> is_live C all (pl_items l ! 0)")
    case True
    from price_pop [OF "1.prems"] True obtain tx rest where p: "heap_pop priceHeap_Less (pl_items l) = (tx, rest)"
      "tx = pl_items l ! 0" "mset (pl_items l) = add_mset tx (mset rest)" "is_heap priceHeap_Less rest" by blast
    have sub: "set rest \<subseteq> set (pl_items l)" using p(3) by (metis set_mset_mset set_mset_add_mset_insert subset_insertI)
    have "drop_stale C all l = drop_stale C all (l\<lparr>pl_stales := pl_stales l - 1, pl_items := rest\<rparr>)"
      using True p(1) by (subst drop_stale.simps) simp
    then show ?thesis using "1.IH" [OF True] p True sub by auto
  next
    case False
    then have "drop_stale C all l = l" by (subst drop_stale.simps) auto
    then show ?thesis using False "1.prems" by auto
  qed
qed

lemma cap_prices_correct:
  "is_heap priceHeap_Less items \<Longrightarrow> cap_prices C all local thr items = ((dr, save), n, rest) \<Longrightarrow>
     is_heap priceHeap_Less rest \<and>
     filter_mset (is_live C all) (mset items) = mset dr + mset save + filter_mset (is_live C all) (mset rest) \<and>
     (\<forall>tx \<in> set dr. \<not> as_containsTx C tx local \<and> tx_GasPrice tx < thr) \<and>
     (\<forall>tx \<in> set save. as_containsTx C tx local \<or> thr \<le> tx_GasPrice tx) \<and> (\<forall>tx \<in> set rest. thr \<le> tx_GasPrice tx)"
proof (induction "length items" arbitrary: items dr save n rest rule: less_induct)
  case (less items)
  show ?case
  proof (cases "items = []")
    case True
    then show ?thesis using less.prems(2) by (simp add: cap_prices.simps)
  next
    case False
    from price_pop [OF less.prems(1) False] obtain tx items' where p: "heap_pop priceHeap_Less items = (tx, items')"
      "tx = items ! 0" "mset items = add_mset tx (mset items')" "is_heap priceHeap_Less items'"
      "\<And>t. t \<in> set items \<Longrightarrow> \<not> priceHeap_Less t tx" by blast
    have short: "length items' < length items" using p(3) by (metis size_mset size_add_mset lessI)
    obtain dr' save' n' rest' where r: "cap_prices C all local thr items' = ((dr', save'), n', rest')"
      by (metis prod.exhaust)
    have set: "set items = insert tx (set items')" using p(3) by (metis set_mset_mset set_mset_add_mset_insert)
    have run: "cap_prices C all local thr items =
        (if \<not> is_live C all tx then ((dr', save'), n' + 1, rest')
         else if thr \<le> tx_GasPrice tx then (([], [tx]), 0, items')
         else (if as_containsTx C tx local then (dr', tx # save') else (tx # dr', save'), n', rest'))"
      using False p(1) r by (subst cap_prices.simps) (simp add: Let_def GasPriceIntCmp_def)
    show ?thesis
    proof (cases "is_live C all tx \<and> thr \<le> tx_GasPrice tx")
      case True
      then have "\<forall>t \<in> set items'. thr \<le> tx_GasPrice t" using p(5) set by (force simp: priceHeap_Less_iff)
      then show ?thesis using True run less.prems(2) p by auto
    next
      case stop: False
      have ih: "is_heap priceHeap_Less rest'"
          "filter_mset (is_live C all) (mset items') = mset dr' + mset save' + filter_mset (is_live C all) (mset rest')"
          "\<forall>tx \<in> set dr'. \<not> as_containsTx C tx local \<and> tx_GasPrice tx < thr"
          "\<forall>tx \<in> set save'. as_containsTx C tx local \<or> thr \<le> tx_GasPrice tx" "\<forall>tx \<in> set rest'. thr \<le> tx_GasPrice tx"
        using less.hyps [OF short p(4) r] by simp_all
      consider "\<not> is_live C all tx" | "is_live C all tx" "tx_GasPrice tx < thr" "as_containsTx C tx local"
        | "is_live C all tx" "tx_GasPrice tx < thr" "\<not> as_containsTx C tx local" using stop by (auto simp: not_le)
      then show ?thesis
        using run less.prems(2) p(3) ih by cases auto
    qed
  qed
qed

lemma discard_loop_correct:
  "is_heap priceHeap_Less items \<Longrightarrow> discard_loop C all local slots items = ((dr, save), n, rest) \<Longrightarrow>
     is_heap priceHeap_Less rest \<and> set rest \<subseteq> set items \<and>
     filter_mset (is_live C all) (mset items) = mset dr + mset save + filter_mset (is_live C all) (mset rest) \<and>
     (\<forall>tx \<in> set dr. \<not> as_containsTx C tx local) \<and>
     (\<forall>tx \<in> set save. as_containsTx C tx local \<and> is_live C all tx) \<and>
     (\<forall>tx \<in> set dr. \<forall>t \<in> set rest. \<not> priceHeap_Less t tx) \<and>
     (rest = [] \<or> slots \<le> sum_list (map (numSlots C) dr))"
proof (induction "length items" arbitrary: items slots dr save n rest rule: less_induct)
  case (less items)
  show ?case
  proof (cases "items \<noteq> [] \<and> 0 < slots")
    case False
    then have "discard_loop C all local slots items = (([], []), 0, items)" by (subst discard_loop.simps) auto
    then show ?thesis using less.prems False by auto
  next
    case True
    then have "items \<noteq> []" by simp
    from price_pop [OF less.prems(1) this] obtain tx items' where p: "heap_pop priceHeap_Less items = (tx, items')"
      "tx = items ! 0" "mset items = add_mset tx (mset items')" "is_heap priceHeap_Less items'"
      "\<And>t. t \<in> set items \<Longrightarrow> \<not> priceHeap_Less t tx" by blast
    have short: "length items' < length items" using p(3) by (metis size_mset size_add_mset lessI)
    have set: "set items = insert tx (set items')" using p(3) by (metis set_mset_mset set_mset_add_mset_insert)
    define slots' where "slots' = (if is_live C all tx \<and> \<not> as_containsTx C tx local then slots - numSlots C tx else slots)"
    obtain dr' save' n' rest' where r: "discard_loop C all local slots' items' = ((dr', save'), n', rest')"
      by (metis prod.exhaust)
    have run: "discard_loop C all local slots items =
        (if \<not> is_live C all tx then ((dr', save'), n' + 1, rest')
         else if as_containsTx C tx local then ((dr', tx # save'), n', rest') else ((tx # dr', save'), n', rest'))"
      using True p(1) r by (subst discard_loop.simps)
          (cases "is_live C all tx"; cases "as_containsTx C tx local"; simp add: Let_def slots'_def)
    note ih = less.hyps [OF short p(4) r]
    have least: "\<forall>t \<in> set rest'. \<not> priceHeap_Less t tx" using ih set p(5) by blast
    consider "\<not> is_live C all tx" | "is_live C all tx" "as_containsTx C tx local"
      | "is_live C all tx" "\<not> as_containsTx C tx local" by blast
    then show ?thesis
      using run less.prems(2) p(3) ih least set by cases (auto simp: slots'_def)
  qed
qed

lemma count_discardable_bound: "n \<le> count_discardable C local slots n txs \<and> count_discardable C local slots n txs \<le> n + int (length txs)"
proof (induction txs arbitrary: n)
  case (Cons tx txs)
  show ?case using Cons.IH [of n] Cons.IH [of "n + 1"] by (auto simp: Let_def)
qed simp

text \<open>Operations of the pool keep the price list consistent with the look-up.\<close>

lemma pl_ok_reheap:
  assumes "keyed (hash_of C) (lk_all all)"
  shows "pl_ok C all \<lparr>pl_items = heap_init priceHeap_Less (map snd (lk_all all)), pl_stales = 0\<rparr>"
proof -
  have "set (heap_init priceHeap_Less (map snd (lk_all all))) = snd ` set (lk_all all)"
    using heap_init_mset [of priceHeap_Less "map snd (lk_all all)"] by (metis list.set_map mset_eq_setD)
  then show ?thesis using assms by (simp add: pl_ok_def price_order.heap_init_heap)
qed

lemma pl_okD:
  assumes "pl_ok C all l"
  shows "is_heap priceHeap_Less (pl_items l)" "keyed (hash_of C) (lk_all all)" "snd ` set (lk_all all) \<subseteq> set (pl_items l)"
    "tx \<in> set (pl_items l) \<Longrightarrow> is_live C all tx \<Longrightarrow> tx \<in> snd ` set (lk_all all)"
  using assms by (auto simp: pl_ok_def)

lemma pl_ok_Removed:
  assumes "pl_ok C all l"
  shows "pl_ok C all (pl_Removed all n l)"
proof (cases "pl_stales l + n \<le> int (length (pl_items l)) div 4")
  case True
  then show ?thesis using assms by (simp add: pl_Removed_def Let_def pl_ok_def)
next
  case False
  then show ?thesis using pl_ok_reheap [OF pl_okD(2) [OF assms]] by (simp add: pl_Removed_def Let_def)
qed

lemma pl_ok_lk_Remove:
  assumes "pl_ok C all l" "lk_Remove C h all = Some all'"
  shows "pl_ok C all' l"
proof -
  have all': "lk_all all' = mdel h (lk_all all)" using assms(2) by (auto simp: lk_Remove_def split: option.splits)
  note ok = pl_okD [OF assms(1)]
  have sub: "snd ` set (lk_all all') \<subseteq> snd ` set (lk_all all)" by (auto simp: all' set_mdel)
  have "tx \<in> snd ` set (lk_all all')" if mem: "tx \<in> set (pl_items l)" and lv: "is_live C all' tx" for tx
  proof -
    have "hash_of C tx \<noteq> h" "is_live C all tx" using lv by (auto simp: is_live_def lk_Get_def all' split: if_splits)
    moreover from this(2) obtain k where "(k, tx) \<in> set (lk_all all)" using ok(4) [OF mem] by force
    moreover have "hash_of C tx = k" using keyed_entry [OF ok(2) calculation(3)] .
    ultimately show ?thesis by (force simp: all' set_mdel)
  qed
  then show ?thesis using ok(1,3) sub keyed_mdel [OF ok(2)] unfolding pl_ok_def by (auto simp: all')
qed

section \<open>Properties\<close>

text \<open>
  C23: A transaction of a remote account is underpriced exactly when the pool is not empty and no
  pooled transaction is cheaper, whatever stale entries the price heap still holds.
\<close>

theorem Underpriced_exact:
  assumes "pl_ok C all l" "\<not> as_containsTx C tx local"
  shows "fst (pl_Underpriced C all tx local l) \<longleftrightarrow>
           lk_all all \<noteq> [] \<and> (\<forall>t \<in> snd ` set (lk_all all). tx_GasPrice tx \<le> tx_GasPrice t)"
proof -
  define l' where "l' = drop_stale C all l"
  have heap: "is_heap priceHeap_Less (pl_items l)" using assms(1) by (simp add: pl_ok_def)
  note d = drop_stale_correct [OF heap, of C all, folded l'_def]
  have "set_mset (filter_mset (is_live C all) (mset (pl_items l'))) = set_mset (filter_mset (is_live C all) (mset (pl_items l)))"
    using d by simp
  then have "{t \<in> set (pl_items l'). is_live C all t} = {t \<in> set (pl_items l). is_live C all t}" by simp
  also have "\<dots> = snd ` set (lk_all all)"
    using pl_okD(3,4) [OF assms(1)] is_live_known [OF pl_okD(2) [OF assms(1)]] by blast
  finally have live: "{t \<in> set (pl_items l'). is_live C all t} = snd ` set (lk_all all)" .
  show ?thesis
  proof (cases "pl_items l' = []")
    case True
    then show ?thesis using live assms(2) by (auto simp: pl_Underpriced_def l'_def [symmetric] Let_def)
  next
    case False
    let ?h = "pl_items l' ! 0"
    have "?h \<in> set (pl_items l')" using False by simp
    then have known: "?h \<in> snd ` set (lk_all all)" using d False live by blast
    have "\<not> priceHeap_Less t ?h" if "t \<in> snd ` set (lk_all all)" for t
    proof -
      have "t \<in> set (pl_items l')" using that live by blast
      then show ?thesis using price_order.heap_root_least [of "pl_items l'" "length (pl_items l')"] d
        by (auto simp: is_heap_def in_set_conv_nth)
    qed
    then have "tx_GasPrice ?h \<le> tx_GasPrice t" if "t \<in> snd ` set (lk_all all)" for t
      using that by (force simp: priceHeap_Less_iff)
    then show ?thesis using known False assms(2)
      by (auto simp: pl_Underpriced_def l'_def [symmetric] Let_def GasPriceCmp_def intro: order_trans)
  qed
qed

definition sample_all :: txLookup where
  "sample_all = lk_Add sample_crypto sample_tx newTxLookup"

definition sample_priced :: txPricedList where
  "sample_priced = pl_Put sample_tx newTxPricedList"

lemma sample_priced_ok: "pl_ok sample_crypto sample_all sample_priced" "lk_all sample_all = [(hash_of sample_crypto sample_tx, sample_tx)]"
proof -
  show all: "lk_all sample_all = [(hash_of sample_crypto sample_tx, sample_tx)]"
    by (simp add: sample_all_def lk_Add_def newTxLookup_def)
  have "mset (pl_items sample_priced) = {#sample_tx#}" by (simp add: sample_priced_def pl_Put_def newTxPricedList_def)
  then have "set (pl_items sample_priced) = {sample_tx}" by (metis set_mset_mset set_mset_single)
  moreover have "is_heap priceHeap_Less (pl_items sample_priced)"
    by (simp add: sample_priced_def pl_Put_def newTxPricedList_def price_order.heap_push_heap)
  ultimately show "pl_ok sample_crypto sample_all sample_priced"
    by (simp add: pl_ok_def all keyed_def gomap_ok_def)
qed

theorem Underpriced_exact_witness:
  "\<not> fst (pl_Underpriced sample_crypto sample_all sample_next (newAccountSet MakeSigner []) sample_priced)"
proof -
  have "\<not> as_containsTx sample_crypto sample_next (newAccountSet MakeSigner [])"
    by (simp add: as_containsTx_def newAccountSet_def as_contains_def split: sum.splits)
  from Underpriced_exact [OF sample_priced_ok(1) this] show ?thesis
    by (simp add: sample_priced_ok(2) sample_tx_def sample_next_def NewTransaction_def newTransaction_def Let_def)
qed

text \<open>
  C24: Making room drops only pooled transactions of remote accounts, and only the worst of them: no
  remote transaction that stays is cheaper than a dropped one. Every other pooled transaction
  stays, and without local accounts enough slots are freed unless nothing is left.
\<close>

theorem Discard_cheapest:
  assumes "is_heap priceHeap_Less (pl_items l)" "pl_Discard C all slots local l = Some (dr, l')"
  shows "is_heap priceHeap_Less (pl_items l') \<and>
         filter_mset (is_live C all) (mset (pl_items l)) = mset dr + filter_mset (is_live C all) (mset (pl_items l')) \<and>
         (\<forall>tx \<in> set dr. \<not> as_containsTx C tx local \<and>
            (\<forall>t \<in> set (pl_items l'). \<not> as_containsTx C t local \<longrightarrow> tx_GasPrice tx \<le> tx_GasPrice t)) \<and>
         (as_empty local \<longrightarrow> pl_items l' = [] \<or> slots \<le> sum_list (map (numSlots C) dr))"
proof -
  define slots' where "slots' = (if \<not> as_empty local \<and> count_discardable C local slots 0 (pl_items l) < slots
      then count_discardable C local slots 0 (pl_items l) else slots)"
  show ?thesis
  proof (cases "slots' = 0")
    case True
    then have "dr = []" "l' = l" using assms(2) by (auto simp: pl_Discard_def Let_def slots'_def split: if_splits)
    then show ?thesis using True assms(1) by (auto simp: slots'_def split: if_splits)
  next
    case False
    obtain dr' save n rest where r: "discard_loop C all local slots' (pl_items l) = ((dr', save), n, rest)" by (metis prod.exhaust)
    note d = discard_loop_correct [OF assms(1) r]
    have l': "dr = dr'" "pl_items l' = fold (\<lambda>tx h. heap_push priceHeap_Less h tx) save rest"
      using assms(2) False r by (auto simp: pl_Discard_def Let_def slots'_def split: if_splits)
    have p: "is_heap priceHeap_Less (pl_items l')" "mset (pl_items l') = mset save + mset rest"
      using push_all [of rest save] d l' by simp_all
    have "set (pl_items l') = set save \<union> set rest" using p(2) by (metis set_mset_mset set_mset_union)
    moreover have "filter_mset (is_live C all) (mset save) = mset save"
      using d by (simp add: filter_id_conv flip: mset_filter)
    moreover have "save = []" if "as_empty local"
      using d that by (cases save) (simp_all add: as_empty_def as_containsTx_def as_contains_def split: sum.splits)
    ultimately show ?thesis using d p l' by (auto simp: priceHeap_Less_iff not_less slots'_def)
  qed
qed

theorem Discard_cheapest_witness:
  "mset [sample_tx] = mset (fst (the (pl_Discard sample_crypto sample_all 1 (newAccountSet MakeSigner []) sample_priced))) +
     filter_mset (is_live sample_crypto sample_all)
       (mset (pl_items (snd (the (pl_Discard sample_crypto sample_all 1 (newAccountSet MakeSigner []) sample_priced)))))"
proof -
  let ?local = "newAccountSet MakeSigner []"
  have empty: "as_empty ?local" by (simp add: as_empty_def newAccountSet_def)
  have items: "mset (pl_items sample_priced) = {#sample_tx#}" by (simp add: sample_priced_def pl_Put_def newTxPricedList_def)
  then have "length (pl_items sample_priced) = 1" by (metis size_mset size_single)
  then obtain dr l' where run: "pl_Discard sample_crypto sample_all 1 ?local sample_priced = Some (dr, l')"
    using empty by (simp add: pl_Discard_def Let_def)
  have "is_live sample_crypto sample_all sample_tx"
    by (rule is_live_known [OF pl_okD(2) [OF sample_priced_ok(1)]]) (simp add: sample_priced_ok(2))
  then have "filter_mset (is_live sample_crypto sample_all) (mset (pl_items sample_priced)) = mset [sample_tx]" by (simp add: items)
  then show ?thesis using Discard_cheapest [OF pl_okD(1) [OF sample_priced_ok(1)] run] run by simp
qed

text \<open>
  C30: Without local accounts, a demand for more slots than the price heap has entries makes
  \<open>Discard\<close> panic on a negative capacity. A transaction takes up to four slots while the pool counts
  transactions to decide that it is full, so the demand can exceed the number of entries.
\<close>

theorem Discard_panics:
  "as_empty local \<Longrightarrow> int (length (pl_items l)) < slots \<Longrightarrow> pl_Discard C all slots local l = None"
  by (simp add: pl_Discard_def Let_def)

theorem Discard_panics_witness:
  "pl_Discard sample_crypto sample_all 2 (newAccountSet MakeSigner []) sample_priced = None"
  by (rule Discard_panics) (simp_all add: as_empty_def newAccountSet_def sample_priced_def pl_Put_def newTxPricedList_def heap_push_def)

end
