(* ===== verification/Tx_Journal.thy ===== *)
theory Tx_Journal
  imports Tx_Types
begin

text \<open>
  The journal of local transactions (\<open>core/tx_journal.go\<close>) and the background recovery of senders
  (\<open>core/tx_cacher.go\<close>). The file of the journal is the list of transactions its bytes decode to,
  followed by a flag saying whether decoding ends in an error; operating system calls can fail, and
  which one fails is an argument.
\<close>

section \<open>The journal\<close>

datatype writer = DevNull | Sink

record journal_file =
  jf_txs :: "Transaction list"
  jf_corrupt :: bool

record txJournal =
  jr_file :: "journal_file option"
  jr_writer :: "writer option"

datatype journal_error = ErrNoActiveJournal | ErrIO | ErrDecodeJournal

definition newTxJournal :: "journal_file option \<Rightarrow> txJournal" where
  "newTxJournal onDisk = \<lparr>jr_file = onDisk, jr_writer = None\<rparr>"

text \<open>The batches \<open>load\<close> hands to the pool: one whenever more than 1024 transactions are collected, and the rest.\<close>

fun load_batches :: "Transaction list \<Rightarrow> Transaction list \<Rightarrow> Transaction list list" where
  "load_batches batch [] = (if 0 < length batch then [batch] else [])"
| "load_batches batch (tx # txs) =
     (let batch = batch @ [tx] in if 1024 < length batch then batch # load_batches [] txs else load_batches batch txs)"

definition load :: "bool \<Rightarrow> (Transaction list \<Rightarrow> 'p \<Rightarrow> 'p) \<Rightarrow> txJournal \<Rightarrow> 'p \<Rightarrow> journal_error option \<times> txJournal \<times> 'p" where
  "load open_fails add j pool =
     (case jr_file j of
        None \<Rightarrow> (None, j, pool)
      | Some f \<Rightarrow>
          if open_fails then (Some ErrIO, j, pool)
          else (if jf_corrupt f then Some ErrDecodeJournal else None, j\<lparr>jr_writer := None\<rparr>,
                fold add (load_batches [] (jf_txs f)) pool))"

text \<open>Inserting appends to the file; a writer that discards leaves it as it is, and so does a failed write.\<close>

definition journal_insert :: "bool \<Rightarrow> Transaction \<Rightarrow> txJournal \<Rightarrow> journal_error option \<times> txJournal" where
  "journal_insert write_fails tx j =
     (case jr_writer j of
        None \<Rightarrow> (Some ErrNoActiveJournal, j)
      | Some DevNull \<Rightarrow> (None, j)
      | Some Sink \<Rightarrow>
          if write_fails then (Some ErrIO, j)
          else (None, j\<lparr>jr_file := map_option (\<lambda>f. f\<lparr>jf_txs := jf_txs f @ [tx]\<rparr>) (jr_file j)\<rparr>))"

text \<open>Where a rotation fails: on closing the old file, opening or writing the new one, renaming it, reopening it.\<close>

datatype rotate_fault = NoFault | CloseFault | OpenFault | EncodeFault | RenameFault | ReopenFault

definition rotate_journal :: "rotate_fault \<Rightarrow> (address, Transaction list) gomap \<Rightarrow> txJournal \<Rightarrow> journal_error option \<times> txJournal" where
  "rotate_journal fault all j =
     (if jr_writer j \<noteq> None \<and> fault = CloseFault then (Some ErrIO, j)
      else let j = j\<lparr>jr_writer := None\<rparr> in
        if fault = OpenFault \<or> fault = EncodeFault \<or> fault = RenameFault then (Some ErrIO, j)
        else let j = j\<lparr>jr_file := Some \<lparr>jf_txs = concat (map snd all), jf_corrupt = False\<rparr>\<rparr> in
          if fault = ReopenFault then (Some ErrIO, j) else (None, j\<lparr>jr_writer := Some Sink\<rparr>))"

definition journal_close :: "bool \<Rightarrow> txJournal \<Rightarrow> journal_error option \<times> txJournal" where
  "journal_close close_fails j =
     (if jr_writer j \<noteq> None then (if close_fails then Some ErrIO else None, j\<lparr>jr_writer := None\<rparr>) else (None, j))"

section \<open>Recovering senders\<close>

definition cacher_tasks :: "nat \<Rightarrow> nat \<Rightarrow> nat" where
  "cacher_tasks threads n = (if n < threads * 4 then (n + 3) div 4 else threads)"

text \<open>One task visits every \<open>inc\<close>-th transaction of a suffix: the indexes into that suffix.\<close>

function stride :: "nat \<Rightarrow> nat \<Rightarrow> nat \<Rightarrow> nat list" where
  "stride i inc n = (if i < n \<and> 0 < inc then i # stride (i + inc) inc n else [])"
  by pat_completeness auto
termination
  by (relation "measure (\<lambda>(i, inc, n). n - i)") auto

declare stride.simps [simp del]

definition recover_senders :: "nat \<Rightarrow> nat \<Rightarrow> nat list list" where
  "recover_senders threads n =
     (if n = 0 then [] else let tasks = cacher_tasks threads n in map (\<lambda>i. map ((+) i) (stride 0 tasks (n - i))) [0..<tasks])"

definition recoverFromBlocks :: "nat \<Rightarrow> Transaction list list \<Rightarrow> nat list list" where
  "recoverFromBlocks threads blocks = recover_senders threads (length (concat blocks))"

section \<open>Properties\<close>

lemma stride_shift: "map ((+) a) (stride i inc n) = stride (a + i) inc (a + n)"
proof (induction i inc n rule: stride.induct)
  case (1 i inc n)
  then show ?case
    by (subst (1 2) stride.simps) (simp add: add.assoc)
qed

lemma set_stride: "0 < inc \<Longrightarrow> set (stride i inc n) = {k. i \<le> k \<and> k < n \<and> k mod inc = i mod inc}"
proof (induction i inc n rule: stride.induct)
  case (1 i inc n)
  show ?case
  proof (cases "i < n")
    case True
    have "k = i \<or> i + inc \<le> k" if "i \<le> k" "k mod inc = i mod inc" for k
    proof (rule ccontr)
      assume "\<not> (k = i \<or> i + inc \<le> k)"
      then have "0 < k - i" "k - i < inc" using that(1) by auto
      moreover have "inc dvd k - i" using that by (metis mod_eq_dvd_iff_nat)
      ultimately show False by (metis nat_dvd_not_less)
    qed
    then show ?thesis using 1 True by (subst stride.simps) (auto simp: \<open>0 < inc\<close>)
  next
    case False
    then show ?thesis by (subst stride.simps) auto
  qed
qed

lemma distinct_stride: "0 < inc \<Longrightarrow> distinct (stride i inc n)"
proof (induction i inc n rule: stride.induct)
  case (1 i inc n)
  then show ?case by (subst stride.simps) (auto simp: set_stride)
qed

text \<open>
  The tasks of the sender cacher split a batch without overlap: together they visit every
  transaction exactly once, for every number of threads above zero.
\<close>

theorem recover_visits_once:
  assumes "0 < threads"
  shows "distinct (concat (recover_senders threads n)) \<and> set (concat (recover_senders threads n)) = {0..<n}"
proof (cases "n = 0")
  case False
  define t where "t = cacher_tasks threads n"
  have t: "0 < t" "t \<le> n" using False assms by (auto simp: t_def cacher_tasks_def)
  have task: "map ((+) i) (stride 0 t (n - i)) = stride i t n" if "i < t" for i
    using stride_shift [of i 0 t "n - i"] that t by simp
  have rec: "recover_senders threads n = map (\<lambda>i. stride i t n) [0..<t]"
    using False task by (simp add: recover_senders_def Let_def t_def [symmetric])
  have mod: "set (stride i t n) = {k. k < n \<and> k mod t = i}" if "i < t" for i
    using that t set_stride [of t i n] mod_less_eq_dividend by (fastforce simp: mod_less)
  have "set (concat (recover_senders threads n)) = {0..<n}"
    using mod t by (auto simp: rec)
  moreover have "distinct (concat (map (\<lambda>i. stride i t n) [0..<m]))" if "m \<le> t" for m
    using that by (induction m) (auto simp: distinct_stride t mod)
  ultimately show ?thesis by (simp add: rec)
qed (simp add: recover_senders_def)

theorem recover_visits_once_witness:
  "distinct (concat (recover_senders 8 21)) \<and> set (concat (recover_senders 8 21)) = {0..<21}"
  by (rule recover_visits_once) simp

lemma load_batches_concat: "concat (load_batches batch txs) = batch @ txs"
  by (induction batch txs rule: load_batches.induct) (auto simp: Let_def)

lemma load_batches_bound: "length batch \<le> 1024 \<Longrightarrow> list_all (\<lambda>b. b \<noteq> [] \<and> length b \<le> 1025) (load_batches batch txs)"
  by (induction batch txs rule: load_batches.induct) (auto simp: Let_def split: if_splits)

lemma fold_append_concat: "fold (\<lambda>batch pool. pool @ batch) bs p = p @ concat bs"
  by (induction bs arbitrary: p) auto


end
