(* ===== verification/Tx_Pool.thy ===== *)
theory Tx_Pool
  imports Tx_Priced Tx_Journal Block_Types "HOL-Library.Monad_Syntax"
begin

text \<open>
  The transaction pool (\<open>core/tx_pool.go\<close>) with its virtual nonces (\<open>core/tx_noncer.go\<close>). Every method
  that takes the pool lock is a function from the pool to the pool, run as a whole; \<open>None\<close> is a
  panic. The chain, the state database, the clock and the priority queue of the go-ethereum library
  are the fields of \<open>pool_env\<close>. Maps are iterated in the order of their association lists, which is
  arbitrary. Reading a hash, a size or a sender fills a cache of the transaction that holds the same
  value, so the transactions are kept as they are; metrics and log lines are left out.
\<close>

section \<open>Environment and state\<close>

record 's pool_env =
  pe_crypto :: crypto_lib
  pe_GetNonce :: "'s \<Rightarrow> address \<Rightarrow> u64"
  pe_GetBalance :: "'s \<Rightarrow> address \<Rightarrow> int"
  pe_GetBlock :: "hash \<Rightarrow> u64 \<Rightarrow> Block option"
  pe_CurrentBlock :: Block
  pe_StateAt :: "hash \<Rightarrow> 's option"
  pe_prque :: "(address \<times> int) list \<Rightarrow> address list"
  pe_now :: int
  pe_write_fails :: bool

record 's txNoncer =
  nn_fallback :: 's
  nn_nonces :: "(address, u64) gomap"

definition newTxNoncer :: "'s \<Rightarrow> 's txNoncer" where
  "newTxNoncer statedb = \<lparr>nn_fallback = statedb, nn_nonces = []\<rparr>"

definition nn_load :: "'s pool_env \<Rightarrow> address \<Rightarrow> 's txNoncer \<Rightarrow> 's txNoncer" where
  "nn_load E addr n =
     (if mget (nn_nonces n) addr = None
      then n\<lparr>nn_nonces := mput addr (pe_GetNonce E (nn_fallback n) addr) (nn_nonces n)\<rparr> else n)"

definition nn_get :: "'s pool_env \<Rightarrow> address \<Rightarrow> 's txNoncer \<Rightarrow> u64 \<times> 's txNoncer" where
  "nn_get E addr n = (let n = nn_load E addr n in (the (mget (nn_nonces n) addr), n))"

definition nn_set :: "address \<Rightarrow> u64 \<Rightarrow> 's txNoncer \<Rightarrow> 's txNoncer" where
  "nn_set addr nonce n = n\<lparr>nn_nonces := mput addr nonce (nn_nonces n)\<rparr>"

definition nn_setIfLower :: "'s pool_env \<Rightarrow> address \<Rightarrow> u64 \<Rightarrow> 's txNoncer \<Rightarrow> 's txNoncer" where
  "nn_setIfLower E addr nonce n =
     (let n = nn_load E addr n in if the (mget (nn_nonces n) addr) \<le> nonce then n else nn_set addr nonce n)"

datatype pool_error =
    ErrAlreadyKnown
  | ErrInvalidSender
  | ErrUnderpriced
  | ErrReplaceUnderpriced
  | ErrGasLimit
  | ErrNegativeValue
  | ErrOversizedData
  | ErrNonceTooLow
  | ErrInsufficientFunds

datatype TxStatus = TxStatusUnknown | TxStatusQueued | TxStatusPending | TxStatusIncluded

record TxPoolConfig =
  pc_Locals :: "address list"
  pc_NoLocals :: bool
  pc_Journal :: string
  pc_Rejournal :: int
  pc_PriceLimit :: u64
  pc_PriceBump :: u64
  pc_AccountSlots :: u64
  pc_GlobalSlots :: u64
  pc_AccountQueue :: u64
  pc_GlobalQueue :: u64
  pc_Lifetime :: int

text \<open>Durations are nanoseconds.\<close>

definition DefaultTxPoolConfig :: TxPoolConfig where
  "DefaultTxPoolConfig =
     \<lparr>pc_Locals = [], pc_NoLocals = False, pc_Journal = ''transactions.rlp'', pc_Rejournal = 3600 * 10 ^ 9,
      pc_PriceLimit = 1, pc_PriceBump = 10, pc_AccountSlots = 16, pc_GlobalSlots = 4096,
      pc_AccountQueue = 64, pc_GlobalQueue = 1024, pc_Lifetime = 3 * 3600 * 10 ^ 9\<rparr>"

definition sanitize :: "TxPoolConfig \<Rightarrow> TxPoolConfig" where
  "sanitize conf =
     (let d = DefaultTxPoolConfig;
          conf = (if pc_Rejournal conf < 10 ^ 9 then conf\<lparr>pc_Rejournal := 10 ^ 9\<rparr> else conf);
          conf = (if pc_PriceLimit conf < 1 then conf\<lparr>pc_PriceLimit := pc_PriceLimit d\<rparr> else conf);
          conf = (if pc_PriceBump conf < 1 then conf\<lparr>pc_PriceBump := pc_PriceBump d\<rparr> else conf);
          conf = (if pc_AccountSlots conf < 1 then conf\<lparr>pc_AccountSlots := pc_AccountSlots d\<rparr> else conf);
          conf = (if pc_GlobalSlots conf < 1 then conf\<lparr>pc_GlobalSlots := pc_GlobalSlots d\<rparr> else conf);
          conf = (if pc_AccountQueue conf < 1 then conf\<lparr>pc_AccountQueue := pc_AccountQueue d\<rparr> else conf);
          conf = (if pc_GlobalQueue conf < 1 then conf\<lparr>pc_GlobalQueue := pc_GlobalQueue d\<rparr> else conf)
      in if pc_Lifetime conf < 1 then conf\<lparr>pc_Lifetime := pc_Lifetime d\<rparr> else conf)"

text \<open>\<open>tp_events\<close> holds the transactions sent to the channel of queued events and not yet received.\<close>

record 's TxPool =
  tp_config :: TxPoolConfig
  tp_gasPrice :: int
  tp_signer :: Signer
  tp_currentState :: "'s option"
  tp_pendingNonces :: "'s txNoncer option"
  tp_currentMaxGas :: u64
  tp_locals :: accountSet
  tp_journal :: "txJournal option"
  tp_pending :: "(address, txList) gomap"
  tp_queue :: "(address, txList) gomap"
  tp_beats :: "(address, int) gomap"
  tp_all :: txLookup
  tp_priced :: txPricedList
  tp_events :: "Transaction list"

section \<open>Adding and removing one transaction\<close>

primrec foreach :: "('a \<Rightarrow> 'b \<Rightarrow> 'b option) \<Rightarrow> 'a list \<Rightarrow> 'b \<Rightarrow> 'b option" where
  "foreach f [] s = Some s"
| "foreach f (x # xs) s = f x s \<bind> foreach f xs"

text \<open>The address \<open>Sender\<close> returns, the zero address next to an error.\<close>

definition sender_of :: "'s pool_env \<Rightarrow> 's TxPool \<Rightarrow> Transaction \<Rightarrow> address" where
  "sender_of E p tx = (case fst (Sender (pe_crypto E) (tp_signer p) tx) of Inl _ \<Rightarrow> 0 | Inr addr \<Rightarrow> addr)"

definition all_remove :: "'s pool_env \<Rightarrow> Transaction \<Rightarrow> 's TxPool \<Rightarrow> 's TxPool option" where
  "all_remove E tx p =
     do { all \<leftarrow> lk_Remove (pe_crypto E) (hash_of (pe_crypto E) tx) (tp_all p); Some (p\<lparr>tp_all := all\<rparr>) }"

definition all_add :: "'s pool_env \<Rightarrow> Transaction \<Rightarrow> 's TxPool \<Rightarrow> 's TxPool" where
  "all_add E tx p = p\<lparr>tp_all := lk_Add (pe_crypto E) tx (tp_all p), tp_priced := pl_Put tx (tp_priced p)\<rparr>"

definition priced_removed :: "int \<Rightarrow> 's TxPool \<Rightarrow> 's TxPool" where
  "priced_removed n p = p\<lparr>tp_priced := pl_Removed (tp_all p) n (tp_priced p)\<rparr>"

definition replace_old :: "'s pool_env \<Rightarrow> Transaction option \<Rightarrow> 's TxPool \<Rightarrow> 's TxPool option" where
  "replace_old E old p =
     (case old of None \<Rightarrow> Some p | Some tx \<Rightarrow> do { p \<leftarrow> all_remove E tx p; Some (priced_removed 1 p) })"

definition add_if_unknown :: "'s pool_env \<Rightarrow> Transaction \<Rightarrow> 's TxPool \<Rightarrow> 's TxPool" where
  "add_if_unknown E tx p = (if lk_Get (hash_of (pe_crypto E) tx) (tp_all p) = None then all_add E tx p else p)"

definition enqueueTx :: "'s pool_env \<Rightarrow> Transaction \<Rightarrow> 's TxPool \<Rightarrow> ((pool_error + bool) \<times> 's TxPool) option" where
  "enqueueTx E tx p =
     (let from = sender_of E p tx;
          list = (case mget (tp_queue p) from of None \<Rightarrow> newTxList False | Some l \<Rightarrow> l);
          r = tl_Add tx (pc_PriceBump (tp_config p)) list; inserted = fst (fst r); old = snd (fst r);
          p = p\<lparr>tp_queue := mput from (snd r) (tp_queue p)\<rparr>
      in if \<not> inserted then Some (Inl ErrReplaceUnderpriced, p)
         else do {
           p \<leftarrow> replace_old E old p;
           let p = add_if_unknown E tx p;
           let p = (if mget (tp_beats p) from = None then p\<lparr>tp_beats := mput from (pe_now E) (tp_beats p)\<rparr> else p);
           Some (Inr (old \<noteq> None), p) })"

definition journalTx :: "'s pool_env \<Rightarrow> address \<Rightarrow> Transaction \<Rightarrow> 's TxPool \<Rightarrow> 's TxPool" where
  "journalTx E from tx p =
     (case tp_journal p of
        None \<Rightarrow> p
      | Some j \<Rightarrow> if \<not> as_contains from (tp_locals p) then p
                  else p\<lparr>tp_journal := Some (snd (journal_insert (pe_write_fails E) tx j))\<rparr>)"

definition queueTxEvent :: "Transaction \<Rightarrow> 's TxPool \<Rightarrow> 's TxPool" where
  "queueTxEvent tx p = p\<lparr>tp_events := tp_events p @ [tx]\<rparr>"

definition promoteTx :: "'s pool_env \<Rightarrow> address \<Rightarrow> Transaction \<Rightarrow> 's TxPool \<Rightarrow> (bool \<times> 's TxPool) option" where
  "promoteTx E addr tx p =
     (let list = (case mget (tp_pending p) addr of None \<Rightarrow> newTxList True | Some l \<Rightarrow> l);
          r = tl_Add tx (pc_PriceBump (tp_config p)) list; inserted = fst (fst r); old = snd (fst r);
          p = p\<lparr>tp_pending := mput addr (snd r) (tp_pending p)\<rparr>
      in if \<not> inserted then do { p \<leftarrow> all_remove E tx p; Some (False, priced_removed 1 p) }
         else do {
           p \<leftarrow> replace_old E old p;
           let p = add_if_unknown E tx p;
           nonces \<leftarrow> tp_pendingNonces p;
           Some (True, p\<lparr>tp_pendingNonces := Some (nn_set addr (tx_Nonce tx + 1) nonces),
                         tp_beats := mput addr (pe_now E) (tp_beats p)\<rparr>) })"

text \<open>\<open>lower_nonce\<close> is a call of \<open>pendingNonces.setIfLower\<close>.\<close>

definition lower_nonce :: "'s pool_env \<Rightarrow> address \<Rightarrow> Transaction \<Rightarrow> 's TxPool \<Rightarrow> 's TxPool option" where
  "lower_nonce E addr tx p =
     do { nonces \<leftarrow> tp_pendingNonces p;
          Some (p\<lparr>tp_pendingNonces := Some (nn_setIfLower E addr (tx_Nonce tx) nonces)\<rparr>) }"

definition enqueue_all :: "'s pool_env \<Rightarrow> Transaction list \<Rightarrow> 's TxPool \<Rightarrow> 's TxPool option" where
  "enqueue_all E txs p = foreach (\<lambda>tx p. map_option snd (enqueueTx E tx p)) txs p"

definition pending_remove :: "address \<Rightarrow> Transaction \<Rightarrow> 's TxPool \<Rightarrow> (Transaction list \<times> txList) option" where
  "pending_remove addr tx p =
     (case mget (tp_pending p) addr of
        None \<Rightarrow> None
      | Some l \<Rightarrow> (let r = tl_Remove tx l in if fst (fst r) then Some (snd (fst r), snd r) else None))"

definition queue_remove :: "address \<Rightarrow> Transaction \<Rightarrow> 's TxPool \<Rightarrow> 's TxPool" where
  "queue_remove addr tx p =
     (case mget (tp_queue p) addr of
        None \<Rightarrow> p
      | Some l \<Rightarrow>
          (let future = snd (tl_Remove tx l)
           in if tl_Empty future
              then p\<lparr>tp_queue := mdel addr (tp_queue p), tp_beats := mdel addr (tp_beats p)\<rparr>
              else p\<lparr>tp_queue := mput addr future (tp_queue p)\<rparr>))"

definition set_pending :: "address \<Rightarrow> txList \<Rightarrow> 's TxPool \<Rightarrow> 's TxPool" where
  "set_pending addr l p =
     p\<lparr>tp_pending := (if tl_Empty l then mdel addr (tp_pending p) else mput addr l (tp_pending p))\<rparr>"

definition removeTx :: "'s pool_env \<Rightarrow> hash \<Rightarrow> bool \<Rightarrow> 's TxPool \<Rightarrow> 's TxPool option" where
  "removeTx E h outofbound p =
     (case lk_Get h (tp_all p) of
        None \<Rightarrow> Some p
      | Some tx \<Rightarrow>
          do {
            let addr = sender_of E p tx;
            all \<leftarrow> lk_Remove (pe_crypto E) h (tp_all p);
            let p = p\<lparr>tp_all := all\<rparr>;
            let p = (if outofbound then priced_removed 1 p else p);
            (case pending_remove addr tx p of
               Some (invalids, l) \<Rightarrow>
                 do { p \<leftarrow> enqueue_all E invalids (set_pending addr l p); lower_nonce E addr tx p }
             | None \<Rightarrow> Some (queue_remove addr tx p)) })"

definition remove_all :: "'s pool_env \<Rightarrow> bool \<Rightarrow> Transaction list \<Rightarrow> 's TxPool \<Rightarrow> 's TxPool option" where
  "remove_all E outofbound txs p = foreach (\<lambda>tx. removeTx E (hash_of (pe_crypto E) tx) outofbound) txs p"

section \<open>Validating and adding\<close>

definition validateTx :: "'s pool_env \<Rightarrow> Transaction \<Rightarrow> bool \<Rightarrow> 's TxPool \<Rightarrow> pool_error option option" where
  "validateTx E tx local p =
     (if txMaxSize < fst (tx_Size (pe_crypto E) tx) then Some (Some ErrOversizedData)
      else if td_Amount (tx_data tx) < 0 then Some (Some ErrNegativeValue)
      else case fst (Sender (pe_crypto E) (tp_signer p) tx) of
        Inl e \<Rightarrow> if e = SigPanic then None else Some (Some ErrInvalidSender)
      | Inr from \<Rightarrow>
          let local = (local \<or> as_contains from (tp_locals p))
          in if \<not> local \<and> GasPriceIntCmp tx (tp_gasPrice p) < 0 then Some (Some ErrUnderpriced)
             else do {
               st \<leftarrow> tp_currentState p;
               if tx_Nonce tx < pe_GetNonce E st from then Some (Some ErrNonceTooLow)
               else if big_Cmp (pe_GetBalance E st from) (tx_Cost tx) < 0 then Some (Some ErrInsufficientFunds)
               else Some None })"

definition pool_full :: "'s TxPool \<Rightarrow> bool" where
  "pool_full p \<longleftrightarrow> pc_GlobalSlots (tp_config p) + pc_GlobalQueue (tp_config p) \<le> word_of_int (lk_Count (tp_all p))"

definition make_room :: "'s pool_env \<Rightarrow> Transaction \<Rightarrow> bool \<Rightarrow> 's TxPool \<Rightarrow> (pool_error option \<times> 's TxPool) option" where
  "make_room E tx local p =
     (if pool_full p
      then let C = pe_crypto E;
               u = (if local then (False, tp_priced p) else pl_Underpriced C (tp_all p) tx (tp_locals p) (tp_priced p));
               p = p\<lparr>tp_priced := snd u\<rparr>;
               slots = lk_slots (tp_all p) - sint (pc_GlobalSlots (tp_config p) + pc_GlobalQueue (tp_config p)) + numSlots C tx
           in if fst u then Some (Some ErrUnderpriced, p)
              else do {
                d \<leftarrow> pl_Discard C (tp_all p) slots (tp_locals p) (tp_priced p);
                p \<leftarrow> remove_all E False (fst d) (p\<lparr>tp_priced := snd d\<rparr>);
                Some (None, p) }
      else Some (None, p))"

definition pending_overlap :: "address \<Rightarrow> Transaction \<Rightarrow> 's TxPool \<Rightarrow> txList option" where
  "pending_overlap from tx p =
     (case mget (tp_pending p) from of None \<Rightarrow> None | Some l \<Rightarrow> if tl_Overlaps tx l then Some l else None)"

definition add_pending :: "'s pool_env \<Rightarrow> address \<Rightarrow> Transaction \<Rightarrow> txList \<Rightarrow> 's TxPool \<Rightarrow> ((pool_error + bool) \<times> 's TxPool) option" where
  "add_pending E from tx l p =
     (let r = tl_Add tx (pc_PriceBump (tp_config p)) l; inserted = fst (fst r); old = snd (fst r);
          p = p\<lparr>tp_pending := mput from (snd r) (tp_pending p)\<rparr>
      in if \<not> inserted then Some (Inl ErrReplaceUnderpriced, p)
         else do {
           p \<leftarrow> replace_old E old p;
           let p = queueTxEvent tx (journalTx E from tx (all_add E tx p));
           Some (Inr (old \<noteq> None), p\<lparr>tp_beats := mput from (pe_now E) (tp_beats p)\<rparr>) })"

definition add_queue :: "'s pool_env \<Rightarrow> address \<Rightarrow> Transaction \<Rightarrow> bool \<Rightarrow> 's TxPool \<Rightarrow> ((pool_error + bool) \<times> 's TxPool) option" where
  "add_queue E from tx local p =
     do {
       r \<leftarrow> enqueueTx E tx p;
       (case r of
          (Inl e, p) \<Rightarrow> Some (Inl e, p)
        | (Inr replaced, p) \<Rightarrow>
            let p = (if local \<and> \<not> as_contains from (tp_locals p) then p\<lparr>tp_locals := as_add from (tp_locals p)\<rparr> else p)
            in Some (Inr replaced, journalTx E from tx p)) }"

definition tp_add :: "'s pool_env \<Rightarrow> Transaction \<Rightarrow> bool \<Rightarrow> 's TxPool \<Rightarrow> ((pool_error + bool) \<times> 's TxPool) option" where
  "tp_add E tx local p =
     (if lk_Get (hash_of (pe_crypto E) tx) (tp_all p) \<noteq> None then Some (Inl ErrAlreadyKnown, p)
      else do {
        v \<leftarrow> validateTx E tx local p;
        (case v of
           Some e \<Rightarrow> Some (Inl e, p)
         | None \<Rightarrow> do {
             m \<leftarrow> make_room E tx local p;
             (case m of
                (Some e, p) \<Rightarrow> Some (Inl e, p)
              | (None, p) \<Rightarrow>
                  let from = sender_of E p tx
                  in (case pending_overlap from tx p of
                        Some l \<Rightarrow> add_pending E from tx l p
                      | None \<Rightarrow> add_queue E from tx local p)) }) })"


primrec addTxsLocked_loop ::
  "'s pool_env \<Rightarrow> bool \<Rightarrow> Transaction list \<Rightarrow> accountSet \<Rightarrow> 's TxPool
     \<Rightarrow> ((pool_error option list \<times> accountSet) \<times> 's TxPool) option" where
  "addTxsLocked_loop E local [] dirty p = Some (([], dirty), p)"
| "addTxsLocked_loop E local (tx # txs) dirty p =
     do {
       a \<leftarrow> tp_add E tx local p;
       let err = (case fst a of Inl e \<Rightarrow> Some e | Inr _ \<Rightarrow> None);
       let dirty = (if fst a = Inr False then as_addTx (pe_crypto E) tx dirty else dirty);
       r \<leftarrow> addTxsLocked_loop E local txs dirty (snd a);
       Some ((err # fst (fst r), snd (fst r)), snd r) }"

definition addTxsLocked ::
  "'s pool_env \<Rightarrow> Transaction list \<Rightarrow> bool \<Rightarrow> 's TxPool \<Rightarrow> ((pool_error option list \<times> accountSet) \<times> 's TxPool) option" where
  "addTxsLocked E txs local p = addTxsLocked_loop E local txs (newAccountSet (tp_signer p) []) p"

text \<open>The first pass of \<open>addTxs\<close>, before the lock: the errors of the known and the unsigned ones.\<close>

definition precheck :: "'s pool_env \<Rightarrow> 's TxPool \<Rightarrow> Transaction \<Rightarrow> pool_error option option" where
  "precheck E p tx =
     (if lk_Get (hash_of (pe_crypto E) tx) (tp_all p) \<noteq> None then Some (Some ErrAlreadyKnown)
      else case fst (Sender (pe_crypto E) (tp_signer p) tx) of
        Inl e \<Rightarrow> if e = SigPanic then None else Some (Some ErrInvalidSender)
      | Inr _ \<Rightarrow> Some None)"

text \<open>The errors of the second pass go to the free slots; running out of slots is a panic.\<close>

fun merge_errs :: "pool_error option list \<Rightarrow> pool_error option list \<Rightarrow> pool_error option list option" where
  "merge_errs errs [] = Some errs"
| "merge_errs [] (e # es) = None"
| "merge_errs (Some x # errs) (e # es) = map_option ((#) (Some x)) (merge_errs errs (e # es))"
| "merge_errs (None # errs) (e # es) = map_option ((#) e) (merge_errs errs es)"

definition addTxs ::
  "'s pool_env \<Rightarrow> Transaction list \<Rightarrow> bool \<Rightarrow> 's TxPool \<Rightarrow> ((pool_error option list \<times> accountSet option) \<times> 's TxPool) option" where
  "addTxs E txs local p =
     do {
       errs \<leftarrow> those (map (precheck E p) txs);
       let news = map snd (filter (\<lambda>(e, tx). e = None) (zip errs txs));
       if length news = 0 then Some ((errs, None), p)
       else do {
         a \<leftarrow> addTxsLocked E news local p;
         errs \<leftarrow> merge_errs errs (fst (fst a));
         Some ((errs, Some (snd (fst a))), snd a) } }"

definition AddLocals ::
  "'s pool_env \<Rightarrow> Transaction list \<Rightarrow> 's TxPool \<Rightarrow> ((pool_error option list \<times> accountSet option) \<times> 's TxPool) option" where
  "AddLocals E txs p = addTxs E txs (\<not> pc_NoLocals (tp_config p)) p"

definition AddRemotes ::
  "'s pool_env \<Rightarrow> Transaction list \<Rightarrow> 's TxPool \<Rightarrow> ((pool_error option list \<times> accountSet option) \<times> 's TxPool) option" where
  "AddRemotes E txs p = addTxs E txs False p"

text \<open>The single-transaction versions return the first error; an empty result would be a panic.\<close>

definition first_error ::
  "((pool_error option list \<times> accountSet option) \<times> 's TxPool) option \<Rightarrow> ((pool_error option \<times> accountSet option) \<times> 's TxPool) option" where
  "first_error r =
     do { ((errs, dirty), p) \<leftarrow> r; (case errs of [] \<Rightarrow> None | e # _ \<Rightarrow> Some ((e, dirty), p)) }"

definition AddLocal :: "'s pool_env \<Rightarrow> Transaction \<Rightarrow> 's TxPool \<Rightarrow> ((pool_error option \<times> accountSet option) \<times> 's TxPool) option" where
  "AddLocal E tx p = first_error (AddLocals E [tx] p)"

definition AddRemote :: "'s pool_env \<Rightarrow> Transaction \<Rightarrow> 's TxPool \<Rightarrow> ((pool_error option \<times> accountSet option) \<times> 's TxPool) option" where
  "AddRemote E tx p = first_error (AddRemotes E [tx] p)"

section \<open>Reading the pool\<close>

definition tp_Get :: "hash \<Rightarrow> 's TxPool \<Rightarrow> Transaction option" where
  "tp_Get h p = lk_Get h (tp_all p)"

definition tp_Has :: "hash \<Rightarrow> 's TxPool \<Rightarrow> bool" where
  "tp_Has h p \<longleftrightarrow> lk_Get h (tp_all p) \<noteq> None"

definition tp_Nonce :: "'s pool_env \<Rightarrow> address \<Rightarrow> 's TxPool \<Rightarrow> (u64 \<times> 's TxPool) option" where
  "tp_Nonce E addr p =
     do { n \<leftarrow> tp_pendingNonces p; let g = nn_get E addr n; Some (fst g, p\<lparr>tp_pendingNonces := Some (snd g)\<rparr>) }"

definition holds_nonce :: "(address, txList) gomap \<Rightarrow> address \<Rightarrow> Transaction \<Rightarrow> bool" where
  "holds_nonce m addr tx \<longleftrightarrow> (case mget m addr of None \<Rightarrow> False | Some l \<Rightarrow> sm_Get (tx_Nonce tx) (tl_txs l) \<noteq> None)"

definition Status :: "'s pool_env \<Rightarrow> hash list \<Rightarrow> 's TxPool \<Rightarrow> TxStatus list" where
  "Status E hashes p =
     map (\<lambda>h. case tp_Get h p of
                None \<Rightarrow> TxStatusUnknown
              | Some tx \<Rightarrow>
                  (let from = sender_of E p tx
                   in if holds_nonce (tp_pending p) from tx then TxStatusPending
                      else if holds_nonce (tp_queue p) from tx then TxStatusQueued else TxStatusUnknown)) hashes"

definition tp_stats :: "'s TxPool \<Rightarrow> int \<times> int" where
  "tp_stats p = (sum_list (map (tl_Len \<circ> snd) (tp_pending p)), sum_list (map (tl_Len \<circ> snd) (tp_queue p)))"

text \<open>Flattening the lists of a map also fills their caches.\<close>

definition flatten_lists :: "(address, txList) gomap \<Rightarrow> (address, Transaction list) gomap \<times> (address, txList) gomap" where
  "flatten_lists m = (map (\<lambda>(a, l). (a, fst (tl_Flatten l))) m, map (\<lambda>(a, l). (a, snd (tl_Flatten l))) m)"

definition Pending :: "'s TxPool \<Rightarrow> (address, Transaction list) gomap \<times> 's TxPool" where
  "Pending p = (let f = flatten_lists (tp_pending p) in (fst f, p\<lparr>tp_pending := snd f\<rparr>))"

definition Content ::
  "'s TxPool \<Rightarrow> ((address, Transaction list) gomap \<times> (address, Transaction list) gomap) \<times> 's TxPool" where
  "Content p =
     (let f = flatten_lists (tp_pending p); g = flatten_lists (tp_queue p)
      in ((fst f, fst g), p\<lparr>tp_pending := snd f, tp_queue := snd g\<rparr>))"

definition Locals :: "'s TxPool \<Rightarrow> address list \<times> 's TxPool" where
  "Locals p = (let f = as_flatten (tp_locals p) in (fst f, p\<lparr>tp_locals := snd f\<rparr>))"

text \<open>\<open>local\<close>: the transactions of each local account that has a list, pending before queued.\<close>

definition flat_at :: "(address, txList) gomap \<Rightarrow> address \<Rightarrow> Transaction list \<times> (address, txList) gomap" where
  "flat_at m addr =
     (case mget m addr of
        None \<Rightarrow> ([], m)
      | Some l \<Rightarrow> (fst (tl_Flatten l), mput addr (snd (tl_Flatten l)) m))"

definition local_account ::
  "address \<Rightarrow> (address, Transaction list) gomap \<times> 's TxPool \<Rightarrow> (address, Transaction list) gomap \<times> 's TxPool" where
  "local_account addr s =
     (let p = snd s; f = flat_at (tp_pending p) addr; g = flat_at (tp_queue p) addr
      in (if mget (tp_pending p) addr = None \<and> mget (tp_queue p) addr = None then fst s
          else mput addr (fst f @ fst g) (fst s),
          p\<lparr>tp_pending := snd f, tp_queue := snd g\<rparr>))"

definition tp_local :: "'s TxPool \<Rightarrow> (address, Transaction list) gomap \<times> 's TxPool" where
  "tp_local p = fold local_account (map fst (as_accounts (tp_locals p))) ([], p)"

section \<open>Reorganising the pool\<close>

definition promote_ready ::
  "'s pool_env \<Rightarrow> address \<Rightarrow> Transaction \<Rightarrow> Transaction list \<times> 's TxPool \<Rightarrow> (Transaction list \<times> 's TxPool) option" where
  "promote_ready E addr tx s =
     do { r \<leftarrow> promoteTx E addr tx (snd s); Some (if fst r then fst s @ [tx] else fst s, snd r) }"

definition put_queue :: "address \<Rightarrow> txList \<Rightarrow> 's TxPool \<Rightarrow> 's TxPool" where
  "put_queue addr l p = p\<lparr>tp_queue := mput addr l (tp_queue p)\<rparr>"

definition put_pending :: "address \<Rightarrow> txList \<Rightarrow> 's TxPool \<Rightarrow> 's TxPool" where
  "put_pending addr l p = p\<lparr>tp_pending := mput addr l (tp_pending p)\<rparr>"

definition cap_queue ::
  "'s pool_env \<Rightarrow> address \<Rightarrow> txList \<Rightarrow> 's TxPool \<Rightarrow> (Transaction list \<times> txList \<times> 's TxPool) option" where
  "cap_queue E addr l p =
     (if as_contains addr (tp_locals p) then Some ([], l, p)
      else do {
        c \<leftarrow> tl_Cap (sint (pc_AccountQueue (tp_config p))) l;
        p \<leftarrow> foreach (all_remove E) (fst c) (put_queue addr (snd c) p);
        Some (fst c, snd c, p) })"

definition close_queue :: "address \<Rightarrow> txList \<Rightarrow> 's TxPool \<Rightarrow> 's TxPool" where
  "close_queue addr l p =
     (if tl_Empty l then p\<lparr>tp_queue := mdel addr (tp_queue p), tp_beats := mdel addr (tp_beats p)\<rparr> else p)"

text \<open>
  One account of \<open>promoteExecutables\<close>. The list of the account is a pointer that is changed in place,
  so each change is stored at once.
\<close>

definition promote_account ::
  "'s pool_env \<Rightarrow> address \<Rightarrow> Transaction list \<times> 's TxPool \<Rightarrow> (Transaction list \<times> 's TxPool) option" where
  "promote_account E addr s =
     (case mget (tp_queue (snd s)) addr of
        None \<Rightarrow> Some s
      | Some l \<Rightarrow> do {
          let p = snd s;
          st \<leftarrow> tp_currentState p;
          let f = tl_Forward (pe_GetNonce E st addr) l;
          p \<leftarrow> foreach (all_remove E) (fst f) (put_queue addr (snd f) p);
          let d = tl_Filter (pe_GetBalance E st addr) (tp_currentMaxGas p) (snd f);
          p \<leftarrow> foreach (all_remove E) (fst (fst d)) (put_queue addr (snd d) p);
          n \<leftarrow> tp_pendingNonces p;
          let g = nn_get E addr n;
          let p = p\<lparr>tp_pendingNonces := Some (snd g)\<rparr>;
          let r = tl_Ready (fst g) (snd d);
          q \<leftarrow> foreach (promote_ready E addr) (fst r) (fst s, put_queue addr (snd r) p);
          c \<leftarrow> cap_queue E addr (snd r) (snd q);
          let p = priced_removed (int (length (fst f) + length (fst (fst d)) + length (fst c))) (snd (snd c));
          Some (fst q, close_queue addr (fst (snd c)) p) })"

definition promoteExecutables ::
  "'s pool_env \<Rightarrow> address list \<Rightarrow> 's TxPool \<Rightarrow> (Transaction list \<times> 's TxPool) option" where
  "promoteExecutables E accounts p = foreach (promote_account E) accounts ([], p)"

definition demote_gapped ::
  "'s pool_env \<Rightarrow> address \<Rightarrow> u64 \<Rightarrow> txList \<Rightarrow> 's TxPool \<Rightarrow> (txList \<times> 's TxPool) option" where
  "demote_gapped E addr nonce l p =
     (if 0 < tl_Len l \<and> sm_Get nonce (tl_txs l) = None
      then do { c \<leftarrow> tl_Cap 0 l; p \<leftarrow> enqueue_all E (fst c) (put_pending addr (snd c) p); Some (snd c, p) }
      else Some (l, p))"

definition demote_account :: "'s pool_env \<Rightarrow> address \<Rightarrow> 's TxPool \<Rightarrow> 's TxPool option" where
  "demote_account E addr p =
     (case mget (tp_pending p) addr of
        None \<Rightarrow> Some p
      | Some l \<Rightarrow> do {
          st \<leftarrow> tp_currentState p;
          let nonce = pe_GetNonce E st addr;
          let f = tl_Forward nonce l;
          p \<leftarrow> foreach (all_remove E) (fst f) (put_pending addr (snd f) p);
          let d = tl_Filter (pe_GetBalance E st addr) (tp_currentMaxGas p) (snd f);
          p \<leftarrow> foreach (all_remove E) (fst (fst d)) (put_pending addr (snd d) p);
          let p = priced_removed (int (length (fst f) + length (fst (fst d)))) p;
          p \<leftarrow> enqueue_all E (snd (fst d)) p;
          g \<leftarrow> demote_gapped E addr nonce (snd d) p;
          let p = snd g;
          Some (if tl_Empty (fst g) then p\<lparr>tp_pending := mdel addr (tp_pending p)\<rparr> else p) })"

definition demoteUnexecutables :: "'s pool_env \<Rightarrow> 's TxPool \<Rightarrow> 's TxPool option" where
  "demoteUnexecutables E p = foreach (demote_account E) (map fst (tp_pending p)) p"

section \<open>Keeping the pool within its limits\<close>

text \<open>Dropping the last transaction of an account; the second component counts the pending ones.\<close>

definition drop_capped :: "'s pool_env \<Rightarrow> address \<Rightarrow> Transaction \<Rightarrow> 's TxPool \<Rightarrow> 's TxPool option" where
  "drop_capped E addr tx p = do { p \<leftarrow> all_remove E tx p; lower_nonce E addr tx p }"

definition cap_one :: "'s pool_env \<Rightarrow> address \<Rightarrow> 's TxPool \<times> u64 \<Rightarrow> ('s TxPool \<times> u64) option" where
  "cap_one E addr s =
     do {
       l \<leftarrow> mget (tp_pending (fst s)) addr;
       c \<leftarrow> tl_Cap (tl_Len l - 1) l;
       p \<leftarrow> foreach (drop_capped E addr) (fst c) (put_pending addr (snd c) (fst s));
       Some (priced_removed (int (length (fst c))) p, snd s - 1) }"

text \<open>
  The two reducing loops of \<open>truncatePending\<close>: as long as there are too many pending transactions and
  \<open>longer\<close> holds of the list of \<open>final\<close>, every account of \<open>addrs\<close> loses its last transaction. The
  list of \<open>final\<close> shrinks in each round, so its length is fuel enough.
\<close>

fun shrink ::
  "nat \<Rightarrow> 's pool_env \<Rightarrow> (txList \<Rightarrow> bool) \<Rightarrow> address list \<Rightarrow> address \<Rightarrow> 's TxPool \<times> u64 \<Rightarrow> ('s TxPool \<times> u64) option" where
  "shrink 0 E longer addrs final s = None"
| "shrink (Suc fuel) E longer addrs final s =
     (if pc_GlobalSlots (tp_config (fst s)) < snd s
      then do {
        l \<leftarrow> mget (tp_pending (fst s)) final;
        if longer l then foreach (cap_one E) addrs s \<bind> shrink fuel E longer addrs final else Some s }
      else Some s)"

definition shrink_fuel :: "address \<Rightarrow> 's TxPool \<Rightarrow> nat" where
  "shrink_fuel addr p = (case mget (tp_pending p) addr of None \<Rightarrow> 1 | Some l \<Rightarrow> nat (tl_Len l) + 1)"

primrec equalize ::
  "'s pool_env \<Rightarrow> address list \<Rightarrow> address list \<Rightarrow> 's TxPool \<times> u64 \<Rightarrow> (address list \<times> 's TxPool \<times> u64) option" where
  "equalize E [] offenders s = Some (offenders, s)"
| "equalize E (offender # spammers) offenders s =
     (if pc_GlobalSlots (tp_config (fst s)) < snd s
      then if offenders = [] then equalize E spammers [offender] s
           else do {
             l \<leftarrow> mget (tp_pending (fst s)) offender;
             s \<leftarrow> shrink (shrink_fuel (last offenders) (fst s)) E (\<lambda>x. tl_Len l < tl_Len x) offenders (last offenders) s;
             equalize E spammers (offenders @ [offender]) s }
      else Some (offenders, s))"

definition count_lists :: "(address, txList) gomap \<Rightarrow> u64" where
  "count_lists m = sum_list (map (\<lambda>(a, l). word_of_int (tl_Len l)) m)"

definition spammers_of :: "'s pool_env \<Rightarrow> 's TxPool \<Rightarrow> address list" where
  "spammers_of E p =
     pe_prque E (map (\<lambda>(a, l). (a, tl_Len l))
       (filter (\<lambda>(a, l). \<not> as_contains a (tp_locals p) \<and> pc_AccountSlots (tp_config p) < word_of_int (tl_Len l)) (tp_pending p)))"

definition truncatePending :: "'s pool_env \<Rightarrow> 's TxPool \<Rightarrow> 's TxPool option" where
  "truncatePending E p =
     (let n = count_lists (tp_pending p)
      in if n \<le> pc_GlobalSlots (tp_config p) then Some p
         else do {
           r \<leftarrow> equalize E (spammers_of E p) [] (p, n);
           let offenders = fst r;
           let s = snd r;
           if pc_GlobalSlots (tp_config (fst s)) < snd s \<and> 0 < length offenders
           then map_option fst
                  (shrink (shrink_fuel (last offenders) (fst s)) E
                     (\<lambda>x. pc_AccountSlots (tp_config p) < word_of_int (tl_Len x)) offenders (last offenders) s)
           else Some (fst s) })"

primrec drop_last :: "'s pool_env \<Rightarrow> Transaction list \<Rightarrow> u64 \<Rightarrow> 's TxPool \<Rightarrow> (u64 \<times> 's TxPool) option" where
  "drop_last E [] n p = Some (n, p)"
| "drop_last E (tx # txs) n p =
     (if 0 < n then do { p \<leftarrow> removeTx E (hash_of (pe_crypto E) tx) True p; drop_last E txs (n - 1) p }
      else Some (n, p))"

text \<open>The accounts are taken from the end of the list sorted by heartbeat.\<close>

primrec truncate_queue_loop :: "'s pool_env \<Rightarrow> address list \<Rightarrow> u64 \<Rightarrow> 's TxPool \<Rightarrow> 's TxPool option" where
  "truncate_queue_loop E [] n p = Some p"
| "truncate_queue_loop E (addr # addrs) n p =
     (if 0 < n
      then do {
        l \<leftarrow> mget (tp_queue p) addr;
        let size = word_of_int (tl_Len l);
        let f = tl_Flatten l;
        let p = put_queue addr (snd f) p;
        if size \<le> n then do { p \<leftarrow> remove_all E True (fst f) p; truncate_queue_loop E addrs (n - size) p }
        else do { r \<leftarrow> drop_last E (rev (fst f)) n p; truncate_queue_loop E addrs (fst r) (snd r) } }
      else Some p)"

text \<open>Times are nanoseconds since Go's zero time, which a missing heartbeat stands for.\<close>

definition beat_of :: "'s TxPool \<Rightarrow> address \<Rightarrow> int" where
  "beat_of p addr = (case mget (tp_beats p) addr of None \<Rightarrow> 0 | Some t \<Rightarrow> t)"

definition truncateQueue :: "'s pool_env \<Rightarrow> 's TxPool \<Rightarrow> 's TxPool option" where
  "truncateQueue E p =
     (let queued = count_lists (tp_queue p)
      in if queued \<le> pc_GlobalQueue (tp_config p) then Some p
         else truncate_queue_loop E
                (rev (sort_key (beat_of p) (filter (\<lambda>a. \<not> as_contains a (tp_locals p)) (map fst (tp_queue p)))))
                (queued - pc_GlobalQueue (tp_config p)) p)"


section \<open>Following the chain\<close>

text \<open>
  Walking back to the common ancestor of the old and the new head. The number of the block falls in
  every step, so it is fuel enough; a missing block, or fuel that runs out, ends the walk with \<open>None\<close>.
\<close>

definition parent_block :: "'s pool_env \<Rightarrow> Block \<Rightarrow> Block option" where
  "parent_block E b = pe_GetBlock E (hd_ParentHash (bk_header b)) (Block_NumberU64 b - 1)"

fun walk_down :: "nat \<Rightarrow> 's pool_env \<Rightarrow> u64 \<Rightarrow> Block \<Rightarrow> (Transaction list \<times> Block) option" where
  "walk_down 0 E n b = None"
| "walk_down (Suc fuel) E n b =
     (if n < Block_NumberU64 b
      then do { b' \<leftarrow> parent_block E b; r \<leftarrow> walk_down fuel E n b'; Some (bk_transactions b @ fst r, snd r) }
      else Some ([], b))"

fun walk_both :: "nat \<Rightarrow> 's pool_env \<Rightarrow> Block \<Rightarrow> Block \<Rightarrow> (Transaction list \<times> Transaction list) option" where
  "walk_both 0 E rem add = None"
| "walk_both (Suc fuel) E rem add =
     (if fst (Block_Hash (pe_crypto E) rem) = fst (Block_Hash (pe_crypto E) add) then Some ([], [])
      else do {
        rem' \<leftarrow> parent_block E rem;
        add' \<leftarrow> parent_block E add;
        r \<leftarrow> walk_both fuel E rem' add';
        Some (bk_transactions rem @ fst r, bk_transactions add @ snd r) })"

definition walk_fuel :: "Block \<Rightarrow> nat" where
  "walk_fuel b = unat (Block_NumberU64 b) + 1"

definition reorg_walk :: "'s pool_env \<Rightarrow> Block \<Rightarrow> Block \<Rightarrow> (Transaction list \<times> Transaction list) option" where
  "reorg_walk E rem add =
     do {
       d \<leftarrow> walk_down (walk_fuel rem) E (Block_NumberU64 add) rem;
       i \<leftarrow> walk_down (walk_fuel add) E (Block_NumberU64 (snd d)) add;
       r \<leftarrow> walk_both (walk_fuel (snd d)) E (snd d) (snd i);
       Some (fst d @ fst r, fst i @ snd r) }"

text \<open>\<open>float64\<close> of an integer: 53 significant bits, ties to even.\<close>

definition float64 :: "u64 \<Rightarrow> nat" where
  "float64 w =
     (let n = unat w; s = bitlen n - 53; q = n div 2 ^ s; r = n mod 2 ^ s; half = 2 ^ s div 2
      in (if half < r \<or> 0 < r \<and> r = half \<and> odd q then q + 1 else q) * 2 ^ s)"

definition reorg_depth :: "Header \<Rightarrow> Header \<Rightarrow> int" where
  "reorg_depth oldHead newHead =
     \<bar>int (float64 (big_Uint64 (hd_Number oldHead))) - int (float64 (big_Uint64 (hd_Number newHead)))\<bar>"

text \<open>What \<open>reset\<close> reinjects: the outer option is a panic, the inner one an early return.\<close>

definition reinject :: "'s pool_env \<Rightarrow> Header option \<Rightarrow> Header option \<Rightarrow> Transaction list option option" where
  "reinject E oldHead newHead =
     (case oldHead of
        None \<Rightarrow> Some (Some [])
      | Some old \<Rightarrow> do {
          new \<leftarrow> newHead;
          if Header_Hash (pe_crypto E) old = hd_ParentHash new \<or> 64 < reorg_depth old new then Some (Some [])
          else (case pe_GetBlock E (Header_Hash (pe_crypto E) old) (big_Uint64 (hd_Number old)) of
                  None \<Rightarrow> Some None
                | Some rem \<Rightarrow> do {
                    add \<leftarrow> pe_GetBlock E (Header_Hash (pe_crypto E) new) (big_Uint64 (hd_Number new));
                    Some (map_option (\<lambda>r. TxDifference (hash_of (pe_crypto E)) (fst r) (snd r)) (reorg_walk E rem add)) }) })"

definition tp_reset :: "'s pool_env \<Rightarrow> Header option \<Rightarrow> Header option \<Rightarrow> 's TxPool \<Rightarrow> 's TxPool option" where
  "tp_reset E oldHead newHead p =
     do {
       txs \<leftarrow> reinject E oldHead newHead;
       (case txs of
          None \<Rightarrow> Some p
        | Some txs \<Rightarrow>
            let newHead = (case newHead of None \<Rightarrow> bk_header (pe_CurrentBlock E) | Some h \<Rightarrow> h)
            in (case pe_StateAt E (hd_Root newHead) of
                  None \<Rightarrow> Some p
                | Some st \<Rightarrow>
                    map_option snd (addTxsLocked E txs False
                      (p\<lparr>tp_currentState := Some st, tp_pendingNonces := Some (newTxNoncer st)\<rparr>)))) }"

type_synonym event_map = "(address, txSortedMap) gomap"

primrec drop_events :: "'s pool_env \<Rightarrow> event_map \<Rightarrow> 's TxPool \<Rightarrow> (event_map \<times> 's TxPool) option" where
  "drop_events E [] p = Some ([], p)"
| "drop_events E (e # es) p =
     do {
       n \<leftarrow> tp_pendingNonces p;
       let g = nn_get E (fst e) n;
       let m = snd (sm_Forward (fst g) (snd e));
       r \<leftarrow> drop_events E es (p\<lparr>tp_pendingNonces := Some (snd g)\<rparr>);
       Some (if sm_Len m = 0 then fst r else (fst e, m) # fst r, snd r) }"

definition put_event :: "'s pool_env \<Rightarrow> 's TxPool \<Rightarrow> Transaction \<Rightarrow> event_map \<Rightarrow> event_map" where
  "put_event E p tx events =
     (let addr = sender_of E p tx
      in mput addr (sm_Put tx (case mget events addr of None \<Rightarrow> newTxSortedMap | Some m \<Rightarrow> m)) events)"

definition bump_nonce :: "address \<Rightarrow> 's TxPool \<Rightarrow> 's TxPool option" where
  "bump_nonce addr p =
     do {
       l \<leftarrow> mget (tp_pending p) addr;
       let e = tl_LastElement l;
       highest \<leftarrow> fst e;
       n \<leftarrow> tp_pendingNonces p;
       Some ((put_pending addr (snd e) p)\<lparr>tp_pendingNonces := Some (nn_set addr (tx_Nonce highest + 1) n)\<rparr>) }"

text \<open>\<open>runReorg\<close>: the transactions announced, if any, and the pool.\<close>

definition runReorg ::
  "'s pool_env \<Rightarrow> (Header option \<times> Header option) option \<Rightarrow> accountSet option \<Rightarrow> event_map \<Rightarrow> 's TxPool
     \<Rightarrow> (Transaction list option \<times> 's TxPool) option" where
  "runReorg E reset dirtyAccounts events p =
     do {
       a \<leftarrow> (case reset of
               None \<Rightarrow> Some (events, p)
             | Some heads \<Rightarrow> do { p \<leftarrow> tp_reset E (fst heads) (snd heads) p; drop_events E events p });
       let events = fst a;
       let p = snd a;
       let promoteAddrs = (case reset of
                             Some _ \<Rightarrow> map fst (tp_queue p)
                           | None \<Rightarrow> (case dirtyAccounts of None \<Rightarrow> [] | Some d \<Rightarrow> fst (as_flatten d)));
       q \<leftarrow> promoteExecutables E promoteAddrs p;
       p \<leftarrow> (if reset \<noteq> None then demoteUnexecutables E (snd q) else Some (snd q));
       p \<leftarrow> truncatePending E p;
       p \<leftarrow> truncateQueue E p;
       p \<leftarrow> foreach bump_nonce (map fst (tp_pending p)) p;
       let events = fold (put_event E p) (fst q) events;
       Some (if 0 < length events then Some (concat (map (\<lambda>(a, m). fst (sm_Flatten m)) events)) else None, p) }"

section \<open>Life cycle\<close>

definition SetGasPrice :: "'s pool_env \<Rightarrow> int \<Rightarrow> 's TxPool \<Rightarrow> 's TxPool option" where
  "SetGasPrice E price p =
     (let c = pl_Cap (pe_crypto E) (tp_all p) price (tp_locals p) (tp_priced p)
      in remove_all E False (fst c) (p\<lparr>tp_gasPrice := price, tp_priced := snd c\<rparr>))"

text \<open>\<open>time.Since\<close> saturates at the bounds of a duration.\<close>

definition time_since :: "'s pool_env \<Rightarrow> int \<Rightarrow> int" where
  "time_since E t = max (- (2 ^ 63)) (min (2 ^ 63 - 1) (pe_now E - t))"

definition evict_account :: "'s pool_env \<Rightarrow> address \<Rightarrow> 's TxPool \<Rightarrow> 's TxPool option" where
  "evict_account E addr p =
     (if as_contains addr (tp_locals p) then Some p
      else if pc_Lifetime (tp_config p) < time_since E (beat_of p addr)
      then (case mget (tp_queue p) addr of
              None \<Rightarrow> Some p
            | Some l \<Rightarrow> (let f = tl_Flatten l in remove_all E True (fst f) (put_queue addr (snd f) p)))
      else Some p)"

definition evict :: "'s pool_env \<Rightarrow> 's TxPool \<Rightarrow> 's TxPool option" where
  "evict E p = foreach (evict_account E) (map fst (tp_queue p)) p"

definition rejournal :: "rotate_fault \<Rightarrow> 's TxPool \<Rightarrow> 's TxPool" where
  "rejournal fault p =
     (case tp_journal p of
        None \<Rightarrow> p
      | Some j \<Rightarrow> (let l = tp_local p in (snd l)\<lparr>tp_journal := Some (snd (rotate_journal fault (fst l) j))\<rparr>))"

definition Stop :: "bool \<Rightarrow> 's TxPool \<Rightarrow> 's TxPool" where
  "Stop close_fails p =
     (case tp_journal p of None \<Rightarrow> p | Some j \<Rightarrow> p\<lparr>tp_journal := Some (snd (journal_close close_fails j))\<rparr>)"

text \<open>The pool before its journal is loaded.\<close>

definition NewTxPool :: "'s pool_env \<Rightarrow> TxPoolConfig \<Rightarrow> 's TxPool option" where
  "NewTxPool E config =
     (let config = sanitize config; signer = NewEIP155Signer (Some 1)
      in tp_reset E None (Some (bk_header (pe_CurrentBlock E)))
           \<lparr>tp_config = config, tp_gasPrice = uint (pc_PriceLimit config), tp_signer = signer,
            tp_currentState = None, tp_pendingNonces = None, tp_currentMaxGas = 0,
            tp_locals = newAccountSet signer (pc_Locals config), tp_journal = None,
            tp_pending = [], tp_queue = [], tp_beats = [], tp_all = newTxLookup, tp_priced = newTxPricedList,
            tp_events = []\<rparr>)"

section \<open>The reorganisation loop\<close>

text \<open>
  The state of \<open>scheduleReorgLoop\<close>: the arguments of the next run, whether one is wanted, and the run
  that is active. A message it receives is a \<open>reorg_msg\<close>; \<open>launch\<close> is the head of the loop.
\<close>

record reorg_loop =
  rl_running :: bool
  rl_launchNextRun :: bool
  rl_reset :: "(Header option \<times> Header option) option"
  rl_dirty :: "accountSet option"
  rl_events :: event_map

type_synonym reorg_run = "(Header option \<times> Header option) option \<times> accountSet option \<times> event_map"

datatype reorg_msg =
    ReqReset "Header option" "Header option"
  | ReqPromote accountSet
  | QueueTxEvent Transaction
  | RunDone

definition init_reorg_loop :: reorg_loop where
  "init_reorg_loop = \<lparr>rl_running = False, rl_launchNextRun = False, rl_reset = None, rl_dirty = None, rl_events = []\<rparr>"

definition launch :: "reorg_loop \<Rightarrow> reorg_run option \<times> reorg_loop" where
  "launch r =
     (if \<not> rl_running r \<and> rl_launchNextRun r
      then (Some (rl_reset r, rl_dirty r, rl_events r), init_reorg_loop\<lparr>rl_running := True\<rparr>)
      else (None, r))"

fun handle_msg :: "'s pool_env \<Rightarrow> 's TxPool \<Rightarrow> reorg_msg \<Rightarrow> reorg_loop \<Rightarrow> reorg_loop" where
  "handle_msg E p (ReqReset oldHead newHead) r =
     r\<lparr>rl_reset := Some (case rl_reset r of None \<Rightarrow> (oldHead, newHead) | Some heads \<Rightarrow> (fst heads, newHead)),
       rl_launchNextRun := True\<rparr>"
| "handle_msg E p (ReqPromote accounts) r =
     r\<lparr>rl_dirty := Some (case rl_dirty r of None \<Rightarrow> accounts | Some d \<Rightarrow> as_merge accounts d), rl_launchNextRun := True\<rparr>"
| "handle_msg E p (QueueTxEvent tx) r = r\<lparr>rl_events := put_event E p tx (rl_events r)\<rparr>"
| "handle_msg E p RunDone r = r\<lparr>rl_running := False\<rparr>"

text \<open>One turn of the loop: the run it starts, if any, and the state after the message.\<close>

definition reorg_turn ::
  "'s pool_env \<Rightarrow> 's TxPool \<Rightarrow> reorg_msg \<Rightarrow> reorg_loop \<Rightarrow> reorg_run option \<times> reorg_loop" where
  "reorg_turn E p m r = (let l = launch r in (fst l, handle_msg E p m (snd l)))"

section \<open>Loading the journal\<close>

text \<open>
  Adding with the wait for the reorganisation it asks for: the loop has received the queued events
  by then, and runs with the accounts of the batch.
\<close>

definition add_sync :: "'s pool_env \<Rightarrow> Transaction list \<Rightarrow> 's TxPool \<Rightarrow> 's TxPool option" where
  "add_sync E txs p =
     do {
       r \<leftarrow> AddLocals E txs p;
       let p = snd r;
       (case snd (fst r) of
          None \<Rightarrow> Some p
        | Some dirty \<Rightarrow>
            map_option snd (runReorg E None (Some dirty) (fold (put_event E p) (tp_events p) []) (p\<lparr>tp_events := []\<rparr>))) }"

text \<open>
  The end of \<open>NewTxPool\<close>: the transactions of the journal are added while its writer discards, then the
  journal is rotated. Both errors are only logged.
\<close>

definition load_journal :: "'s pool_env \<Rightarrow> journal_file option \<Rightarrow> bool \<Rightarrow> rotate_fault \<Rightarrow> 's TxPool \<Rightarrow> 's TxPool option" where
  "load_journal E onDisk open_fails fault p =
     (if \<not> pc_NoLocals (tp_config p) \<and> pc_Journal (tp_config p) \<noteq> []
      then let j = newTxJournal onDisk;
               r = load open_fails (\<lambda>txs q. Option.bind q (add_sync E txs)) j (Some (p\<lparr>tp_journal := Some (j\<lparr>jr_writer := Some DevNull\<rparr>)\<rparr>))
           in map_option (\<lambda>q. rejournal fault (q\<lparr>tp_journal := Some (fst (snd r))\<rparr>)) (snd (snd r))
      else Some p)"

section \<open>The main loop\<close>

text \<open>What \<open>loop\<close> reacts to; the report of statistics only logs.\<close>

datatype pool_event = ChainHead "Block option" | ReportTick | EvictTick | JournalTick rotate_fault

text \<open>One reaction: the request it sends to the reorganisation loop, the head it remembers, and the pool.\<close>

fun loop_turn :: "'s pool_env \<Rightarrow> pool_event \<Rightarrow> Block \<times> 's TxPool \<Rightarrow> (reorg_msg option \<times> Block \<times> 's TxPool) option" where
  "loop_turn E (ChainHead None) (head, p) = Some (None, head, p)"
| "loop_turn E (ChainHead (Some b)) (head, p) = Some (Some (ReqReset (Some (bk_header head)) (Some (bk_header b))), b, p)"
| "loop_turn E ReportTick (head, p) = Some (None, head, p)"
| "loop_turn E EvictTick (head, p) = map_option (\<lambda>p. (None, head, p)) (evict E p)"
| "loop_turn E (JournalTick fault) (head, p) = Some (None, head, rejournal fault p)"

end
