(* ===== verification/Tx_Pool_Inv.thy ===== *)
theory Tx_Pool_Inv
  imports Tx_Pool
begin

text \<open>
  The invariant of the transaction pool: the look-up table holds exactly the transactions of the
  pending and the queued lists, every list holds transactions of its own account, and no two
  known transactions share their account and nonce. Within an operation some transactions are known
  but in no list; they are the multiset the invariant is stated with.
\<close>

section \<open>The invariant\<close>

definition held :: "(address, txList) gomap \<Rightarrow> Transaction multiset" where
  "held m = msum (\<lambda>l. mset (list_txs l)) m"

definition lists_ok :: "(Transaction \<Rightarrow> address) \<Rightarrow> bool \<Rightarrow> (address, txList) gomap \<Rightarrow> bool" where
  "lists_ok sender strict m \<longleftrightarrow> gomap_ok m \<and>
     (\<forall>a l. mget m a = Some l \<longrightarrow> tl_ok l \<and> tl_strict l = strict \<and> (\<forall>tx \<in> set (list_txs l). sender tx = a))"

definition uniq :: "('a \<Rightarrow> 'b) \<Rightarrow> 'a multiset \<Rightarrow> bool" where
  "uniq f M \<longleftrightarrow> (\<forall>y. count (image_mset f M) y \<le> 1)"

definition slot :: "'s pool_env \<Rightarrow> 's TxPool \<Rightarrow> Transaction \<Rightarrow> address \<times> u64" where
  "slot E p tx = (sender_of E p tx, nonce_of tx)"

definition known :: "'s TxPool \<Rightarrow> Transaction multiset" where
  "known p = mset (map snd (lk_all (tp_all p)))"

definition pool_inv :: "'s pool_env \<Rightarrow> Transaction multiset \<Rightarrow> 's TxPool \<Rightarrow> bool" where
  "pool_inv E X p \<longleftrightarrow>
     lists_ok (sender_of E p) True (tp_pending p) \<and> lists_ok (sender_of E p) False (tp_queue p) \<and>
     keyed (hash_of (pe_crypto E)) (lk_all (tp_all p)) \<and>
     known p = held (tp_pending p) + held (tp_queue p) + X \<and> uniq (slot E p) (known p) \<and>
     tp_currentState p \<noteq> None \<and> tp_pendingNonces p \<noteq> None \<and> 0 \<le> sint (pc_AccountQueue (tp_config p)) \<and>
     1 \<le> pc_AccountSlots (tp_config p) \<and> tp_currentMaxGas p = 0"

text \<open>Between operations no pending list is empty.\<close>

definition no_empty :: "(address, txList) gomap \<Rightarrow> bool" where
  "no_empty m \<longleftrightarrow> (\<forall>a l. mget m a = Some l \<longrightarrow> list_txs l \<noteq> [])"

lemma no_empty_mput: "no_empty m \<Longrightarrow> list_txs l \<noteq> [] \<Longrightarrow> no_empty (mput a l m)"
  by (simp add: no_empty_def)

lemma no_empty_mdel: "no_empty m \<Longrightarrow> no_empty (mdel a m)"
  by (auto simp: no_empty_def split: if_splits)

section \<open>Multisets of transactions\<close>

lemma uniq_mono: "uniq f M \<Longrightarrow> N \<subseteq># M \<Longrightarrow> uniq f N"
  unfolding uniq_def by (meson image_mset_subseteq_mono le_trans mset_subset_eq_count)

lemma uniq_empty [simp]: "uniq f {#}"
  by (simp add: uniq_def)

lemma uniq_add: "uniq f (add_mset x M) \<longleftrightarrow> uniq f M \<and> f x \<notin> f ` set_mset M"
proof -
  have zero: "f x \<notin> f ` set_mset M \<longleftrightarrow> count (image_mset f M) (f x) = 0"
    by (metis count_eq_zero_iff set_image_mset)
  show ?thesis
  proof
    assume u: "uniq f (add_mset x M)"
    have "count (image_mset f M) y \<le> 1" for y
      using u [unfolded uniq_def, THEN spec, of y] by (simp split: if_splits)
    moreover have "count (image_mset f M) (f x) = 0" using u [unfolded uniq_def, THEN spec, of "f x"] by simp
    ultimately show "uniq f M \<and> f x \<notin> f ` set_mset M" unfolding zero uniq_def by blast
  qed (simp add: uniq_def zero)
qed

lemma uniq_distinct: "uniq f (mset xs) \<longleftrightarrow> distinct (map f xs)"
  by (induction xs) (auto simp: uniq_add)

lemma uniqD: "uniq f M \<Longrightarrow> M = add_mset x N \<Longrightarrow> y \<in># N \<Longrightarrow> f x \<noteq> f y"
  by (auto simp: uniq_add)

lemma held_Nil [simp]: "held [] = {#}"
  by (simp add: held_def)

lemma held_Cons [simp]: "held ((a, l) # m) = mset (list_txs l) + held m"
  by (simp add: held_def msum_def)

lemma lists_ok_Nil [simp]: "lists_ok sender strict []"
  by (simp add: lists_ok_def)

lemma lists_okD:
  assumes "lists_ok sender strict m" "mget m a = Some l"
  shows "tl_ok l" "tl_strict l = strict" "tx \<in> set (list_txs l) \<Longrightarrow> sender tx = a"
  using assms unfolding lists_ok_def by blast+

lemma lists_ok_gomap: "lists_ok sender strict m \<Longrightarrow> gomap_ok m"
  by (simp add: lists_ok_def)

lemma lists_ok_mput:
  "lists_ok sender strict m \<Longrightarrow> tl_ok l \<Longrightarrow> tl_strict l = strict \<Longrightarrow> (\<And>tx. tx \<in> set (list_txs l) \<Longrightarrow> sender tx = a) \<Longrightarrow>
   lists_ok sender strict (mput a l m)"
  by (auto simp: lists_ok_def)

lemma lists_ok_mdel: "lists_ok sender strict m \<Longrightarrow> lists_ok sender strict (mdel a m)"
  by (auto simp: lists_ok_def split: if_splits)

lemma held_mput: "held (mput a l m) + at_key (\<lambda>l. mset (list_txs l)) m a = held m + mset (list_txs l)"
  unfolding held_def by (rule msum_mput)

lemma held_mdel:
  "gomap_ok m \<Longrightarrow> mget m a = Some l \<Longrightarrow> held m = held (mdel a m) + mset (list_txs l)"
  using msum_mdel [of m "\<lambda>l. mset (list_txs l)" a] by (simp add: held_def at_key_def)

lemma held_mput_old: "mget m a = Some l \<Longrightarrow> held (mput a l' m) + mset (list_txs l) = held m + mset (list_txs l')"
  using held_mput [of a l' m] by (simp add: at_key_def)

lemma held_in: "mget m a = Some l \<Longrightarrow> tx \<in> set (list_txs l) \<Longrightarrow> tx \<in># held m"
  by (induction m) (auto split: if_splits)

lemma held_out: "gomap_ok m \<Longrightarrow> tx \<in># held m \<Longrightarrow> \<exists>a l. mget m a = Some l \<and> tx \<in> set (list_txs l)"
proof (induction m)
  case (Cons e m)
  then have ok: "gomap_ok m" "fst e \<notin> fst ` set m" by (auto simp: gomap_ok_def)
  consider "tx \<in> set (list_txs (snd e))" | "tx \<in># held m" using Cons.prems(2) by (cases e) auto
  then show ?case
  proof cases
    case 1
    then show ?thesis by (intro exI [of _ "fst e"] exI [of _ "snd e"]) (cases e; simp)
  next
    case 2
    from Cons.IH [OF ok(1) 2] obtain a l where al: "mget m a = Some l" "tx \<in> set (list_txs l)" by blast
    then have "a \<noteq> fst e" using ok(2) by (metis mget_None_iff option.distinct(1))
    then show ?thesis using al by (intro exI [of _ a] exI [of _ l]) (cases e; simp)
  qed
qed simp

text \<open>A list that loses transactions: they are no longer held.\<close>

lemma lists_ok_shrink:
  assumes "lists_ok sender strict m" "mget m a = Some l" "tl_ok l'" "tl_strict l' = tl_strict l"
    "mset (list_txs l) = M + mset (list_txs l')"
  shows "lists_ok sender strict (mput a l' m)" "held m = held (mput a l' m) + M"
proof -
  have "set (list_txs l') \<subseteq> set (list_txs l)" using assms(5) by (metis set_mset_mset set_mset_union sup_ge2)
  then show "lists_ok sender strict (mput a l' m)"
    using lists_okD [OF assms(1,2)] assms(1,3,4) by (intro lists_ok_mput) auto
  show "held m = held (mput a l' m) + M"
    using held_mput_old [OF assms(2), of l'] unfolding assms(5) by (metis add.assoc add.commute add_right_cancel)
qed

section \<open>The look-up table\<close>

lemma lk_Remove_known:
  assumes "keyed (hash_of C) (lk_all t)" "mset (map snd (lk_all t)) = add_mset tx M"
  obtains t' where "lk_Remove C (hash_of C tx) t = Some t'" "keyed (hash_of C) (lk_all t')" "mset (map snd (lk_all t')) = M"
proof -
  have "tx \<in> snd ` set (lk_all t)" using assms(2) by (metis image_set set_mset_mset union_single_eq_member)
  then have get: "mget (lk_all t) (hash_of C tx) = Some tx" using keyed_mget_iff [OF assms(1)] by simp
  have "mset (map snd (lk_all t)) = add_mset tx (mset (map snd (mdel (hash_of C tx) (lk_all t))))"
    using msum_mdel [OF keyed_gomap [OF assms(1)], of "\<lambda>v. {#v#}" "hash_of C tx"] get
    by (simp add: mset_values at_key_def del: mset_map)
  then have "mset (map snd (mdel (hash_of C tx) (lk_all t))) = M" using assms(2) by simp
  then show thesis
    using that [of "\<lparr>lk_all = mdel (hash_of C tx) (lk_all t), lk_slots = lk_slots t - numSlots C tx\<rparr>"] get
      keyed_mdel [OF assms(1)] by (simp add: lk_Remove_def)
qed

lemma lk_Add_unknown:
  assumes "keyed (hash_of C) (lk_all t)" "lk_Get (hash_of C tx) t = None"
  shows "keyed (hash_of C) (lk_all (lk_Add C tx t))" "mset (map snd (lk_all (lk_Add C tx t))) = add_mset tx (mset (map snd (lk_all t)))"
proof -
  show "keyed (hash_of C) (lk_all (lk_Add C tx t))" using keyed_mput [OF assms(1)] by (simp add: lk_Add_def)
  show "mset (map snd (lk_all (lk_Add C tx t))) = add_mset tx (mset (map snd (lk_all t)))"
    using msum_mput [of "\<lambda>v. {#v#}" "hash_of C tx" tx "lk_all t"] assms(2)
    by (simp add: lk_Add_def lk_Get_def mset_values at_key_def del: mset_map)
qed

lemma lk_Get_known:
  "keyed (hash_of C) (lk_all t) \<Longrightarrow> tx \<in># mset (map snd (lk_all t)) \<Longrightarrow> lk_Get (hash_of C tx) t = Some tx"
  using keyed_mget_iff [of "hash_of C" "lk_all t" tx] by (simp add: lk_Get_def)

section \<open>What does not matter to the invariant\<close>

lemma sender_of_simps [simp]:
  "sender_of E (p\<lparr>tp_all := a\<rparr>) = sender_of E p" "sender_of E (p\<lparr>tp_priced := pl\<rparr>) = sender_of E p"
  "sender_of E (p\<lparr>tp_pending := m\<rparr>) = sender_of E p" "sender_of E (p\<lparr>tp_queue := m\<rparr>) = sender_of E p"
  "sender_of E (p\<lparr>tp_beats := b\<rparr>) = sender_of E p" "sender_of E (p\<lparr>tp_locals := s\<rparr>) = sender_of E p"
  "sender_of E (p\<lparr>tp_journal := j\<rparr>) = sender_of E p" "sender_of E (p\<lparr>tp_events := ev\<rparr>) = sender_of E p"
  "sender_of E (p\<lparr>tp_gasPrice := g\<rparr>) = sender_of E p" "sender_of E (p\<lparr>tp_pendingNonces := n\<rparr>) = sender_of E p"
  "sender_of E (p\<lparr>tp_currentState := st\<rparr>) = sender_of E p"
  by (simp_all add: sender_of_def fun_eq_iff)

lemma slot_cong: "sender_of E p = sender_of E q \<Longrightarrow> slot E p = slot E q"
  by (simp add: slot_def fun_eq_iff)

lemma pool_inv_cong:
  assumes "sender_of E p = sender_of E q" "tp_pending p = tp_pending q" "tp_queue p = tp_queue q" "tp_all p = tp_all q"
    "tp_currentState p = None \<longleftrightarrow> tp_currentState q = None" "tp_pendingNonces p = None \<longleftrightarrow> tp_pendingNonces q = None"
    "tp_config p = tp_config q" "tp_currentMaxGas p = tp_currentMaxGas q"
  shows "pool_inv E X p \<longleftrightarrow> pool_inv E X q"
  using assms slot_cong [OF assms(1)] by (simp add: pool_inv_def known_def)

lemma pool_inv_simps [simp]:
  "pool_inv E X (p\<lparr>tp_priced := pl\<rparr>) = pool_inv E X p" "pool_inv E X (p\<lparr>tp_beats := b\<rparr>) = pool_inv E X p"
  "pool_inv E X (p\<lparr>tp_locals := s\<rparr>) = pool_inv E X p" "pool_inv E X (p\<lparr>tp_journal := j\<rparr>) = pool_inv E X p"
  "pool_inv E X (p\<lparr>tp_events := ev\<rparr>) = pool_inv E X p" "pool_inv E X (p\<lparr>tp_gasPrice := g\<rparr>) = pool_inv E X p"
  by (rule pool_inv_cong; simp)+

lemma pool_inv_nonces [simp]: "pool_inv E X p \<Longrightarrow> pool_inv E X (p\<lparr>tp_pendingNonces := Some n\<rparr>)"
  by (subst pool_inv_cong [of E _ p]) (auto simp: pool_inv_def)

lemma pool_inv_state [simp]: "pool_inv E X p \<Longrightarrow> pool_inv E X (p\<lparr>tp_currentState := Some st\<rparr>)"
  by (subst pool_inv_cong [of E _ p]) (auto simp: pool_inv_def)

lemma priced_removed_simps [simp]:
  "pool_inv E X (priced_removed n p) = pool_inv E X p" "tp_pending (priced_removed n p) = tp_pending p"
  "tp_queue (priced_removed n p) = tp_queue p" "tp_pendingNonces (priced_removed n p) = tp_pendingNonces p"
  "tp_all (priced_removed n p) = tp_all p" "tp_config (priced_removed n p) = tp_config p"
  "tp_locals (priced_removed n p) = tp_locals p" "tp_currentState (priced_removed n p) = tp_currentState p"
  "sender_of E (priced_removed n p) = sender_of E p" "tp_beats (priced_removed n p) = tp_beats p"
  "tp_currentMaxGas (priced_removed n p) = tp_currentMaxGas p"
  by (simp_all add: priced_removed_def)


section \<open>Moving transactions\<close>

lemma pool_invD:
  assumes "pool_inv E X p"
  shows "lists_ok (sender_of E p) True (tp_pending p)" "lists_ok (sender_of E p) False (tp_queue p)"
    "keyed (hash_of (pe_crypto E)) (lk_all (tp_all p))" "known p = held (tp_pending p) + held (tp_queue p) + X"
    "uniq (slot E p) (known p)" "0 \<le> sint (pc_AccountQueue (tp_config p))"
    "1 \<le> pc_AccountSlots (tp_config p)" "tp_currentMaxGas p = 0"
  using assms unfolding pool_inv_def by blast+

lemma pool_inv_obtain:
  assumes "pool_inv E X p"
  obtains st n where "tp_currentState p = Some st" "tp_pendingNonces p = Some n"
  using assms by (auto simp: pool_inv_def)

lemma pool_inv_lists:
  assumes "pool_inv E X p" "lists_ok (sender_of E p) True m" "lists_ok (sender_of E p) False q"
    "held (tp_pending p) + held (tp_queue p) + X = held m + held q + Y"
  shows "pool_inv E Y (p\<lparr>tp_pending := m, tp_queue := q\<rparr>)"
proof -
  have "slot E (p\<lparr>tp_pending := m, tp_queue := q\<rparr>) = slot E p" by (intro slot_cong) simp
  moreover have "known (p\<lparr>tp_pending := m, tp_queue := q\<rparr>) = known p" by (simp add: known_def)
  ultimately show ?thesis using assms unfolding pool_inv_def by auto
qed

lemma pool_inv_pending:
  "pool_inv E X p \<Longrightarrow> lists_ok (sender_of E p) True m \<Longrightarrow> held (tp_pending p) + X = held m + Y \<Longrightarrow>
   pool_inv E Y (p\<lparr>tp_pending := m\<rparr>)"
  using pool_inv_lists [of E X p m "tp_queue p" Y] by (simp add: pool_invD(2) ac_simps)

lemma pool_inv_queue:
  "pool_inv E X p \<Longrightarrow> lists_ok (sender_of E p) False q \<Longrightarrow> held (tp_queue p) + X = held q + Y \<Longrightarrow>
   pool_inv E Y (p\<lparr>tp_queue := q\<rparr>)"
  using pool_inv_lists [of E X p "tp_pending p" q Y] by (simp add: pool_invD(1) ac_simps)

lemma put_pending_inv:
  assumes "pool_inv E X p" "mget (tp_pending p) a = Some l" "tl_ok l'" "tl_strict l' = tl_strict l"
    "mset (list_txs l) = M + mset (list_txs l')"
  shows "pool_inv E (M + X) (put_pending a l' p)"
  unfolding put_pending_def using lists_ok_shrink [OF pool_invD(1) [OF assms(1)] assms(2-5)]
  by (intro pool_inv_pending [OF assms(1)]) (simp_all add: ac_simps)

lemma put_queue_inv:
  assumes "pool_inv E X p" "mget (tp_queue p) a = Some l" "tl_ok l'" "tl_strict l' = tl_strict l"
    "mset (list_txs l) = M + mset (list_txs l')"
  shows "pool_inv E (M + X) (put_queue a l' p)"
  unfolding put_queue_def using lists_ok_shrink [OF pool_invD(2) [OF assms(1)] assms(2-5)]
  by (intro pool_inv_queue [OF assms(1)]) (simp_all add: ac_simps)

lemma drop_pending_inv:
  assumes "pool_inv E X p" "mget (tp_pending p) a = Some l" "list_txs l = []"
  shows "pool_inv E X (p\<lparr>tp_pending := mdel a (tp_pending p)\<rparr>)"
  using held_mdel [OF lists_ok_gomap [OF pool_invD(1) [OF assms(1)]] assms(2)] assms(3)
  by (intro pool_inv_pending [OF assms(1)] lists_ok_mdel pool_invD(1) [OF assms(1)]) simp

lemma drop_queue_inv:
  assumes "pool_inv E X p" "mget (tp_queue p) a = Some l" "list_txs l = []"
  shows "pool_inv E X (p\<lparr>tp_queue := mdel a (tp_queue p)\<rparr>)"
  using held_mdel [OF lists_ok_gomap [OF pool_invD(2) [OF assms(1)]] assms(2)] assms(3)
  by (intro pool_inv_queue [OF assms(1)] lists_ok_mdel pool_invD(2) [OF assms(1)]) simp

lemma put_simps [simp]:
  "tp_pending (put_queue a l p) = tp_pending p" "tp_queue (put_queue a l p) = mput a l (tp_queue p)"
  "tp_pending (put_pending a l p) = mput a l (tp_pending p)" "tp_queue (put_pending a l p) = tp_queue p"
  "tp_all (put_queue a l p) = tp_all p" "tp_all (put_pending a l p) = tp_all p"
  "tp_config (put_queue a l p) = tp_config p" "tp_config (put_pending a l p) = tp_config p"
  "tp_locals (put_queue a l p) = tp_locals p" "tp_locals (put_pending a l p) = tp_locals p"
  "tp_currentState (put_queue a l p) = tp_currentState p" "tp_currentState (put_pending a l p) = tp_currentState p"
  "tp_pendingNonces (put_queue a l p) = tp_pendingNonces p" "tp_pendingNonces (put_pending a l p) = tp_pendingNonces p"
  "tp_currentMaxGas (put_queue a l p) = tp_currentMaxGas p" "tp_currentMaxGas (put_pending a l p) = tp_currentMaxGas p"
  "sender_of E (put_queue a l p) = sender_of E p" "sender_of E (put_pending a l p) = sender_of E p"
  by (simp_all add: put_queue_def put_pending_def)

lemma all_remove_inv:
  assumes "pool_inv E (add_mset tx X) p"
  obtains a where "all_remove E tx p = Some (p\<lparr>tp_all := a\<rparr>)" "pool_inv E X (p\<lparr>tp_all := a\<rparr>)"
proof -
  note inv = pool_invD [OF assms]
  have "mset (map snd (lk_all (tp_all p))) = add_mset tx (held (tp_pending p) + held (tp_queue p) + X)"
    using inv(4) by (simp add: known_def)
  from lk_Remove_known [OF inv(3) this] obtain a where a: "lk_Remove (pe_crypto E) (hash_of (pe_crypto E) tx) (tp_all p) = Some a"
    "keyed (hash_of (pe_crypto E)) (lk_all a)" "mset (map snd (lk_all a)) = held (tp_pending p) + held (tp_queue p) + X" .
  have "uniq (slot E p) (mset (map snd (lk_all a)))" using uniq_mono [OF inv(5)] inv(4) a(3) by simp
  moreover have "slot E (p\<lparr>tp_all := a\<rparr>) = slot E p" by (intro slot_cong) simp
  ultimately have "pool_inv E X (p\<lparr>tp_all := a\<rparr>)"
    using assms a(2,3) by (simp add: pool_inv_def known_def)
  then show thesis using that a(1) by (simp add: all_remove_def)
qed

lemma foreach_all_remove_inv:
  "pool_inv E (mset txs + X) p \<Longrightarrow> \<exists>a. foreach (all_remove E) txs p = Some (p\<lparr>tp_all := a\<rparr>) \<and> pool_inv E X (p\<lparr>tp_all := a\<rparr>)"
proof (induction txs arbitrary: p)
  case Nil
  then show ?case by (intro exI [of _ "tp_all p"]) simp
next
  case (Cons tx txs)
  then have "pool_inv E (add_mset tx (mset txs + X)) p" by simp
  then obtain a where a: "all_remove E tx p = Some (p\<lparr>tp_all := a\<rparr>)" "pool_inv E (mset txs + X) (p\<lparr>tp_all := a\<rparr>)"
    by (rule all_remove_inv)
  show ?case using Cons.IH [OF a(2)] a(1) by auto
qed

lemma limbo_known:
  assumes "pool_inv E (add_mset tx X) p"
  shows "lk_Get (hash_of (pe_crypto E) tx) (tp_all p) = Some tx"
proof -
  have "tx \<in># known p" using pool_invD(4) [OF assms] by simp
  then show ?thesis unfolding known_def by (rule lk_Get_known [OF pool_invD(3) [OF assms]])
qed

text \<open>A transaction that is known but in no list has a free place in the lists of its account.\<close>

lemma slot_free:
  assumes "pool_inv E (add_mset tx X) p"
  shows "mget (tp_pending p) (sender_of E p tx) = Some l \<Longrightarrow> t \<in> set (list_txs l) \<Longrightarrow> nonce_of t \<noteq> nonce_of tx"
    "mget (tp_queue p) (sender_of E p tx) = Some l \<Longrightarrow> t \<in> set (list_txs l) \<Longrightarrow> nonce_of t \<noteq> nonce_of tx"
proof -
  note inv = pool_invD [OF assms]
  have free: "slot E p tx \<noteq> slot E p t" if "t \<in># held (tp_pending p) + held (tp_queue p) + X" for t
    using uniqD [OF inv(5), of tx "held (tp_pending p) + held (tp_queue p) + X"] inv(4) that by simp
  show "nonce_of t \<noteq> nonce_of tx" if "mget (tp_pending p) (sender_of E p tx) = Some l" "t \<in> set (list_txs l)"
    using free [of t] held_in [OF that] lists_okD(3) [OF inv(1) that(1) that(2)] by (auto simp: slot_def)
  show "nonce_of t \<noteq> nonce_of tx" if "mget (tp_queue p) (sender_of E p tx) = Some l" "t \<in> set (list_txs l)"
    using free [of t] held_in [OF that] lists_okD(3) [OF inv(2) that(1) that(2)] by (auto simp: slot_def)
qed

lemma tl_Add_fresh:
  assumes "tl_ok l" "\<And>t. t \<in> set (list_txs l) \<Longrightarrow> nonce_of t \<noteq> nonce_of tx"
  obtains l' where "tl_Add tx b l = ((True, None), l')" "mset (list_txs l') = add_mset tx (mset (list_txs l))"
    "tl_ok l'" "tl_strict l' = tl_strict l"
proof -
  have none: "find (\<lambda>t. nonce_of t = nonce_of tx) (list_txs l) = None" using assms(2) by (auto simp: find_None_iff)
  show thesis
  proof (rule tl_Add_cases [OF assms(1), of tx b])
    fix l' assume "tl_Add tx b l = ((True, find (\<lambda>t. nonce_of t = nonce_of tx) (list_txs l)), l')"
      "tl_ok l'" "tl_strict l' = tl_strict l"
    then show thesis using that [of l'] tl_Add_partition [of tx b l] none by simp
  qed (simp add: none)
qed

text \<open>Adding to the list of an account, which may not have one yet.\<close>

lemma lists_ok_add:
  assumes "lists_ok sender strict m" "list = (case mget m a of None \<Rightarrow> newTxList strict | Some l \<Rightarrow> l)"
    "tl_ok l'" "tl_strict l' = tl_strict list" "mset (list_txs l') = add_mset tx (mset (list_txs list))" "sender tx = a"
  shows "lists_ok sender strict (mput a l' m)" "held (mput a l' m) = add_mset tx (held m)"
proof -
  have old: "at_key (\<lambda>l. mset (list_txs l)) m a = mset (list_txs list)" "tl_strict list = strict"
    using lists_okD(2) [OF assms(1)] by (auto simp: assms(2) at_key_def newTxList_def split: option.splits)
  have "sender t = a" if "t \<in> set (list_txs l')" for t
  proof -
    have "t = tx \<or> t \<in> set (list_txs list)" using that assms(5) by (metis insert_iff set_mset_add_mset_insert set_mset_mset)
    then show ?thesis using assms(6) lists_okD(3) [OF assms(1)] by (auto simp: assms(2) split: option.splits)
  qed
  then show "lists_ok sender strict (mput a l' m)" using assms(1,3,4) old by (intro lists_ok_mput) auto
  show "held (mput a l' m) = add_mset tx (held m)" using held_mput [of a l' m] old assms(5) by simp
qed

lemma list_or_new_ok:
  "lists_ok sender strict m \<Longrightarrow> tl_ok (case mget m a of None \<Rightarrow> newTxList strict | Some l \<Rightarrow> l)"
  using lists_okD(1) by (auto split: option.splits)

lemma enqueue_known:
  assumes "pool_inv E (add_mset tx X) p"
  obtains p' where "enqueueTx E tx p = Some (Inr False, p')" "pool_inv E X p'" "tp_pending p' = tp_pending p" "tp_all p' = tp_all p"
proof -
  note inv = pool_invD [OF assms]
  let ?a = "sender_of E p tx"
  define list where "list = (case mget (tp_queue p) ?a of None \<Rightarrow> newTxList False | Some l \<Rightarrow> l)"
  have "tl_ok list" unfolding list_def by (rule list_or_new_ok [OF inv(2)])
  moreover have "nonce_of t \<noteq> nonce_of tx" if "t \<in> set (list_txs list)" for t
    using that slot_free(2) [OF assms] by (auto simp: list_def split: option.splits)
  ultimately obtain l' where l': "tl_Add tx (pc_PriceBump (tp_config p)) list = ((True, None), l')"
    "mset (list_txs l') = add_mset tx (mset (list_txs list))" "tl_ok l'" "tl_strict l' = tl_strict list"
    by (rule tl_Add_fresh)
  define q where "q = p\<lparr>tp_queue := mput ?a l' (tp_queue p)\<rparr>"
  note add = lists_ok_add [OF inv(2) list_def l'(3,4,2) refl]
  have ok: "pool_inv E X q" unfolding q_def using add by (intro pool_inv_queue [OF assms]) simp_all
  have run: "enqueueTx E tx p =
      Some (Inr False, if mget (tp_beats q) ?a = None then q\<lparr>tp_beats := mput ?a (pe_now E) (tp_beats q)\<rparr> else q)"
    using l'(1) limbo_known [OF assms] by (simp add: enqueueTx_def list_def [symmetric] q_def replace_old_def add_if_unknown_def Let_def)
  show thesis by (rule that [OF run]) (simp_all add: ok, simp_all add: q_def)
qed

lemma enqueue_all_known:
  "pool_inv E (mset txs + X) p \<Longrightarrow> \<exists>p'. enqueue_all E txs p = Some p' \<and> pool_inv E X p' \<and> tp_pending p' = tp_pending p \<and>
     tp_all p' = tp_all p"
proof (induction txs arbitrary: p)
  case Nil
  then show ?case by (simp add: enqueue_all_def)
next
  case (Cons tx txs)
  then have "pool_inv E (add_mset tx (mset txs + X)) p" by simp
  then obtain q where q: "enqueueTx E tx p = Some (Inr False, q)" "pool_inv E (mset txs + X) q" "tp_pending q = tp_pending p"
    "tp_all q = tp_all p" by (rule enqueue_known)
  show ?case using Cons.IH [OF q(2)] q(1,3,4) by (auto simp: enqueue_all_def)
qed

lemma promote_known:
  assumes "pool_inv E (add_mset tx X) p" "sender_of E p tx = a"
  obtains p' where "promoteTx E a tx p = Some (True, p')" "pool_inv E X p'" "tp_queue p' = tp_queue p" "sender_of E p' = sender_of E p"
    "tp_locals p' = tp_locals p" "no_empty (tp_pending p) \<Longrightarrow> no_empty (tp_pending p')"
proof -
  note inv = pool_invD [OF assms(1)]
  define list where "list = (case mget (tp_pending p) a of None \<Rightarrow> newTxList True | Some l \<Rightarrow> l)"
  have "tl_ok list" unfolding list_def by (rule list_or_new_ok [OF inv(1)])
  moreover have "nonce_of t \<noteq> nonce_of tx" if "t \<in> set (list_txs list)" for t
    using that slot_free(1) [OF assms(1)] assms(2) by (auto simp: list_def split: option.splits)
  ultimately obtain l' where l': "tl_Add tx (pc_PriceBump (tp_config p)) list = ((True, None), l')"
    "mset (list_txs l') = add_mset tx (mset (list_txs list))" "tl_ok l'" "tl_strict l' = tl_strict list"
    by (rule tl_Add_fresh)
  define q where "q = p\<lparr>tp_pending := mput a l' (tp_pending p)\<rparr>"
  note add = lists_ok_add [OF inv(1) list_def l'(3,4,2) assms(2)]
  have ok: "pool_inv E X q" unfolding q_def using add by (intro pool_inv_pending [OF assms(1)]) simp_all
  obtain n where n: "tp_pendingNonces q = Some n" by (rule pool_inv_obtain [OF ok])
  then have run: "promoteTx E a tx p =
      Some (True, q\<lparr>tp_pendingNonces := Some (nn_set a (tx_Nonce tx + 1) n), tp_beats := mput a (pe_now E) (tp_beats q)\<rparr>)"
    using l'(1) limbo_known [OF assms(1)] by (simp add: promoteTx_def list_def [symmetric] q_def replace_old_def add_if_unknown_def Let_def)
  have "list_txs l' \<noteq> []" using l'(2) by auto
  then show thesis by (intro that [OF run]) (simp_all add: ok, simp_all add: q_def no_empty_mput)
qed


section \<open>Removing a transaction\<close>

lemma increasing_nonce_unique: "increasing xs \<Longrightarrow> s \<in> set xs \<Longrightarrow> t \<in> set xs \<Longrightarrow> nonce_of s = nonce_of t \<Longrightarrow> s = t"
  by (induction xs) auto

lemma tl_increasing: "tl_ok l \<Longrightarrow> increasing (list_txs l)"
  by (simp add: tl_ok_def sm_okD(4))

lemma tl_Remove_own:
  assumes "tl_ok l" "tx \<in> set (list_txs l)"
  obtains invalids l' where "tl_Remove tx l = ((True, invalids), l')"
    "mset (list_txs l) = add_mset tx (mset invalids + mset (list_txs l'))" "tl_ok l'" "tl_strict l' = tl_strict l"
    "\<not> tl_strict l \<Longrightarrow> invalids = [] \<and> list_txs l' = filter (\<lambda>t. nonce_of t \<noteq> nonce_of tx) (list_txs l)"
proof -
  obtain invalids l' where r: "tl_Remove tx l = ((True, invalids), l')" "tl_ok l'" "tl_strict l' = tl_strict l"
    "\<not> tl_strict l \<Longrightarrow> invalids = [] \<and> list_txs l' = filter (\<lambda>t. nonce_of t \<noteq> nonce_of tx) (list_txs l)"
    by (rule tl_Remove_cases [OF assms(1), of tx]) (use assms(2) in blast)+
  obtain t where t: "nonce_of t = nonce_of tx" "mset (list_txs l) = add_mset t (mset invalids + mset (list_txs l'))"
    by (rule tl_Remove_partition [OF assms(1), of tx]) (simp_all add: r(1))
  have "t \<in> set (list_txs l)" using t(2) by (metis set_mset_mset union_single_eq_member)
  then have "t = tx" using increasing_nonce_unique [OF tl_increasing [OF assms(1)] _ assms(2)] t(1) by blast
  then show thesis using that r t(2) by blast
qed

lemma known_cases:
  assumes "pool_inv E {#} p" "tx \<in># known p"
  obtains (pending) l where "mget (tp_pending p) (sender_of E p tx) = Some l" "tx \<in> set (list_txs l)"
  | (queued) l where "mget (tp_queue p) (sender_of E p tx) = Some l" "tx \<in> set (list_txs l)"
proof -
  note inv = pool_invD [OF assms(1)]
  consider "tx \<in># held (tp_pending p)" | "tx \<in># held (tp_queue p)" using assms(2) inv(4) by auto
  then show thesis
  proof cases
    case 1
    then show thesis using held_out [OF lists_ok_gomap [OF inv(1)]] lists_okD(3) [OF inv(1)] pending by metis
  next
    case 2
    then show thesis using held_out [OF lists_ok_gomap [OF inv(2)]] lists_okD(3) [OF inv(2)] queued by metis
  qed
qed

lemma queued_not_pending:
  assumes "pool_inv E X p" "mget (tp_queue p) a = Some l" "tx \<in> set (list_txs l)"
    "mget (tp_pending p) a = Some k" "t \<in> set (list_txs k)"
  shows "nonce_of t \<noteq> nonce_of tx"
proof -
  note inv = pool_invD [OF assms(1)]
  have "tx \<in># held (tp_queue p)" "t \<in># held (tp_pending p)"
    using held_in assms(2-5) by blast+
  then obtain M N where "held (tp_queue p) = add_mset tx M" "held (tp_pending p) = add_mset t N"
    by (meson mset_add)
  then have "known p = add_mset tx (add_mset t (M + N + X))" using inv(4) by simp
  then have "slot E p tx \<noteq> slot E p t" using uniqD [OF inv(5)] by simp
  then show ?thesis
    using lists_okD(3) [OF inv(2) assms(2,3)] lists_okD(3) [OF inv(1) assms(4,5)] by (auto simp: slot_def)
qed

lemma lower_nonce_inv:
  assumes "pool_inv E X p"
  obtains n where "lower_nonce E a tx p = Some (p\<lparr>tp_pendingNonces := Some n\<rparr>)" "pool_inv E X (p\<lparr>tp_pendingNonces := Some n\<rparr>)"
proof -
  obtain n where "tp_pendingNonces p = Some n" by (rule pool_inv_obtain [OF assms])
  then show thesis using that pool_inv_nonces [OF assms] by (simp add: lower_nonce_def)
qed

lemma set_pending_inv:
  assumes "pool_inv E X p" "mget (tp_pending p) a = Some l" "tl_ok l'" "tl_strict l' = tl_strict l"
    "mset (list_txs l) = M + mset (list_txs l')"
  shows "pool_inv E (M + X) (set_pending a l' p)"
proof -
  note put = put_pending_inv [OF assms]
  show ?thesis
  proof (cases "tl_Empty l'")
    case True
    then have "pool_inv E (M + X) (put_pending a l' p\<lparr>tp_pending := mdel a (mput a l' (tp_pending p))\<rparr>)"
      using drop_pending_inv [OF put, of a l'] by (simp add: tl_Len_length)
    then show ?thesis using True by (simp add: set_pending_def put_pending_def delete_update_same)
  qed (use put in \<open>simp add: set_pending_def put_pending_def\<close>)
qed

lemma removeTx_pending:
  assumes "pool_inv E {#} p" "lk_Get h (tp_all p) = Some tx" "mget (tp_pending p) (sender_of E p tx) = Some l" "tx \<in> set (list_txs l)"
  obtains p' where "removeTx E h oob p = Some p'" "pool_inv E {#} p'" "no_empty (tp_pending p) \<Longrightarrow> no_empty (tp_pending p')"
    "lk_Remove (pe_crypto E) h (tp_all p) = Some (tp_all p')"
proof -
  note inv = pool_invD [OF assms(1)]
  let ?a = "sender_of E p tx"
  note l = lists_okD [OF inv(1) assms(3)]
  obtain invalids l' where r: "tl_Remove tx l = ((True, invalids), l')"
    "mset (list_txs l) = add_mset tx (mset invalids + mset (list_txs l'))" "tl_ok l'" "tl_strict l' = tl_strict l"
    by (rule tl_Remove_own [OF l(1) assms(4)])
  have h: "hash_of (pe_crypto E) tx = h" using assms(2) keyed_mget [OF inv(3)] by (simp add: lk_Get_def)
  have "pool_inv E (add_mset tx (mset invalids)) (set_pending ?a l' p)"
    using set_pending_inv [OF assms(1,3) r(3,4), of "add_mset tx (mset invalids)"] r(2) by simp
  then obtain a where a: "all_remove E tx (set_pending ?a l' p) = Some (set_pending ?a l' p\<lparr>tp_all := a\<rparr>)"
    "pool_inv E (mset invalids) (set_pending ?a l' p\<lparr>tp_all := a\<rparr>)" by (rule all_remove_inv)
  then have lk: "lk_Remove (pe_crypto E) h (tp_all p) = Some a"
    by (auto simp: all_remove_def set_pending_def h bind_eq_Some_conv dest: arg_cong [where f = tp_all])
  define q where "q = (if oob then priced_removed 1 (p\<lparr>tp_all := a\<rparr>) else p\<lparr>tp_all := a\<rparr>)"
  have "pool_inv E (mset invalids) (set_pending ?a l' q) \<longleftrightarrow> pool_inv E (mset invalids) (set_pending ?a l' p\<lparr>tp_all := a\<rparr>)"
    by (rule pool_inv_cong; cases oob; simp add: q_def set_pending_def)
  then have "pool_inv E (mset invalids + {#}) (set_pending ?a l' q)" using a(2) by simp
  then obtain q' where q': "enqueue_all E invalids (set_pending ?a l' q) = Some q'" "pool_inv E {#} q'"
    "tp_pending q' = tp_pending (set_pending ?a l' q)" "tp_all q' = tp_all (set_pending ?a l' q)"
    using enqueue_all_known by blast
  obtain n where n: "lower_nonce E ?a tx q' = Some (q'\<lparr>tp_pendingNonces := Some n\<rparr>)" "pool_inv E {#} (q'\<lparr>tp_pendingNonces := Some n\<rparr>)"
    by (rule lower_nonce_inv [OF q'(2)])
  have "pending_remove ?a tx q = Some (invalids, l')"
    using assms(3) r(1) by (simp add: pending_remove_def q_def priced_removed_def)
  then have "removeTx E h oob p = Some (q'\<lparr>tp_pendingNonces := Some n\<rparr>)"
    using assms(2) lk q'(1) n(1) by (simp add: removeTx_def q_def [symmetric] Let_def)
  moreover have "no_empty (tp_pending q')" if "no_empty (tp_pending p)"
    using that no_empty_mput no_empty_mdel q'(3) by (simp add: set_pending_def q_def tl_Len_length)
  moreover have "tp_all q' = a" using q'(4) by (simp add: set_pending_def q_def)
  ultimately show thesis using that [OF _ n(2)] lk by simp
qed


definition txs_at :: "(address, txList) gomap \<Rightarrow> address \<Rightarrow> Transaction list" where
  "txs_at m a = (case mget m a of None \<Rightarrow> [] | Some l \<Rightarrow> list_txs l)"

lemma removeTx_queued:
  assumes "pool_inv E {#} p" "lk_Get h (tp_all p) = Some tx" "mget (tp_queue p) (sender_of E p tx) = Some l" "tx \<in> set (list_txs l)"
  obtains p' where "removeTx E h oob p = Some p'" "pool_inv E {#} p'" "tp_pending p' = tp_pending p"
    "\<And>b. b \<noteq> sender_of E p tx \<Longrightarrow> mget (tp_queue p') b = mget (tp_queue p) b"
    "txs_at (tp_queue p') (sender_of E p tx) = filter (\<lambda>t. nonce_of t \<noteq> nonce_of tx) (list_txs l)"
    "sender_of E p' = sender_of E p" "lk_Remove (pe_crypto E) h (tp_all p) = Some (tp_all p')"
proof -
  note inv = pool_invD [OF assms(1)]
  let ?a = "sender_of E p tx"
  note l = lists_okD [OF inv(2) assms(3)]
  have "\<not> tl_strict l" using l(2) by simp
  then obtain invalids l' where r: "tl_Remove tx l = ((True, invalids), l')" "mset (list_txs l) = add_mset tx (mset invalids + mset (list_txs l'))"
    "tl_ok l'" "tl_strict l' = tl_strict l" "invalids = []" "list_txs l' = filter (\<lambda>t. nonce_of t \<noteq> nonce_of tx) (list_txs l)"
    using tl_Remove_own [OF l(1) assms(4)] by metis
  have h: "hash_of (pe_crypto E) tx = h" using assms(2) keyed_mget [OF inv(3)] by (simp add: lk_Get_def)
  have "pool_inv E (add_mset tx {#}) (put_queue ?a l' p)"
    using put_queue_inv [OF assms(1,3) r(3,4), of "add_mset tx {#}"] r(2,5) by simp
  then obtain a where a: "all_remove E tx (put_queue ?a l' p) = Some (put_queue ?a l' p\<lparr>tp_all := a\<rparr>)"
    "pool_inv E {#} (put_queue ?a l' p\<lparr>tp_all := a\<rparr>)" by (rule all_remove_inv)
  then have lk: "lk_Remove (pe_crypto E) h (tp_all p) = Some a"
    by (auto simp: all_remove_def h bind_eq_Some_conv dest: arg_cong [where f = tp_all])
  define q where "q = (if oob then priced_removed 1 (p\<lparr>tp_all := a\<rparr>) else p\<lparr>tp_all := a\<rparr>)"
  have "nonce_of t \<noteq> nonce_of tx" if "mget (tp_pending p) ?a = Some k" "t \<in> set (list_txs k)" for k t
    by (rule queued_not_pending [OF assms(1,3,4) that])
  then have "fst (fst (tl_Remove tx k)) = False" if "mget (tp_pending p) ?a = Some k" for k
    using that by (rule_tac tl_Remove_cases [OF lists_okD(1) [OF inv(1) that], of tx]) auto
  then have "pending_remove ?a tx q = None"
    by (auto simp: pending_remove_def q_def Let_def split: option.splits)
  then have run: "removeTx E h oob p = Some (queue_remove ?a tx q)"
    using assms(2) lk by (simp add: removeTx_def q_def [symmetric] Let_def)
  have get: "mget (tp_queue q) ?a = Some l" using assms(3) by (simp add: q_def)
  have "pool_inv E {#} (put_queue ?a l' q) \<longleftrightarrow> pool_inv E {#} (put_queue ?a l' p\<lparr>tp_all := a\<rparr>)"
    by (rule pool_inv_cong; cases oob; simp add: q_def)
  then have put: "pool_inv E {#} (put_queue ?a l' q)" using a(2) by simp
  have del: "pool_inv E {#} (q\<lparr>tp_queue := mdel ?a (tp_queue q)\<rparr>)" if "tl_Empty l'"
    using drop_queue_inv [OF put, of ?a l'] that by (simp add: tl_Len_length put_queue_def delete_update_same)
  have ok: "pool_inv E {#} (queue_remove ?a tx q)"
    using put del get r(1) by (simp add: queue_remove_def put_queue_def Let_def)
  have same: "tp_pending (queue_remove ?a tx q) = tp_pending p" "sender_of E (queue_remove ?a tx q) = sender_of E p"
    "lk_Remove (pe_crypto E) h (tp_all p) = Some (tp_all (queue_remove ?a tx q))"
    using get lk by (simp_all add: queue_remove_def q_def Let_def)
  have other: "mget (tp_queue (queue_remove ?a tx q)) b = mget (tp_queue p) b" if "b \<noteq> ?a" for b
    using that get by (simp add: queue_remove_def q_def Let_def)
  have own: "txs_at (tp_queue (queue_remove ?a tx q)) ?a = filter (\<lambda>t. nonce_of t \<noteq> nonce_of tx) (list_txs l)"
    unfolding r(6) [symmetric] using get r(1) by (simp add: txs_at_def queue_remove_def Let_def tl_Len_length)
  show thesis by (rule that [OF run ok same(1) other own same(2,3)])
qed

lemma lk_Get_in: "lk_Get h (tp_all p) = Some tx \<Longrightarrow> tx \<in># known p"
  by (auto simp: lk_Get_def known_def dest: map_of_SomeD intro: rev_image_eqI)

lemma lk_Remove_unknown: "lk_Remove C h t = Some t' \<Longrightarrow> lk_Get k t = None \<Longrightarrow> lk_Get k t' = None"
  by (auto simp: lk_Remove_def lk_Get_def split: option.splits)

text \<open>What is not known stays so, and pending lists do not become empty.\<close>

definition shrinks :: "'s TxPool \<Rightarrow> 's TxPool \<Rightarrow> bool" where
  "shrinks p p' \<longleftrightarrow> (\<forall>k. lk_Get k (tp_all p) = None \<longrightarrow> lk_Get k (tp_all p') = None) \<and>
     (no_empty (tp_pending p) \<longrightarrow> no_empty (tp_pending p'))"

lemma shrinks_refl [simp]: "shrinks p p"
  by (simp add: shrinks_def)

lemma shrinks_trans: "shrinks p q \<Longrightarrow> shrinks q r \<Longrightarrow> shrinks p r"
  by (simp add: shrinks_def)

lemma removeTx_inv:
  assumes "pool_inv E {#} p"
  obtains p' where "removeTx E h oob p = Some p'" "pool_inv E {#} p'" "shrinks p p'"
proof (cases "lk_Get h (tp_all p)")
  case None
  then show thesis using that [of p] assms by (simp add: removeTx_def)
next
  case (Some tx)
  show thesis
  proof (rule known_cases [OF assms lk_Get_in [OF Some]])
    fix l assume "mget (tp_pending p) (sender_of E p tx) = Some l" "tx \<in> set (list_txs l)"
    from removeTx_pending [OF assms Some this, of oob] obtain p' where "removeTx E h oob p = Some p'" "pool_inv E {#} p'"
      "no_empty (tp_pending p) \<Longrightarrow> no_empty (tp_pending p')" "lk_Remove (pe_crypto E) h (tp_all p) = Some (tp_all p')" by blast
    then show thesis using that [of p'] lk_Remove_unknown by (auto simp: shrinks_def)
  next
    fix l assume "mget (tp_queue p) (sender_of E p tx) = Some l" "tx \<in> set (list_txs l)"
    from removeTx_queued [OF assms Some this, of oob] obtain p' where "removeTx E h oob p = Some p'" "pool_inv E {#} p'"
      "tp_pending p' = tp_pending p" "lk_Remove (pe_crypto E) h (tp_all p) = Some (tp_all p')" by blast
    then show thesis using that [of p'] lk_Remove_unknown by (auto simp: shrinks_def)
  qed
qed

lemma foreach_inv:
  assumes "\<And>x s. P s \<Longrightarrow> x \<in> set xs \<Longrightarrow> \<exists>s'. f x s = Some s' \<and> P s'" "P s"
  shows "\<exists>s'. foreach f xs s = Some s' \<and> P s'"
  using assms
proof (induction xs arbitrary: s)
  case (Cons x xs)
  obtain s' where "f x s = Some s'" "P s'" using Cons.prems by fastforce
  then show ?case using Cons.IH [of s'] Cons.prems(1) by auto
qed simp

lemma remove_all_inv:
  "pool_inv E {#} p \<Longrightarrow> \<exists>p'. remove_all E oob txs p = Some p' \<and> pool_inv E {#} p' \<and> shrinks p p'"
proof (induction txs arbitrary: p)
  case (Cons tx txs)
  obtain q where q: "removeTx E (hash_of (pe_crypto E) tx) oob p = Some q" "pool_inv E {#} q" "shrinks p q"
    by (rule removeTx_inv [OF Cons.prems, of "hash_of (pe_crypto E) tx" oob])
  then show ?case using Cons.IH [OF q(2)] shrinks_trans [OF q(3)] by (auto simp: remove_all_def)
qed (simp add: remove_all_def)

end
