(* ===== verification/Tx_Pool_Reorg.thy ===== *)
theory Tx_Pool_Reorg
  imports Tx_Pool_Inv
begin

text \<open>
  The operations that move transactions between the lists of the pool keep its invariant and do not
  panic: promotion, demotion, truncation, eviction and adding.
\<close>

section \<open>Promotion\<close>

lemma tl_Forward_partition: "tl_ok l \<Longrightarrow> mset (list_txs l) = mset (fst (tl_Forward n l)) + mset (list_txs (snd (tl_Forward n l)))"
  by (simp only: tl_Forward_correct flip: mset_append) (simp add: takeWhile_dropWhile_id)

lemma ready_part_prefix: "ready_part n txs = take (length (ready_part n txs)) txs"
  using run_prefix by (auto simp: ready_part_def split: list.splits)

lemma tl_Ready_partition: "tl_ok l \<Longrightarrow> mset (list_txs l) = mset (fst (tl_Ready n l)) + mset (list_txs (snd (tl_Ready n l)))"
  by (simp only: tl_Ready_correct flip: mset_append) (metis append_take_drop_id ready_part_prefix)

lemma tl_Filter_keeps:
  assumes "tl_ok l"
  shows "tl_ok (snd (tl_Filter c g l))" "tl_strict (snd (tl_Filter c g l)) = tl_strict l"
    "\<not> tl_strict l \<Longrightarrow> snd (fst (tl_Filter c g l)) = []" "tx \<in> set (list_txs (snd (tl_Filter c g l))) \<Longrightarrow> tx_Gas tx \<le> g"
proof -
  obtain removed invalids l' where r: "tl_Filter c g l = ((removed, invalids), l')" "tl_ok l'" "tl_strict l' = tl_strict l"
    "set invalids = (if tl_strict l then {tx \<in> set (list_txs l). \<not> (g < tx_Gas tx \<or> c < tx_Cost tx) \<and>
       (\<exists>r \<in> set removed. nonce_of r < nonce_of tx)} else {})" "\<forall>tx \<in> set (list_txs l'). \<not> (g < tx_Gas tx \<or> c < tx_Cost tx)"
    by (rule tl_Filter_correct [OF assms, of c g]) blast
  show "tl_ok (snd (tl_Filter c g l))" "tl_strict (snd (tl_Filter c g l)) = tl_strict l"
    "\<not> tl_strict l \<Longrightarrow> snd (fst (tl_Filter c g l)) = []" "tx \<in> set (list_txs (snd (tl_Filter c g l))) \<Longrightarrow> tx_Gas tx \<le> g"
    using r by (simp_all add: not_less)
qed

lemma queue_forget:
  assumes "pool_inv E {#} p" "mget (tp_queue p) a = Some l" "tl_ok l'" "tl_strict l' = tl_strict l"
    "mset (list_txs l) = mset txs + mset (list_txs l')"
  obtains al where "foreach (all_remove E) txs (put_queue a l' p) = Some (put_queue a l' p\<lparr>tp_all := al\<rparr>)"
    "pool_inv E {#} (put_queue a l' p\<lparr>tp_all := al\<rparr>)"
  using foreach_all_remove_inv [OF put_queue_inv [OF assms]] by blast

lemma pending_forget:
  assumes "pool_inv E {#} p" "mget (tp_pending p) a = Some l" "tl_ok l'" "tl_strict l' = tl_strict l"
    "mset (list_txs l) = mset txs + mset (list_txs l')"
  obtains al where "foreach (all_remove E) txs (put_pending a l' p) = Some (put_pending a l' p\<lparr>tp_all := al\<rparr>)"
    "pool_inv E {#} (put_pending a l' p\<lparr>tp_all := al\<rparr>)"
  using foreach_all_remove_inv [OF put_pending_inv [OF assms]] by blast

lemma promote_all:
  "pool_inv E (mset txs + X) p \<Longrightarrow> (\<And>tx. tx \<in> set txs \<Longrightarrow> sender_of E p tx = a) \<Longrightarrow>
   \<exists>p'. foreach (promote_ready E a) txs (acc, p) = Some (acc @ txs, p') \<and> pool_inv E X p' \<and> tp_queue p' = tp_queue p \<and>
     (no_empty (tp_pending p) \<longrightarrow> no_empty (tp_pending p'))"
proof (induction txs arbitrary: p acc)
  case (Cons tx txs)
  then have "pool_inv E (add_mset tx (mset txs + X)) p" by simp
  then obtain q where q: "promoteTx E a tx p = Some (True, q)" "pool_inv E (mset txs + X) q" "tp_queue q = tp_queue p"
    "sender_of E q = sender_of E p" "no_empty (tp_pending p) \<Longrightarrow> no_empty (tp_pending q)"
    by (rule promote_known [where a = a]) (use Cons.prems in auto)
  show ?case using Cons.IH [OF q(2), of "acc @ [tx]"] Cons.prems(2) q by (auto simp: promote_ready_def)
qed simp

lemma mset_take_drop: "mset xs = mset (drop k xs) + mset (take k xs)"
  by (metis append_take_drop_id mset_append union_commute)

lemma close_queue_inv:
  "pool_inv E X p \<Longrightarrow> mget (tp_queue p) a = Some l \<Longrightarrow> pool_inv E X (close_queue a l p)"
  using drop_queue_inv [of E X p a l] by (simp add: close_queue_def tl_Len_length)

lemma cap_queue_inv:
  assumes "pool_inv E {#} p" "mget (tp_queue p) a = Some l"
  obtains caps l' p' where "cap_queue E a l p = Some (caps, l', p')" "pool_inv E {#} p'" "mget (tp_queue p') a = Some l'"
    "tp_pending p' = tp_pending p" "set (list_txs l') \<subseteq> set (list_txs l)"
proof (cases "as_contains a (tp_locals p)")
  case True
  then show thesis using that [of "[]" l p] assms by (simp add: cap_queue_def)
next
  case False
  note inv = pool_invD [OF assms(1)]
  let ?k = "sint (pc_AccountQueue (tp_config p))"
  note l = lists_okD [OF inv(2) assms(2)]
  obtain l' where l': "tl_Cap ?k l = Some (rev (drop (nat ?k) (list_txs l)), l')"
    "list_txs l' = take (nat ?k) (list_txs l)" "tl_ok l'" "tl_strict l' = tl_strict l"
    by (rule tl_Cap_correct [OF l(1) inv(6)])
  have "mset (list_txs l) = mset (rev (drop (nat ?k) (list_txs l))) + mset (list_txs l')"
    unfolding l'(2) mset_rev by (rule mset_take_drop)
  then obtain al where al: "foreach (all_remove E) (rev (drop (nat ?k) (list_txs l))) (put_queue a l' p) = Some (put_queue a l' p\<lparr>tp_all := al\<rparr>)"
    "pool_inv E {#} (put_queue a l' p\<lparr>tp_all := al\<rparr>)" by (rule queue_forget [OF assms l'(3,4)])
  show thesis
    by (rule that [of "rev (drop (nat ?k) (list_txs l))" l' "put_queue a l' p\<lparr>tp_all := al\<rparr>"])
      (use False l'(1) al in \<open>simp_all add: cap_queue_def l'(2) set_take_subset\<close>)
qed

lemma promote_account_inv:
  assumes "pool_inv E {#} (snd s)"
  shows "\<exists>s'. promote_account E a s = Some s' \<and> pool_inv E {#} (snd s') \<and>
    (no_empty (tp_pending (snd s)) \<longrightarrow> no_empty (tp_pending (snd s'))) \<and> set (fst s') \<subseteq> set (fst s) \<union> {tx. tx_Gas tx = 0} \<and>
    set (txs_at (tp_queue (snd s')) a) \<subseteq> {tx. tx_Gas tx = 0}"
proof (cases "mget (tp_queue (snd s)) a")
  case None
  then show ?thesis using assms by (simp add: promote_account_def txs_at_def)
next
  case (Some l)
  note inv = pool_invD [OF assms] and l = lists_okD [OF pool_invD(2) [OF assms] Some]
  obtain st where st: "tp_currentState (snd s) = Some st" by (rule pool_inv_obtain [OF assms])
  define f where "f = tl_Forward (pe_GetNonce E st a) l"
  note fl = tl_Forward_correct [OF l(1), of "pe_GetNonce E st a", folded f_def] and fp = tl_Forward_partition [OF l(1), of "pe_GetNonce E st a", folded f_def]
  obtain a1 where p1: "foreach (all_remove E) (fst f) (put_queue a (snd f) (snd s)) = Some (put_queue a (snd f) (snd s)\<lparr>tp_all := a1\<rparr>)"
    "pool_inv E {#} (put_queue a (snd f) (snd s)\<lparr>tp_all := a1\<rparr>)" by (rule queue_forget [OF assms Some fl(3,4) fp])
  define p1 where "p1 = put_queue a (snd f) (snd s)\<lparr>tp_all := a1\<rparr>"
  define d where "d = tl_Filter (pe_GetBalance E st a) (tp_currentMaxGas p1) (snd f)"
  note dl = tl_Filter_keeps [OF fl(3), where c = "pe_GetBalance E st a" and g = "tp_currentMaxGas p1", folded d_def]
  have dp: "mset (list_txs (snd f)) = mset (fst (fst d)) + mset (list_txs (snd d))"
    using tl_Filter_partition [of "snd f" "pe_GetBalance E st a" "tp_currentMaxGas p1", folded d_def] dl(3) fl(4) l(2) by simp
  obtain a2 where p2: "foreach (all_remove E) (fst (fst d)) (put_queue a (snd d) p1) = Some (put_queue a (snd d) p1\<lparr>tp_all := a2\<rparr>)"
    "pool_inv E {#} (put_queue a (snd d) p1\<lparr>tp_all := a2\<rparr>)"
    by (rule queue_forget [of E p1 a "snd f" "snd d"]) (use p1 dl dp in \<open>simp_all add: p1_def\<close>)
  define p2 where "p2 = put_queue a (snd d) p1\<lparr>tp_all := a2\<rparr>"
  obtain n where n: "tp_pendingNonces p2 = Some n" by (rule pool_inv_obtain [OF p2(2) [folded p2_def]])
  define r where "r = tl_Ready (fst (nn_get E a n)) (snd d)"
  note rl = tl_Ready_correct [OF dl(1), of "fst (nn_get E a n)", folded r_def] and rp = tl_Ready_partition [OF dl(1), of "fst (nn_get E a n)", folded r_def]
  define p3 where "p3 = put_queue a (snd r) (p2\<lparr>tp_pendingNonces := Some (snd (nn_get E a n))\<rparr>)"
  have get2: "mget (tp_queue p2) a = Some (snd d)" by (simp add: p2_def)
  have i3: "pool_inv E (mset (fst r) + {#}) p3"
    unfolding p3_def by (rule put_queue_inv [where l = "snd d"]) (use p2(2) get2 rl rp in \<open>simp_all add: p2_def\<close>)
  have rd: "tx \<in> set (list_txs (snd d))" if "tx \<in> set (fst r)" for tx
    using that rp by (metis UnCI set_mset_mset set_mset_union)
  have "tp_currentMaxGas p1 = 0" using pool_invD(8) [OF assms] by (simp add: p1_def)
  then have dgas: "set (list_txs (snd d)) \<subseteq> {tx. tx_Gas tx = 0}" using dl(4) by fastforce
  then have gas: "set (fst r) \<subseteq> {tx. tx_Gas tx = 0}" using rd by blast
  have "sender_of E p3 tx = a" if "tx \<in> set (fst r)" for tx
  proof -
    show ?thesis using rd [OF that] lists_okD(3) [OF pool_invD(2) [OF p2(2) [folded p2_def]] get2] by (simp add: p3_def)
  qed
  from promote_all [OF i3 this, of "fst s"] obtain p4 where p4: "foreach (promote_ready E a) (fst r) (fst s, p3) = Some (fst s @ fst r, p4)"
    "pool_inv E {#} p4" "tp_queue p4 = tp_queue p3" "no_empty (tp_pending p3) \<longrightarrow> no_empty (tp_pending p4)" by blast
  have "mget (tp_queue p4) a = Some (snd r)" using p4(3) by (simp add: p3_def)
  from cap_queue_inv [OF p4(2) this] obtain caps l5 p5 where p5: "cap_queue E a (snd r) p4 = Some (caps, l5, p5)" "pool_inv E {#} p5"
    "mget (tp_queue p5) a = Some l5" "tp_pending p5 = tp_pending p4" "set (list_txs l5) \<subseteq> set (list_txs (snd r))" by blast
  define p6 where "p6 = close_queue a l5 (priced_removed (int (length (fst f) + length (fst (fst d)) + length caps)) p5)"
  have "promote_account E a s = Some (fst s @ fst r, p6)"
    using Some st p1(1) p2(1) n p4(1) p5(1)
    by (simp add: promote_account_def f_def [symmetric] p1_def [symmetric] d_def [symmetric] p2_def [symmetric]
        r_def [symmetric] p3_def [symmetric] p6_def Let_def)
  moreover have "pool_inv E {#} p6"
    unfolding p6_def by (rule close_queue_inv) (simp_all add: p5)
  moreover have "no_empty (tp_pending (snd s)) \<longrightarrow> no_empty (tp_pending p6)"
    using p4(4) p5(4) by (simp add: p6_def close_queue_def p3_def p2_def p1_def)
  moreover have "set (list_txs (snd r)) \<subseteq> set (list_txs (snd d))" using rl(2) by (simp add: set_drop_subset)
  then have "set (txs_at (tp_queue p6) a) \<subseteq> {tx. tx_Gas tx = 0}"
    using p5(3,5) dgas by (auto simp: p6_def close_queue_def txs_at_def tl_Len_length)
  ultimately show ?thesis using gas by auto
qed

lemma promoteExecutables_inv:
  assumes "pool_inv E {#} p" "no_empty (tp_pending p)"
  obtains txs p' where "promoteExecutables E accounts p = Some (txs, p')" "pool_inv E {#} p'" "no_empty (tp_pending p')"
    "\<And>tx. tx \<in> set txs \<Longrightarrow> tx_Gas tx = 0"
proof -
  have "\<exists>s'. foreach (promote_account E) accounts ([], p) = Some s' \<and>
      pool_inv E {#} (snd s') \<and> no_empty (tp_pending (snd s')) \<and> set (fst s') \<subseteq> {tx. tx_Gas tx = 0}"
  proof (rule foreach_inv)
    fix a s assume "pool_inv E {#} (snd s) \<and> no_empty (tp_pending (snd s)) \<and> set (fst s) \<subseteq> {tx. tx_Gas tx = 0}"
    then show "\<exists>s'. promote_account E a s = Some s' \<and>
        pool_inv E {#} (snd s') \<and> no_empty (tp_pending (snd s')) \<and> set (fst s') \<subseteq> {tx. tx_Gas tx = 0}"
      using promote_account_inv [of E s a] by auto
  qed (use assms in simp)
  then show thesis using that by (auto simp: promoteExecutables_def)
qed

section \<open>Demotion\<close>

lemma demote_gapped_inv:
  assumes "pool_inv E {#} p" "mget (tp_pending p) a = Some l"
  obtains l' p' where "demote_gapped E a nonce l p = Some (l', p')" "pool_inv E {#} p'" "mget (tp_pending p') a = Some l'"
    "\<And>b. b \<noteq> a \<Longrightarrow> mget (tp_pending p') b = mget (tp_pending p) b"
proof (cases "0 < tl_Len l \<and> sm_Get nonce (tl_txs l) = None")
  case False
  then show thesis using that [of l p] assms by (auto simp: demote_gapped_def)
next
  case True
  note l = lists_okD [OF pool_invD(1) [OF assms(1)] assms(2)]
  obtain l' where l': "tl_Cap 0 l = Some (rev (list_txs l), l')" "list_txs l' = []" "tl_ok l'" "tl_strict l' = tl_strict l"
    by (rule tl_Cap_correct [OF l(1), of 0]) simp_all
  have "pool_inv E (mset (rev (list_txs l)) + {#}) (put_pending a l' p)"
    by (rule put_pending_inv [OF assms l'(3,4)]) (simp add: l'(2))
  from enqueue_all_known [OF this] obtain p' where p': "enqueue_all E (rev (list_txs l)) (put_pending a l' p) = Some p'"
    "pool_inv E {#} p'" "tp_pending p' = tp_pending (put_pending a l' p)" by blast
  show thesis by (rule that [of l' p']) (use True l'(1) p' in \<open>simp_all add: demote_gapped_def\<close>)
qed

lemma demote_account_inv:
  assumes "pool_inv E {#} p"
  shows "\<exists>p'. demote_account E a p = Some p' \<and> pool_inv E {#} p' \<and>
    (\<forall>b. b \<noteq> a \<longrightarrow> mget (tp_pending p') b = mget (tp_pending p) b) \<and> (\<forall>k. mget (tp_pending p') a = Some k \<longrightarrow> list_txs k \<noteq> [])"
proof (cases "mget (tp_pending p) a")
  case None
  then show ?thesis using assms by (simp add: demote_account_def)
next
  case (Some l)
  note l = lists_okD [OF pool_invD(1) [OF assms] Some]
  obtain st where st: "tp_currentState p = Some st" by (rule pool_inv_obtain [OF assms])
  define f where "f = tl_Forward (pe_GetNonce E st a) l"
  note fl = tl_Forward_correct [OF l(1), of "pe_GetNonce E st a", folded f_def] and fp = tl_Forward_partition [OF l(1), of "pe_GetNonce E st a", folded f_def]
  obtain a1 where p1: "foreach (all_remove E) (fst f) (put_pending a (snd f) p) = Some (put_pending a (snd f) p\<lparr>tp_all := a1\<rparr>)"
    "pool_inv E {#} (put_pending a (snd f) p\<lparr>tp_all := a1\<rparr>)" by (rule pending_forget [OF assms Some fl(3,4) fp])
  define p1 where "p1 = put_pending a (snd f) p\<lparr>tp_all := a1\<rparr>"
  define d where "d = tl_Filter (pe_GetBalance E st a) (tp_currentMaxGas p1) (snd f)"
  note dl = tl_Filter_keeps [OF fl(3), where c = "pe_GetBalance E st a" and g = "tp_currentMaxGas p1", folded d_def]
  note dp = tl_Filter_partition [of "snd f" "pe_GetBalance E st a" "tp_currentMaxGas p1", folded d_def]
  have i2: "pool_inv E (mset (fst (fst d)) + (mset (snd (fst d)) + {#})) (put_pending a (snd d) p1)"
    using put_pending_inv [of E "{#}" p1 a "snd f" "snd d" "mset (fst (fst d)) + mset (snd (fst d))"] p1(2) dl(1,2) dp
    by (simp add: p1_def ac_simps)
  from foreach_all_remove_inv [OF i2] obtain a2 where p2: "foreach (all_remove E) (fst (fst d)) (put_pending a (snd d) p1) =
      Some (put_pending a (snd d) p1\<lparr>tp_all := a2\<rparr>)" "pool_inv E (mset (snd (fst d)) + {#}) (put_pending a (snd d) p1\<lparr>tp_all := a2\<rparr>)" by blast
  define p2 where "p2 = priced_removed (int (length (fst f)) + int (length (fst (fst d)))) (put_pending a (snd d) p1\<lparr>tp_all := a2\<rparr>)"
  have "pool_inv E (mset (snd (fst d)) + {#}) p2" using p2(2) by (simp add: p2_def)
  from enqueue_all_known [OF this] obtain p3 where p3: "enqueue_all E (snd (fst d)) p2 = Some p3" "pool_inv E {#} p3"
    "tp_pending p3 = tp_pending p2" by blast
  have "mget (tp_pending p3) a = Some (snd d)" using p3(3) by (simp add: p2_def)
  from demote_gapped_inv [OF p3(2) this, of "pe_GetNonce E st a"] obtain l4 p4 where
    p4: "demote_gapped E a (pe_GetNonce E st a) (snd d) p3 = Some (l4, p4)" "pool_inv E {#} p4" "mget (tp_pending p4) a = Some l4"
    "\<And>b. b \<noteq> a \<Longrightarrow> mget (tp_pending p4) b = mget (tp_pending p3) b" by blast
  define p5 where "p5 = (if tl_Empty l4 then p4\<lparr>tp_pending := mdel a (tp_pending p4)\<rparr> else p4)"
  have "demote_account E a p = Some p5"
    using Some st p1(1) p2(1) p3(1) p4(1)
    by (simp add: demote_account_def f_def [symmetric] p1_def [symmetric] d_def [symmetric] p2_def [symmetric] p5_def Let_def)
  moreover have "pool_inv E {#} p5" using drop_pending_inv [OF p4(2,3)] p4(2) by (simp add: p5_def tl_Len_length)
  moreover have "mget (tp_pending p5) b = mget (tp_pending p) b" if "b \<noteq> a" for b
    using that p4(4) [OF that] p3(3) by (simp add: p5_def p2_def p1_def)
  moreover have "list_txs k \<noteq> []" if "mget (tp_pending p5) a = Some k" for k
    using that p4(3) by (simp add: p5_def tl_Len_length split: if_splits)
  ultimately show ?thesis by blast
qed

lemma demoteUnexecutables_inv:
  assumes "pool_inv E {#} p" "no_empty (tp_pending p)"
  obtains p' where "demoteUnexecutables E p = Some p'" "pool_inv E {#} p'" "no_empty (tp_pending p')"
proof -
  have "\<exists>p'. foreach (demote_account E) (map fst (tp_pending p)) p = Some p' \<and> pool_inv E {#} p' \<and> no_empty (tp_pending p')"
  proof (rule foreach_inv)
    fix a q assume "pool_inv E {#} q \<and> no_empty (tp_pending q)"
    then show "\<exists>q'. demote_account E a q = Some q' \<and> pool_inv E {#} q' \<and> no_empty (tp_pending q')"
      using demote_account_inv [of E q a] unfolding no_empty_def by metis
  qed (use assms in simp)
  then show thesis using that by (auto simp: demoteUnexecutables_def)
qed


section \<open>Truncating the pending lists\<close>

lemma drop_capped_inv:
  "pool_inv E (mset txs + X) p \<Longrightarrow>
   \<exists>p'. foreach (drop_capped E a) txs p = Some p' \<and> pool_inv E X p' \<and> tp_pending p' = tp_pending p \<and>
     tp_queue p' = tp_queue p \<and> tp_config p' = tp_config p"
proof (induction txs arbitrary: p)
  case (Cons tx txs)
  then have "pool_inv E (add_mset tx (mset txs + X)) p" by simp
  then obtain al where al: "all_remove E tx p = Some (p\<lparr>tp_all := al\<rparr>)" "pool_inv E (mset txs + X) (p\<lparr>tp_all := al\<rparr>)"
    by (rule all_remove_inv)
  obtain n where n: "lower_nonce E a tx (p\<lparr>tp_all := al\<rparr>) = Some (p\<lparr>tp_all := al, tp_pendingNonces := Some n\<rparr>)"
    "pool_inv E (mset txs + X) (p\<lparr>tp_all := al, tp_pendingNonces := Some n\<rparr>)" by (rule lower_nonce_inv [OF al(2)])
  show ?case using Cons.IH [OF n(2)] al(1) n(1) by (auto simp: drop_capped_def)
qed simp

lemma cap_one_inv:
  assumes "pool_inv E {#} p" "mget (tp_pending p) a = Some l" "list_txs l \<noteq> []"
  obtains p' l' where "cap_one E a (p, n) = Some (p', n - 1)" "pool_inv E {#} p'" "mget (tp_pending p') a = Some l'"
    "list_txs l' = butlast (list_txs l)" "\<And>b. b \<noteq> a \<Longrightarrow> mget (tp_pending p') b = mget (tp_pending p) b" "tp_config p' = tp_config p"
    "tp_queue p' = tp_queue p"
proof -
  note l = lists_okD [OF pool_invD(1) [OF assms(1)] assms(2)]
  let ?k = "tl_Len l - 1"
  have k: "nat ?k = length (list_txs l) - 1" by (simp add: tl_Len_length)
  have "0 \<le> ?k" using assms(3) by (cases "list_txs l") (simp_all add: tl_Len_length)
  then obtain l' where l': "tl_Cap ?k l = Some (rev (drop (nat ?k) (list_txs l)), l')"
    "list_txs l' = take (nat ?k) (list_txs l)" "tl_ok l'" "tl_strict l' = tl_strict l"
    by (rule tl_Cap_correct [OF l(1)])
  let ?caps = "rev (drop (nat ?k) (list_txs l))"
  have "mset (list_txs l) = mset ?caps + mset (list_txs l')"
    unfolding l'(2) mset_rev by (rule mset_take_drop)
  from put_pending_inv [OF assms(1,2) l'(3,4) this] drop_capped_inv [of E ?caps "{#}" "put_pending a l' p" a]
  obtain q where q: "foreach (drop_capped E a) ?caps (put_pending a l' p) = Some q" "pool_inv E {#} q"
    "tp_pending q = mput a l' (tp_pending p)" "tp_queue q = tp_queue p" "tp_config q = tp_config p" by auto
  have "list_txs l' = butlast (list_txs l)" unfolding l'(2) k by (rule butlast_conv_take [symmetric])
  then show thesis
    by (intro that [of "priced_removed (int (length ?caps)) q" l'])
      (use assms(2) l'(1) q in \<open>simp_all add: cap_one_def\<close>)
qed

text \<open>The accounts whose lists have the same length \<open>k\<close>.\<close>

definition level :: "address list \<Rightarrow> nat \<Rightarrow> 's TxPool \<Rightarrow> bool" where
  "level addrs k p \<longleftrightarrow> distinct addrs \<and> (\<forall>a \<in> set addrs. \<exists>l. mget (tp_pending p) a = Some l \<and> length (list_txs l) = k)"

lemma cap_round:
  assumes "pool_inv E {#} p" "distinct addrs"
    "\<And>a. a \<in> set addrs \<Longrightarrow> \<exists>l. mget (tp_pending p) a = Some l \<and> length (list_txs l) = Suc k"
  shows "\<exists>p' n'. foreach (cap_one E) addrs (p, n) = Some (p', n') \<and> pool_inv E {#} p' \<and> level addrs k p' \<and>
    (\<forall>b. b \<notin> set addrs \<longrightarrow> mget (tp_pending p') b = mget (tp_pending p) b) \<and> tp_config p' = tp_config p \<and> tp_queue p' = tp_queue p"
  using assms
proof (induction addrs arbitrary: p n)
  case (Cons a addrs)
  obtain l where l: "mget (tp_pending p) a = Some l" "length (list_txs l) = Suc k" using Cons.prems(3) by auto
  then have "list_txs l \<noteq> []" by auto
  from cap_one_inv [OF Cons.prems(1) l(1) this, of n] obtain q l' where
    q: "cap_one E a (p, n) = Some (q, n - 1)" "pool_inv E {#} q" "mget (tp_pending q) a = Some l'" "list_txs l' = butlast (list_txs l)"
    "\<And>b. b \<noteq> a \<Longrightarrow> mget (tp_pending q) b = mget (tp_pending p) b" "tp_config q = tp_config p" "tp_queue q = tp_queue p" by blast
  have rest: "\<exists>l. mget (tp_pending q) b = Some l \<and> length (list_txs l) = Suc k" if "b \<in> set addrs" for b
  proof -
    have "b \<noteq> a" using Cons.prems(2) that by auto
    then show ?thesis using Cons.prems(3) [of b] q(5) [of b] that by simp
  qed
  obtain p' n' where p': "foreach (cap_one E) addrs (q, n - 1) = Some (p', n')" "pool_inv E {#} p'" "level addrs k p'"
    "\<And>b. b \<notin> set addrs \<Longrightarrow> mget (tp_pending p') b = mget (tp_pending q) b" "tp_config p' = tp_config q" "tp_queue p' = tp_queue q"
    using Cons.IH [OF q(2) _ rest, of "n - 1"] Cons.prems(2) by auto
  have "length (list_txs l') = k" using q(4) l(2) by (metis length_butlast diff_Suc_1)
  then have "level (a # addrs) k p'"
    using p'(3) p'(4) [of a] Cons.prems(2) q(3) by (auto simp: level_def)
  moreover have "foreach (cap_one E) (a # addrs) (p, n) = Some (p', n')" using q(1) p'(1) by simp
  moreover have "mget (tp_pending p') b = mget (tp_pending p) b" if "b \<notin> set (a # addrs)" for b
    using p'(4) [of b] q(5) [of b] that by simp
  ultimately show ?case using p'(2,5,6) q(6,7) by (intro exI [of _ p'] exI [of _ n']) simp
qed (simp add: level_def)

lemma levelD: "level addrs k p \<Longrightarrow> a \<in> set addrs \<Longrightarrow> \<exists>l. mget (tp_pending p) a = Some l \<and> length (list_txs l) = k"
  by (simp add: level_def)

lemma shrink_inv:
  assumes "pool_inv E {#} p" "level addrs k p" "final \<in> set addrs" "k < fuel" "\<And>l. longer l \<Longrightarrow> m < length (list_txs l)" "m \<le> k"
  shows "\<exists>p' n' k'. shrink fuel E longer addrs final (p, n) = Some (p', n') \<and> pool_inv E {#} p' \<and> level addrs k' p' \<and>
    m \<le> k' \<and> k' \<le> k \<and> (n' \<le> pc_GlobalSlots (tp_config p) \<or> (\<exists>l. mget (tp_pending p') final = Some l \<and> \<not> longer l)) \<and>
    (\<forall>b. b \<notin> set addrs \<longrightarrow> mget (tp_pending p') b = mget (tp_pending p) b) \<and> tp_config p' = tp_config p \<and> tp_queue p' = tp_queue p"
  using assms(1-4,6)
proof (induction fuel arbitrary: p n k)
  case (Suc fuel)
  obtain l where l: "mget (tp_pending p) final = Some l" "length (list_txs l) = k" using levelD [OF Suc.prems(2,3)] by blast
  show ?case
  proof (cases "pc_GlobalSlots (tp_config p) < n \<and> longer l")
    case False
    then have "shrink (Suc fuel) E longer addrs final (p, n) = Some (p, n)" using l(1) by auto
    then show ?thesis using Suc.prems l(1) False by (intro exI [of _ p] exI [of _ n] exI [of _ k]) auto
  next
    case True
    then obtain k' where k': "k = Suc k'" using assms(5) [of l] l(2) by (cases k) auto
    have "\<exists>l. mget (tp_pending p) a = Some l \<and> length (list_txs l) = Suc k'" if "a \<in> set addrs" for a
      using levelD [OF Suc.prems(2) that] k' by simp
    from cap_round [OF Suc.prems(1) _ this, where n = n] Suc.prems(2) obtain q n' where
      q: "foreach (cap_one E) addrs (p, n) = Some (q, n')" "pool_inv E {#} q" "level addrs k' q"
      "\<forall>b. b \<notin> set addrs \<longrightarrow> mget (tp_pending q) b = mget (tp_pending p) b" "tp_config q = tp_config p" "tp_queue q = tp_queue p"
      unfolding level_def by blast
    have m: "m \<le> k'" using assms(5) [of l] True l(2) k' by simp
    obtain p' n2 k2 where ih: "shrink fuel E longer addrs final (q, n') = Some (p', n2)" "pool_inv E {#} p'" "level addrs k2 p'"
      "m \<le> k2" "k2 \<le> k'" "n2 \<le> pc_GlobalSlots (tp_config q) \<or> (\<exists>l. mget (tp_pending p') final = Some l \<and> \<not> longer l)"
      "\<forall>b. b \<notin> set addrs \<longrightarrow> mget (tp_pending p') b = mget (tp_pending q) b" "tp_config p' = tp_config q" "tp_queue p' = tp_queue q"
      using Suc.IH [OF q(2,3) Suc.prems(3) _ m, of n'] Suc.prems(4) k' by auto
    have "shrink (Suc fuel) E longer addrs final (p, n) = Some (p', n2)" using True l(1) q(1) ih(1) by simp
    then show ?thesis using ih(2-9) q(4-6) k' by (intro exI [of _ p'] exI [of _ n2] exI [of _ k2]) simp
  qed
qed simp


definition plen :: "'s TxPool \<Rightarrow> address \<Rightarrow> nat" where
  "plen p a = (case mget (tp_pending p) a of None \<Rightarrow> 0 | Some l \<Rightarrow> length (list_txs l))"

lemma level_len: "level addrs k p \<longleftrightarrow> distinct addrs \<and> (\<forall>a \<in> set addrs. mget (tp_pending p) a \<noteq> None \<and> plen p a = k)"
  by (auto simp: level_def plen_def)

lemma no_empty_len: "no_empty (tp_pending p) \<longleftrightarrow> (\<forall>a. mget (tp_pending p) a \<noteq> None \<longrightarrow> 0 < plen p a)"
  by (auto simp: no_empty_def plen_def)

lemma equalize_stop: "n \<le> pc_GlobalSlots (tp_config p) \<Longrightarrow> equalize E sps offs (p, n) = Some (offs, p, n)"
  by (cases sps) (auto simp: not_less)

lemma equalize_inv:
  assumes "pool_inv E {#} p" "no_empty (tp_pending p)" "distinct (offs @ sps)" "\<forall>a \<in> set sps. mget (tp_pending p) a \<noteq> None"
    "offs \<noteq> [] \<longrightarrow> level offs k p \<and> (\<forall>a \<in> set sps. plen p a \<le> k)" "sorted_wrt (\<lambda>a b. plen p b \<le> plen p a) sps"
  shows "\<exists>offs' p' n'. equalize E sps offs (p, n) = Some (offs', p', n') \<and> pool_inv E {#} p' \<and> no_empty (tp_pending p') \<and>
    tp_config p' = tp_config p \<and> tp_queue p' = tp_queue p \<and>
    (n' \<le> pc_GlobalSlots (tp_config p) \<or> offs' = [] \<or> (\<exists>k. level offs' k p'))"
  using assms
proof (induction sps arbitrary: offs p n k)
  case Nil
  then show ?case by auto
next
  case (Cons a sps)
  let ?G = "pc_GlobalSlots (tp_config p)"
  consider "n \<le> ?G" | "?G < n" "offs = []" | "?G < n" "offs \<noteq> []" by (meson not_less)
  then show ?case
  proof cases
    case 1
    then show ?thesis using equalize_stop [OF 1, of E "a # sps" offs] Cons.prems(1,2)
      by (intro exI [of _ offs] exI [of _ p] exI [of _ n]) (simp del: equalize.simps)
  next
    case 2
    have "level [a] (plen p a) p" using Cons.prems(4) by (simp add: level_len)
    then show ?thesis using 2 Cons.IH [OF Cons.prems(1,2), of "[a]" "plen p a" n] Cons.prems(3,4,6) by simp
  next
    case 3
    have lv: "level offs k p" "plen p a \<le> k" using Cons.prems(5) 3(2) by auto
    obtain l where l: "mget (tp_pending p) a = Some l" using Cons.prems(4) by auto
    have la: "length (list_txs l) = plen p a" using l by (simp add: plen_def)
    obtain lf where lf: "mget (tp_pending p) (last offs) = Some lf" "length (list_txs lf) = k"
      using levelD [OF lv(1), of "last offs"] 3(2) by auto
    have fuel: "k < shrink_fuel (last offs) p" unfolding shrink_fuel_def using lf by (simp add: tl_Len_length)
    have lst: "last offs \<in> set offs" using 3(2) by simp
    have lon: "plen p a < length (list_txs x)" if "tl_Len l < tl_Len x" for x using that la by (simp add: tl_Len_length)
    obtain q n' k' where q: "shrink (shrink_fuel (last offs) p) E (\<lambda>x. tl_Len l < tl_Len x) offs (last offs) (p, n) = Some (q, n')"
      "pool_inv E {#} q" "level offs k' q" "plen p a \<le> k'"
      "n' \<le> ?G \<or> (\<exists>l'. mget (tp_pending q) (last offs) = Some l' \<and> \<not> tl_Len l < tl_Len l')"
      "\<forall>b. b \<notin> set offs \<longrightarrow> mget (tp_pending q) b = mget (tp_pending p) b" "tp_config q = tp_config p" "tp_queue q = tp_queue p"
      using shrink_inv [where longer = "\<lambda>x. tl_Len l < tl_Len x" and n = n, OF Cons.prems(1) lv(1) lst fuel lon lv(2)]
      by blast
    have other: "plen q b = plen p b" if "b \<notin> set offs" for b using q(6) that by (simp add: plen_def)
    have "0 < plen p a" using Cons.prems(2) l by (simp add: no_empty_len)
    then have "0 < plen q b" if "mget (tp_pending q) b \<noteq> None" for b
      using q(3,4,6) other [of b] Cons.prems(2) that by (cases "b \<in> set offs") (simp_all add: no_empty_len level_len)
    then have ne: "no_empty (tp_pending q)" by (simp add: no_empty_len)
    have run: "equalize E (a # sps) offs (p, n) = equalize E sps (offs @ [a]) (q, n')" using 3 l q(1) by simp
    show ?thesis
    proof (cases "n' \<le> ?G")
      case True
      then show ?thesis using run equalize_stop [of n' q E sps "offs @ [a]"] q(2,7,8) ne
        by (intro exI [of _ "offs @ [a]"] exI [of _ q] exI [of _ n']) (simp del: equalize.simps)
    next
      case False
      then obtain l' where l': "mget (tp_pending q) (last offs) = Some l'" "length (list_txs l') \<le> plen p a"
        using q(5) la by (auto simp: tl_Len_length)
      moreover have "length (list_txs l') = k'" using levelD [OF q(3), of "last offs"] 3(2) l'(1) by auto
      ultimately have k': "k' = plen p a" using q(4) by simp
      have fresh: "a \<notin> set offs" "set sps \<inter> set offs = {}" "a \<notin> set sps" using Cons.prems(3) by auto
      have lv': "level (offs @ [a]) k' q" using q(3,6) other [OF fresh(1)] fresh(1) l k' by (auto simp: level_len)
      have sp: "plen q b = plen p b" "mget (tp_pending q) b = mget (tp_pending p) b" if "b \<in> set sps" for b
        using other [of b] q(6) fresh(2) that by auto
      have sorted: "sorted_wrt (\<lambda>a b. plen q b \<le> plen q a) sps"
      proof (rule sorted_wrt_mono_rel)
        show "sorted_wrt (\<lambda>a b. plen p b \<le> plen p a) sps" using Cons.prems(6) by simp
      qed (simp add: sp(1))
      have "distinct ((offs @ [a]) @ sps)" "\<forall>b \<in> set sps. mget (tp_pending q) b \<noteq> None"
        "offs @ [a] \<noteq> [] \<longrightarrow> level (offs @ [a]) k' q \<and> (\<forall>b \<in> set sps. plen q b \<le> k')"
        using Cons.prems(3,4,6) k' lv' sp by simp_all
      from Cons.IH [OF q(2) ne this sorted, of n']
      show ?thesis using run q(7,8) by simp
    qed
  qed
qed


text \<open>
  The priority queue of the library: every entry is popped once, the highest priority first.
\<close>

definition prque_ok :: "'s pool_env \<Rightarrow> bool" where
  "prque_ok E \<longleftrightarrow> (\<forall>xs. distinct (map fst xs) \<longrightarrow>
     distinct (pe_prque E xs) \<and> set (pe_prque E xs) = fst ` set xs \<and>
     sorted_wrt (\<lambda>a b. the (map_of xs b) \<le> the (map_of xs a)) (pe_prque E xs))"

lemma spammers_ok:
  assumes "prque_ok E" "gomap_ok (tp_pending p)"
  shows "distinct (spammers_of E p)" "\<forall>a \<in> set (spammers_of E p). mget (tp_pending p) a \<noteq> None"
    "sorted_wrt (\<lambda>a b. plen p b \<le> plen p a) (spammers_of E p)"
proof -
  let ?ys = "filter (\<lambda>(a, l). \<not> as_contains a (tp_locals p) \<and> pc_AccountSlots (tp_config p) < word_of_int (tl_Len l)) (tp_pending p)"
  let ?xs = "map (\<lambda>(a, l). (a, tl_Len l)) ?ys"
  have keys: "map fst ?xs = map fst ?ys" by auto
  have ok: "gomap_ok ?ys" using assms(2) by (rule gomap_ok_filter)
  have d: "distinct (map fst ?xs)" unfolding keys using ok by (simp add: gomap_ok_def)
  have pq: "distinct (spammers_of E p)" "set (spammers_of E p) = fst ` set ?xs"
    "sorted_wrt (\<lambda>a b. the (map_of ?xs b) \<le> the (map_of ?xs a)) (spammers_of E p)"
    using assms(1) [unfolded prque_ok_def, rule_format, OF d] by (simp_all only: spammers_of_def)
  show "distinct (spammers_of E p)" by (rule pq(1))
  have pend: "mget (tp_pending p) a = Some l \<and> map_of ?xs a = Some (tl_Len l)" if "(a, l) \<in> set ?ys" for a l
  proof -
    have "(a, l) \<in> set (tp_pending p)" "(a, tl_Len l) \<in> set ?xs" using that by force+
    then show ?thesis using assms(2) d by (simp add: gomap_ok_def)
  qed
  have in_ys: "\<exists>l. (a, l) \<in> set ?ys" if "a \<in> set (spammers_of E p)" for a
    using that unfolding pq(2) by force
  show "\<forall>a \<in> set (spammers_of E p). mget (tp_pending p) a \<noteq> None" using in_ys pend by fastforce
  show "sorted_wrt (\<lambda>a b. plen p b \<le> plen p a) (spammers_of E p)"
  proof (rule sorted_wrt_mono_rel [OF _ pq(3)])
    fix a b assume "a \<in> set (spammers_of E p)" "b \<in> set (spammers_of E p)" "the (map_of ?xs b) \<le> the (map_of ?xs a)"
    moreover from this obtain l k where "(a, l) \<in> set ?ys" "(b, k) \<in> set ?ys" using in_ys by blast
    ultimately show "plen p b \<le> plen p a" using pend [of a l] pend [of b k] by (simp add: plen_def tl_Len_length)
  qed
qed

lemma word_above:
  assumes "x < (word_of_int (int n) :: u64)"
  shows "unat x < n"
proof -
  have "unat (word_of_int (int n) :: u64) \<le> n" by (simp add: unat_of_nat)
  then show ?thesis using assms by (simp add: word_less_nat_alt)
qed

lemma truncatePending_inv:
  assumes "pool_inv E {#} p" "no_empty (tp_pending p)" "prque_ok E"
  obtains p' where "truncatePending E p = Some p'" "pool_inv E {#} p'" "no_empty (tp_pending p')" "tp_config p' = tp_config p"
proof (cases "count_lists (tp_pending p) \<le> pc_GlobalSlots (tp_config p)")
  case True
  then show thesis using that [of p] assms(1,2) by (simp add: truncatePending_def)
next
  case False
  let ?n = "count_lists (tp_pending p)" and ?G = "pc_GlobalSlots (tp_config p)"
  note sp = spammers_ok [OF assms(3) lists_ok_gomap [OF pool_invD(1) [OF assms(1)]]]
  obtain offs q n where q: "equalize E (spammers_of E p) [] (p, ?n) = Some (offs, q, n)" "pool_inv E {#} q" "no_empty (tp_pending q)"
    "tp_config q = tp_config p" "n \<le> ?G \<or> offs = [] \<or> (\<exists>k. level offs k q)"
    using equalize_inv [OF assms(1,2), of "[]" "spammers_of E p" _ ?n] sp by auto
  have run: "truncatePending E p = (if ?G < n \<and> 0 < length offs
      then map_option fst (shrink (shrink_fuel (last offs) q) E (\<lambda>x. pc_AccountSlots (tp_config p) < word_of_int (tl_Len x)) offs (last offs) (q, n))
      else Some q)" using False q(1,4) by (simp add: truncatePending_def Let_def)
  show thesis
  proof (cases "?G < n \<and> 0 < length offs")
    case False
    then have "truncatePending E p = Some q" using run by auto
    then show thesis using that q(2-4) by blast
  next
    case True
    then obtain k where k: "level offs k q" using q(5) by auto
    have lst: "last offs \<in> set offs" using True by simp
    obtain lf where lf: "mget (tp_pending q) (last offs) = Some lf" "length (list_txs lf) = k" using levelD [OF k lst] by blast
    have k1: "1 \<le> k" using q(3) lf unfolding no_empty_def by (cases k) auto
    have fuel: "k < shrink_fuel (last offs) q" unfolding shrink_fuel_def using lf by (simp add: tl_Len_length)
    have lon: "1 < length (list_txs x)" if "pc_AccountSlots (tp_config p) < word_of_int (tl_Len x)" for x
    proof -
      have "unat (pc_AccountSlots (tp_config p)) < length (list_txs x)" using word_above that by (simp add: tl_Len_length)
      moreover have "1 \<le> unat (pc_AccountSlots (tp_config p))" using pool_invD(7) [OF assms(1)] by (simp add: word_le_nat_alt)
      ultimately show ?thesis by linarith
    qed
    obtain p' n' k' where p': "shrink (shrink_fuel (last offs) q) E (\<lambda>x. pc_AccountSlots (tp_config p) < word_of_int (tl_Len x)) offs (last offs) (q, n) =
        Some (p', n')" "pool_inv E {#} p'" "level offs k' p'" "1 \<le> k'"
      "\<forall>b. b \<notin> set offs \<longrightarrow> mget (tp_pending p') b = mget (tp_pending q) b" "tp_config p' = tp_config q"
      using shrink_inv [where longer = "\<lambda>x. pc_AccountSlots (tp_config p) < word_of_int (tl_Len x)" and n = n, OF q(2) k lst fuel lon k1] by blast
    have "0 < plen p' b" if "mget (tp_pending p') b \<noteq> None" for b
      using p'(3,4,5) q(3) that by (cases "b \<in> set offs") (simp_all add: no_empty_len level_len plen_def)
    then show thesis using that [of p'] run True p' q(4) by (simp add: no_empty_len)
  qed
qed

end
