(* ===== verification/Tx_Pool_Add.thy ===== *)
theory Tx_Pool_Add
  imports Tx_Pool_Reorg
begin

text \<open>
  Adding transactions, truncating the queue, eviction, changing the price limit and whole
  reorganisations keep the invariant of the pool.
\<close>

section \<open>Removing queued transactions\<close>

lemma remove_queued:
  assumes "pool_inv E {#} p" "distinct txs" "set txs \<subseteq> set (txs_at (tp_queue p) a)"
  shows "\<exists>p'. remove_all E oob txs p = Some p' \<and> pool_inv E {#} p' \<and> tp_pending p' = tp_pending p \<and>
    (\<forall>b. b \<noteq> a \<longrightarrow> mget (tp_queue p') b = mget (tp_queue p) b)"
  using assms
proof (induction txs arbitrary: p)
  case (Cons tx txs)
  note inv = pool_invD [OF Cons.prems(1)]
  obtain l where l: "mget (tp_queue p) a = Some l" "tx \<in> set (list_txs l)" "set txs \<subseteq> set (list_txs l)"
    using Cons.prems(3) by (cases "mget (tp_queue p) a") (simp_all add: txs_at_def)
  have sender: "sender_of E p tx = a" by (rule lists_okD(3) [OF inv(2) l(1,2)])
  have "tx \<in># known p" using held_in [OF l(1,2)] inv(4) by simp
  then have get: "lk_Get (hash_of (pe_crypto E) tx) (tp_all p) = Some tx"
    unfolding known_def by (rule lk_Get_known [OF inv(3)])
  obtain q where q: "removeTx E (hash_of (pe_crypto E) tx) oob p = Some q" "pool_inv E {#} q" "tp_pending q = tp_pending p"
    "\<And>b. b \<noteq> a \<Longrightarrow> mget (tp_queue q) b = mget (tp_queue p) b"
    "txs_at (tp_queue q) a = filter (\<lambda>t. nonce_of t \<noteq> nonce_of tx) (list_txs l)"
    using removeTx_queued [OF Cons.prems(1) get, of l oob] l(1,2) sender by metis
  have "nonce_of t \<noteq> nonce_of tx" if "t \<in> set txs" for t
    using increasing_nonce_unique [OF tl_increasing [OF lists_okD(1) [OF inv(2) l(1)]] _ l(2), of t] l(3) that Cons.prems(2) by auto
  then have "set txs \<subseteq> set (txs_at (tp_queue q) a)" using l(3) q(5) by auto
  from Cons.IH [OF q(2) _ this] Cons.prems(2) obtain p' where "remove_all E oob txs q = Some p'" "pool_inv E {#} p'"
    "tp_pending p' = tp_pending q" "\<forall>b. b \<noteq> a \<longrightarrow> mget (tp_queue p') b = mget (tp_queue q) b" by auto
  then show ?case using q(1,3,4) by (auto simp: remove_all_def)
qed (simp add: remove_all_def)

lemma drop_last_eq:
  "drop_last E txs n p = map_option (Pair (n - word_of_nat (min (unat n) (length txs)))) (remove_all E True (take (unat n) txs) p)"
proof (induction txs arbitrary: n p)
  case (Cons tx txs)
  show ?case
  proof (cases "n = 0")
    case False
    then have n: "unat n = Suc (unat (n - 1))" by (metis Suc_pred' measure_unat unat_minus_one unat_gt_0 gr_zeroI less_nat_zero_code)
    have "n - 1 - word_of_nat (min (unat (n - 1)) (length txs)) = n - word_of_nat (min (unat n) (length (tx # txs)))"
      by (simp add: n)
    then show ?thesis using False Cons.IH
      by (auto simp: remove_all_def n word_neq_0_conv bind_map_option comp_def map_option_bind diff_diff_eq split: bind_splits)
  qed (simp add: remove_all_def)
qed (simp add: remove_all_def)

lemma truncate_queue_loop_inv:
  assumes "pool_inv E {#} p" "distinct addrs" "\<forall>a \<in> set addrs. mget (tp_queue p) a \<noteq> None"
  shows "\<exists>p'. truncate_queue_loop E addrs n p = Some p' \<and> pool_inv E {#} p' \<and> tp_pending p' = tp_pending p"
  using assms
proof (induction addrs arbitrary: n p)
  case (Cons a addrs)
  show ?case
  proof (cases "0 < n")
    case True
    obtain l where l: "mget (tp_queue p) a = Some l" using Cons.prems(3) by auto
    note lo = lists_okD [OF pool_invD(2) [OF Cons.prems(1)] l] and f = tl_Flatten_correct [OF lists_okD(1) [OF pool_invD(2) [OF Cons.prems(1)] l]]
    define q where "q = put_queue a (snd (tl_Flatten l)) p"
    have iq: "pool_inv E {#} q"
      using put_queue_inv [OF Cons.prems(1) l f(3,4), of "{#}"] f(2) by (simp add: q_def)
    have at: "txs_at (tp_queue q) a = list_txs l" using f(2) by (simp add: q_def txs_at_def)
    have d: "distinct (list_txs l)" using tl_increasing [OF lo(1)] by (induction "list_txs l") (auto simp: sorted_wrt_iff_nth_less distinct_conv_nth, metis linorder_neqE_nat less_irrefl)
    have step: "\<exists>p'. remove_all E True txs q = Some p' \<and> pool_inv E {#} p' \<and> tp_pending p' = tp_pending p \<and>
        (\<forall>b \<in> set addrs. mget (tp_queue p') b \<noteq> None)" if txs: "distinct txs" "set txs \<subseteq> set (list_txs l)" for txs
    proof -
      obtain p' where p': "remove_all E True txs q = Some p'" "pool_inv E {#} p'" "tp_pending p' = tp_pending q"
        "\<forall>b. b \<noteq> a \<longrightarrow> mget (tp_queue p') b = mget (tp_queue q) b"
        using remove_queued [OF iq txs(1), of a True] txs(2) at by auto
      have "mget (tp_queue p') b \<noteq> None" if "b \<in> set addrs" for b
      proof -
        have "b \<noteq> a" using that Cons.prems(2) by auto
        then show ?thesis using p'(4) that Cons.prems(3) by (simp add: q_def)
      qed
      then show ?thesis using p' by (simp add: q_def)
    qed
    obtain p1 where p1: "remove_all E True (list_txs l) q = Some p1" "pool_inv E {#} p1" "tp_pending p1 = tp_pending p"
      "\<forall>b \<in> set addrs. mget (tp_queue p1) b \<noteq> None" using step [of "list_txs l"] d by auto
    obtain p2 where p2: "remove_all E True (take (unat n) (rev (list_txs l))) q = Some p2" "pool_inv E {#} p2" "tp_pending p2 = tp_pending p"
      "\<forall>b \<in> set addrs. mget (tp_queue p2) b \<noteq> None"
      using step [of "take (unat n) (rev (list_txs l))"] d set_take_subset [of "unat n" "rev (list_txs l)"] by auto
    show ?thesis
      using True l p1(1) p2(1) f(1) Cons.IH [OF p1(2) _ p1(4)] Cons.IH [OF p2(2) _ p2(4)] p1(3) p2(3) Cons.prems(2)
      by (auto simp: q_def [symmetric] drop_last_eq Let_def)
  qed (use Cons.prems in simp)
qed simp

lemma truncateQueue_inv:
  assumes "pool_inv E {#} p"
  obtains p' where "truncateQueue E p = Some p'" "pool_inv E {#} p'" "tp_pending p' = tp_pending p"
proof -
  let ?addrs = "rev (sort_key (beat_of p) (filter (\<lambda>a. \<not> as_contains a (tp_locals p)) (map fst (tp_queue p))))"
  have "distinct ?addrs" using lists_ok_gomap [OF pool_invD(2) [OF assms]] by (simp add: gomap_ok_def)
  moreover have "\<forall>a \<in> set ?addrs. mget (tp_queue p) a \<noteq> None" by (auto simp: mget_None_iff)
  ultimately show thesis
    using that truncate_queue_loop_inv [OF assms, of ?addrs] assms by (cases "count_lists (tp_queue p) \<le> pc_GlobalQueue (tp_config p)")
      (auto simp: truncateQueue_def Let_def, metis)
qed

lemma evict_inv:
  assumes "pool_inv E {#} p" "no_empty (tp_pending p)"
  obtains p' where "evict E p = Some p'" "pool_inv E {#} p'" "no_empty (tp_pending p')"
proof -
  have "\<exists>p'. evict E p = Some p' \<and> pool_inv E {#} p' \<and> no_empty (tp_pending p')"
    unfolding evict_def
  proof (rule foreach_inv)
    fix a q assume q: "pool_inv E {#} q \<and> no_empty (tp_pending q)"
    have "\<exists>q'. remove_all E True txs (put_queue a (snd (tl_Flatten l)) q) = Some q' \<and> pool_inv E {#} q' \<and> no_empty (tp_pending q')"
      if l: "mget (tp_queue q) a = Some l" for txs l
    proof -
      note f = tl_Flatten_correct [OF lists_okD(1) [OF pool_invD(2) [OF conjunct1 [OF q]] l]]
      have "pool_inv E {#} (put_queue a (snd (tl_Flatten l)) q)"
        using put_queue_inv [OF conjunct1 [OF q] l f(3,4), of "{#}"] f(2) by simp
      from remove_all_inv [OF this, of True txs] show ?thesis using q by (auto simp: shrinks_def)
    qed
    then show "\<exists>q'. evict_account E a q = Some q' \<and> pool_inv E {#} q' \<and> no_empty (tp_pending q')"
      using q by (auto simp: evict_account_def Let_def split: option.splits)
  qed (use assms in simp)
  then show thesis using that by blast
qed

lemma SetGasPrice_inv:
  assumes "pool_inv E {#} p" "no_empty (tp_pending p)"
  obtains p' where "SetGasPrice E price p = Some p'" "pool_inv E {#} p'" "no_empty (tp_pending p')"
proof -
  let ?c = "pl_Cap (pe_crypto E) (tp_all p) price (tp_locals p) (tp_priced p)"
  let ?q = "p\<lparr>tp_gasPrice := price, tp_priced := snd ?c\<rparr>"
  have "pool_inv E {#} ?q" using assms(1) by simp
  from remove_all_inv [OF this, of False "fst ?c"] show thesis using that assms(2) by (auto simp: SetGasPrice_def shrinks_def Let_def)
qed


section \<open>Adding a transaction\<close>

abbreviation opt_mset :: "'a option \<Rightarrow> 'a multiset" where
  "opt_mset x \<equiv> (case x of None \<Rightarrow> {#} | Some y \<Rightarrow> {#y#})"

text \<open>Replacing the transaction in the place of a new one, if there is one, in the look-up table.\<close>

lemma lookup_replace:
  assumes "keyed (hash_of C) (lk_all t)" "uniq f (mset (map snd (lk_all t)))" "lk_Get (hash_of C tx) t = None"
    "case old of None \<Rightarrow> f tx \<notin> f ` set_mset (mset (map snd (lk_all t))) | Some u \<Rightarrow> u \<in># mset (map snd (lk_all t)) \<and> f u = f tx"
  obtains t' where "(case old of None \<Rightarrow> Some t | Some u \<Rightarrow> lk_Remove C (hash_of C u) t) = Some t'" "lk_Get (hash_of C tx) t' = None"
    "keyed (hash_of C) (lk_all (lk_Add C tx t'))" "uniq f (mset (map snd (lk_all (lk_Add C tx t'))))"
    "mset (map snd (lk_all (lk_Add C tx t'))) + opt_mset old = add_mset tx (mset (map snd (lk_all t)))"
proof -
  let ?K = "mset (map snd (lk_all t))"
  show thesis
  proof (cases old)
    case None
    note add = lk_Add_unknown [OF assms(1,3)]
    show thesis by (rule that [of t]) (use None add assms in \<open>simp_all add: uniq_add del: mset_map\<close>)
  next
    case (Some u)
    then have "u \<in># ?K" "f u = f tx" using assms(4) by auto
    then obtain M where M: "?K = add_mset u M" by (meson mset_add)
    obtain t' where t': "lk_Remove C (hash_of C u) t = Some t'" "keyed (hash_of C) (lk_all t')" "mset (map snd (lk_all t')) = M"
      by (rule lk_Remove_known [OF assms(1) M])
    have get: "lk_Get (hash_of C tx) t' = None"
      using t'(1) assms(3) by (auto simp: lk_Remove_def lk_Get_def split: option.splits)
    note add = lk_Add_unknown [OF t'(2) get, unfolded t'(3)]
    have "uniq f (add_mset tx M)" using assms(2) \<open>f u = f tx\<close> unfolding M uniq_add by simp
    then show thesis by (intro that [of t']) (use Some t'(1) get add M in \<open>simp_all del: mset_map\<close>)
  qed
qed

lemma pool_inv_replace:
  assumes "pool_inv E {#} p" "lists_ok (sender_of E p) True m" "lists_ok (sender_of E p) False q"
    "held m + held q + opt_mset old = add_mset tx (held (tp_pending p) + held (tp_queue p))"
    "keyed (hash_of (pe_crypto E)) (lk_all t)" "uniq (slot E p) (mset (map snd (lk_all t)))"
    "mset (map snd (lk_all t)) + opt_mset old = add_mset tx (known p)"
    "sender_of E p' = sender_of E p" "tp_pending p' = m" "tp_queue p' = q" "tp_all p' = t" "tp_config p' = tp_config p"
    "tp_currentState p' = tp_currentState p" "tp_pendingNonces p' = tp_pendingNonces p"
    "tp_currentMaxGas p' = tp_currentMaxGas p"
  shows "pool_inv E {#} p'"
proof -
  have "mset (map snd (lk_all t)) + opt_mset old = held m + held q + opt_mset old"
    using assms(4,7) pool_invD(4) [OF assms(1)] by simp
  then have k: "known p' = held m + held q" unfolding known_def assms(11) by (rule add_right_imp_eq)
  have "slot E p' = slot E p" by (rule slot_cong [OF assms(8)])
  then show ?thesis using assms(1-3,5,6,8-15) k unfolding pool_inv_def by (simp add: known_def)
qed

lemma replace_old_run:
  "(case old of None \<Rightarrow> Some (tp_all p) | Some u \<Rightarrow> lk_Remove (pe_crypto E) (hash_of (pe_crypto E) u) (tp_all p)) = Some t \<Longrightarrow>
   \<exists>pl. replace_old E old p = Some (p\<lparr>tp_all := t, tp_priced := pl\<rparr>)"
proof (cases old)
  case None
  assume "(case old of None \<Rightarrow> Some (tp_all p) | Some u \<Rightarrow> lk_Remove (pe_crypto E) (hash_of (pe_crypto E) u) (tp_all p)) = Some t"
  then show ?thesis using None by (intro exI [of _ "tp_priced p"]) (simp add: replace_old_def)
qed (auto simp: replace_old_def all_remove_def priced_removed_def)

lemma find_nonce: "find (\<lambda>t. nonce_of t = n) xs = Some u \<Longrightarrow> u \<in> set xs \<and> nonce_of u = n"
  by (auto simp: find_Some_iff)

text \<open>The list of an account that accepts a transaction, and the place it takes.\<close>

lemma list_replace:
  assumes "lists_ok sender strict m" "list = (case mget m a of None \<Rightarrow> newTxList strict | Some l \<Rightarrow> l)"
    "tl_Add tx b list = ((True, old), l')" "sender tx = a"
  shows "lists_ok sender strict (mput a l' m)" "held (mput a l' m) + opt_mset old = add_mset tx (held m)"
    "old = Some u \<Longrightarrow> u \<in># held m \<and> sender u = a \<and> nonce_of u = nonce_of tx"
    "old = None \<Longrightarrow> t \<in> set (txs_at m a) \<Longrightarrow> nonce_of t \<noteq> nonce_of tx" "list_txs l' \<noteq> []"
proof -
  have ok: "tl_ok list" unfolding assms(2) by (rule list_or_new_ok [OF assms(1)])
  have "old = find (\<lambda>t. nonce_of t = nonce_of tx) (list_txs list) \<and> tl_ok l' \<and> tl_strict l' = tl_strict list \<and>
    list_txs l' = insort_key nonce_of tx (filter (\<lambda>t. nonce_of t \<noteq> nonce_of tx) (list_txs list))"
    by (rule tl_Add_cases [OF ok, of tx b]) (simp_all add: assms(3))
  then have old: "find (\<lambda>t. nonce_of t = nonce_of tx) (list_txs list) = old" and l': "tl_ok l'" "tl_strict l' = tl_strict list"
    "list_txs l' = insort_key nonce_of tx (filter (\<lambda>t. nonce_of t \<noteq> nonce_of tx) (list_txs list))" by simp_all
  have at: "at_key (\<lambda>l. mset (list_txs l)) m a = mset (list_txs list)" "tl_strict list = strict" "txs_at m a = list_txs list"
    using lists_okD(2) [OF assms(1)] by (auto simp: assms(2) at_key_def txs_at_def newTxList_def split: option.splits)
  have own: "mget m a = Some list" if "t \<in> set (list_txs list)" for t using that by (auto simp: assms(2) split: option.splits)
  have "sender s = a" if "s \<in> set (list_txs l')" for s
    using that l'(3) assms(4) lists_okD(3) [OF assms(1) own] by (auto simp: set_insort_key)
  then show "lists_ok sender strict (mput a l' m)" using l'(1,2) at(2) by (intro lists_ok_mput assms(1)) auto
  have part: "mset (list_txs l') + opt_mset old = add_mset tx (mset (list_txs list))"
    using tl_Add_partition [of tx b list] assms(3) by simp
  have "held (mput a l' m) + mset (list_txs list) + opt_mset old = held m + mset (list_txs l') + opt_mset old"
    using held_mput [of a l' m] at(1) by simp
  also have "\<dots> = add_mset tx (held m) + mset (list_txs list)" using part by (simp add: add.assoc)
  finally show "held (mput a l' m) + opt_mset old = add_mset tx (held m)"
    by (metis (no_types, lifting) add.assoc add.commute add_right_imp_eq)
  show "u \<in># held m \<and> sender u = a \<and> nonce_of u = nonce_of tx" if "old = Some u"
  proof -
    have u: "u \<in> set (list_txs list)" "nonce_of u = nonce_of tx" using find_nonce old that by blast+
    then show ?thesis using held_in [OF own [OF u(1)] u(1)] lists_okD(3) [OF assms(1) own [OF u(1)] u(1)] by simp
  qed
  show "nonce_of t \<noteq> nonce_of tx" if "old = None" "t \<in> set (txs_at m a)"
    using that old at(3) by (auto simp: find_None_iff)
  show "list_txs l' \<noteq> []" unfolding l'(3) by (metis insort_not_Nil)
qed

lemma pool_add_known:
  assumes "pool_inv E {#} p" "lk_Get (hash_of (pe_crypto E) tx) (tp_all p) = None" "tp_all q = tp_all p"
    "\<And>u. old = Some u \<Longrightarrow> u \<in># held (tp_pending p) + held (tp_queue p) \<and> slot E p u = slot E p tx"
    "\<And>t. old = None \<Longrightarrow> t \<in> set (txs_at (tp_pending p) (sender_of E p tx)) \<union> set (txs_at (tp_queue p) (sender_of E p tx)) \<Longrightarrow>
       nonce_of t \<noteq> nonce_of tx"
  obtains t pl where "replace_old E old q = Some (q\<lparr>tp_all := t, tp_priced := pl\<rparr>)" "lk_Get (hash_of (pe_crypto E) tx) t = None"
    "keyed (hash_of (pe_crypto E)) (lk_all (lk_Add (pe_crypto E) tx t))" "uniq (slot E p) (mset (map snd (lk_all (lk_Add (pe_crypto E) tx t))))"
    "mset (map snd (lk_all (lk_Add (pe_crypto E) tx t))) + opt_mset old = add_mset tx (known p)"
proof -
  note inv = pool_invD [OF assms(1)]
  let ?C = "pe_crypto E"
  have place: "case old of None \<Rightarrow> slot E p tx \<notin> slot E p ` set_mset (known p) | Some u \<Rightarrow> u \<in># known p \<and> slot E p u = slot E p tx"
  proof (cases old)
    case None
    have "slot E p tx \<noteq> slot E p t" if "t \<in># known p" for t
      using assms(5) [OF None, of t] by (rule_tac known_cases [OF assms(1) that]) (auto simp: slot_def txs_at_def)
    then show ?thesis using None by auto
  next
    case (Some u)
    then show ?thesis using assms(4) inv(4) by simp
  qed
  obtain t where t: "(case old of None \<Rightarrow> Some (tp_all p) | Some u \<Rightarrow> lk_Remove ?C (hash_of ?C u) (tp_all p)) = Some t"
    "lk_Get (hash_of ?C tx) t = None" "keyed (hash_of ?C) (lk_all (lk_Add ?C tx t))" "uniq (slot E p) (mset (map snd (lk_all (lk_Add ?C tx t))))"
    "mset (map snd (lk_all (lk_Add ?C tx t))) + opt_mset old = add_mset tx (known p)"
    unfolding known_def by (rule lookup_replace [OF inv(3) inv(5) [unfolded known_def] assms(2) place [unfolded known_def]])
  obtain pl where "replace_old E old q = Some (q\<lparr>tp_all := t, tp_priced := pl\<rparr>)"
    using replace_old_run [where old = old and p = q and E = E and t = t] t(1) assms(3) by metis
  then show thesis by (rule that [OF _ t(2-5)])
qed

lemma enqueue_unknown:
  assumes "pool_inv E {#} p" "lk_Get (hash_of (pe_crypto E) tx) (tp_all p) = None"
    "\<And>t. t \<in> set (txs_at (tp_pending p) (sender_of E p tx)) \<Longrightarrow> nonce_of t \<noteq> nonce_of tx"
  obtains r p' where "enqueueTx E tx p = Some (r, p')" "pool_inv E {#} p'" "tp_pending p' = tp_pending p"
proof -
  note inv = pool_invD [OF assms(1)]
  let ?a = "sender_of E p tx" and ?b = "pc_PriceBump (tp_config p)"
  define list where "list = (case mget (tp_queue p) ?a of None \<Rightarrow> newTxList False | Some l \<Rightarrow> l)"
  have ok: "tl_ok list" unfolding list_def by (rule list_or_new_ok [OF inv(2)])
  show thesis
  proof (rule tl_Add_cases [OF ok, of tx ?b])
    fix old assume old: "find (\<lambda>t. nonce_of t = nonce_of tx) (list_txs list) = Some old"
      and refused: "tl_Add tx ?b list = ((False, None), list)"
    have get: "mget (tp_queue p) ?a = Some list" using find_nonce [OF old] by (auto simp: list_def split: option.splits)
    then have "pool_inv E {#} (put_queue ?a list p)" using put_queue_inv [OF assms(1) get ok, of "{#}"] by simp
    then show thesis
      using that [of "Inl ErrReplaceUnderpriced" "put_queue ?a list p"] refused
      by (simp add: enqueueTx_def list_def [symmetric] put_queue_def Let_def)
  next
    fix l' let ?old = "find (\<lambda>t. nonce_of t = nonce_of tx) (list_txs list)"
    assume acc: "tl_Add tx ?b list = ((True, ?old), l')"
    note r = list_replace [OF inv(2) list_def acc refl]
    define q where "q = p\<lparr>tp_queue := mput ?a l' (tp_queue p)\<rparr>"
    have q: "tp_all q = tp_all p" by (simp add: q_def)
    have "u \<in># held (tp_pending p) + held (tp_queue p) \<and> slot E p u = slot E p tx" if "?old = Some u" for u
      using r(3) [OF that] by (simp add: slot_def)
    moreover have "nonce_of t \<noteq> nonce_of tx" if "?old = None" "t \<in> set (txs_at (tp_pending p) ?a) \<union> set (txs_at (tp_queue p) ?a)" for t
      using r(4) [OF that(1)] assms(3) that(2) by blast
    ultimately obtain t pl where t: "replace_old E ?old q = Some (q\<lparr>tp_all := t, tp_priced := pl\<rparr>)" "lk_Get (hash_of (pe_crypto E) tx) t = None"
      "keyed (hash_of (pe_crypto E)) (lk_all (lk_Add (pe_crypto E) tx t))" "uniq (slot E p) (mset (map snd (lk_all (lk_Add (pe_crypto E) tx t))))"
      "mset (map snd (lk_all (lk_Add (pe_crypto E) tx t))) + opt_mset ?old = add_mset tx (known p)"
      by (rule pool_add_known [OF assms(1,2) q, of ?old])
    define q' where "q' = all_add E tx (q\<lparr>tp_all := t, tp_priced := pl\<rparr>)"
    define q2 where "q2 = (if mget (tp_beats q') ?a = None then q'\<lparr>tp_beats := mput ?a (pe_now E) (tp_beats q')\<rparr> else q')"
    have run: "enqueueTx E tx p = Some (Inr (?old \<noteq> None), q2)"
      using acc t(1,2) by (simp add: enqueueTx_def list_def [symmetric] q_def [symmetric] add_if_unknown_def q'_def [symmetric] q2_def Let_def)
    have "pool_inv E {#} q2"
      by (rule pool_inv_replace [OF assms(1) inv(1) r(1) _ t(3-5)]) (use r(2) in \<open>simp_all add: q2_def q'_def all_add_def q_def ac_simps\<close>)
    then show thesis by (intro that [OF run]) (simp_all add: q2_def q'_def all_add_def q_def)
  qed
qed


lemma journalTx_simps [simp]:
  "pool_inv E X (journalTx E' a tx p) = pool_inv E X p" "tp_pending (journalTx E' a tx p) = tp_pending p"
  "tp_config (journalTx E' a tx p) = tp_config p" "tp_signer (journalTx E' a tx p) = tp_signer p"
  by (simp_all add: journalTx_def split: option.splits)

lemma queueTxEvent_simps [simp]:
  "pool_inv E X (queueTxEvent tx p) = pool_inv E X p" "tp_pending (queueTxEvent tx p) = tp_pending p"
  by (simp_all add: queueTxEvent_def)

lemma add_pending_inv:
  assumes "pool_inv E {#} p" "lk_Get (hash_of (pe_crypto E) tx) (tp_all p) = None" "mget (tp_pending p) (sender_of E p tx) = Some l"
    "tl_Overlaps tx l" "no_empty (tp_pending p)"
  obtains r p' where "add_pending E (sender_of E p tx) tx l p = Some (r, p')" "pool_inv E {#} p'" "no_empty (tp_pending p')"
proof -
  note inv = pool_invD [OF assms(1)]
  let ?a = "sender_of E p tx" and ?b = "pc_PriceBump (tp_config p)"
  note ok = lists_okD(1) [OF inv(1) assms(3)]
  show thesis
  proof (rule tl_Add_cases [OF ok, of tx ?b])
    assume refused: "tl_Add tx ?b l = ((False, None), l)"
    have "pool_inv E {#} (put_pending ?a l p)" using put_pending_inv [OF assms(1,3) ok, of "{#}"] by simp
    moreover have "no_empty (tp_pending (put_pending ?a l p))" using assms(3,5) by (auto simp: no_empty_def)
    ultimately show thesis using that [of "Inl ErrReplaceUnderpriced" "put_pending ?a l p"] refused
      by (simp add: add_pending_def put_pending_def Let_def)
  next
    fix l' let ?old = "find (\<lambda>t. nonce_of t = nonce_of tx) (list_txs l)"
    assume acc: "tl_Add tx ?b l = ((True, ?old), l')"
    have list: "l = (case mget (tp_pending p) ?a of None \<Rightarrow> newTxList True | Some l \<Rightarrow> l)" using assms(3) by simp
    note r = list_replace [OF inv(1) list acc refl]
    define q where "q = p\<lparr>tp_pending := mput ?a l' (tp_pending p)\<rparr>"
    have q: "tp_all q = tp_all p" by (simp add: q_def)
    have "?old \<noteq> None" using assms(4) ok by (simp add: tl_Overlaps_def tl_ok_def sm_Get_find)
    moreover have "u \<in># held (tp_pending p) + held (tp_queue p) \<and> slot E p u = slot E p tx" if "?old = Some u" for u
      using r(3) [OF that] by (simp add: slot_def)
    ultimately obtain t pl where t: "replace_old E ?old q = Some (q\<lparr>tp_all := t, tp_priced := pl\<rparr>)"
      "keyed (hash_of (pe_crypto E)) (lk_all (lk_Add (pe_crypto E) tx t))" "uniq (slot E p) (mset (map snd (lk_all (lk_Add (pe_crypto E) tx t))))"
      "mset (map snd (lk_all (lk_Add (pe_crypto E) tx t))) + opt_mset ?old = add_mset tx (known p)"
      by (rule_tac pool_add_known [OF assms(1,2) q, of ?old]) (assumption | blast)+
    define q1 where "q1 = all_add E tx (q\<lparr>tp_all := t, tp_priced := pl\<rparr>)"
    define q2 where "q2 = queueTxEvent tx (journalTx E ?a tx q1)"
    have run: "add_pending E ?a tx l p = Some (Inr (?old \<noteq> None), q2\<lparr>tp_beats := mput ?a (pe_now E) (tp_beats q2)\<rparr>)"
      using acc t(1) by (simp add: add_pending_def q_def [symmetric] q1_def [symmetric] q2_def Let_def)
    have "pool_inv E {#} q1"
      by (rule pool_inv_replace [OF assms(1) r(1) inv(2) _ t(2-4)]) (use r(2) in \<open>simp_all add: q1_def all_add_def q_def ac_simps\<close>)
    then show thesis
      by (intro that [OF run]) (use r(5) assms(5) in \<open>simp_all add: q2_def q1_def all_add_def q_def no_empty_mput\<close>)
  qed
qed

lemma make_room_inv:
  assumes "pool_inv E {#} p" "make_room E tx local p = Some (r, p')"
  shows "pool_inv E {#} p' \<and> shrinks p p'"
proof -
  let ?C = "pe_crypto E"
  let ?u = "if local then (False, tp_priced p) else pl_Underpriced ?C (tp_all p) tx (tp_locals p) (tp_priced p)"
  let ?q = "p\<lparr>tp_priced := snd ?u\<rparr>"
  have sh: "shrinks p (p\<lparr>tp_priced := pl\<rparr>)" for pl by (simp add: shrinks_def)
  show ?thesis
  proof (cases "pool_full p \<and> \<not> fst ?u")
    case True
    then obtain dr pl where "remove_all E False dr (p\<lparr>tp_priced := pl\<rparr>) = Some p'"
      using assms(2) by (fastforce simp: make_room_def Let_def bind_eq_Some_conv)
    moreover have "pool_inv E {#} (p\<lparr>tp_priced := pl\<rparr>)" using assms(1) by simp
    ultimately show ?thesis using remove_all_inv [of E "p\<lparr>tp_priced := pl\<rparr>" False dr] shrinks_trans [OF sh] by auto
  next
    case False
    then have "p' = p \<or> p' = ?q" using assms(2) by (auto simp: make_room_def Let_def split: if_splits)
    then show ?thesis using assms(1) sh by auto
  qed
qed

lemma add_queue_inv:
  assumes "pool_inv E {#} p" "lk_Get (hash_of (pe_crypto E) tx) (tp_all p) = None"
    "\<And>t. t \<in> set (txs_at (tp_pending p) (sender_of E p tx)) \<Longrightarrow> nonce_of t \<noteq> nonce_of tx"
  obtains r p' where "add_queue E a tx local p = Some (r, p')" "pool_inv E {#} p'" "tp_pending p' = tp_pending p"
proof -
  obtain r q where q: "enqueueTx E tx p = Some (r, q)" "pool_inv E {#} q" "tp_pending q = tp_pending p"
    by (rule enqueue_unknown [OF assms])
  show thesis
  proof (cases r)
    case (Inl e)
    then show thesis using that [of r q] q by (simp add: add_queue_def)
  next
    case (Inr replaced)
    let ?q = "if local \<and> \<not> as_contains a (tp_locals q) then q\<lparr>tp_locals := as_add a (tp_locals q)\<rparr> else q"
    show thesis by (rule that [of r "journalTx E a tx ?q"]) (use Inr q in \<open>simp_all add: add_queue_def Let_def\<close>)
  qed
qed

lemma pending_overlap_None:
  assumes "pool_inv E X p" "pending_overlap a tx p = None" "t \<in> set (txs_at (tp_pending p) a)"
  shows "nonce_of t \<noteq> nonce_of tx"
proof -
  obtain l where l: "mget (tp_pending p) a = Some l" "t \<in> set (list_txs l)"
    using assms(3) by (cases "mget (tp_pending p) a") (auto simp: txs_at_def)
  have "sm_ok (tl_txs l)" using lists_okD(1) [OF pool_invD(1) [OF assms(1)] l(1)] by (simp add: tl_ok_def)
  then show ?thesis using assms(2) l by (auto simp: pending_overlap_def tl_Overlaps_def sm_Get_find find_None_iff split: if_splits)
qed

lemma tp_add_cases:
  assumes "tp_add E tx local p = Some (r, p')"
  obtains (refused) e where "r = Inl e" "p' = p"
  | (full) e where "make_room E tx local p = Some (Some e, p')"
  | (added) q where "lk_Get (hash_of (pe_crypto E) tx) (tp_all p) = None" "make_room E tx local p = Some (None, q)"
      "(case pending_overlap (sender_of E q tx) tx q of
          Some l \<Rightarrow> add_pending E (sender_of E q tx) tx l q
        | None \<Rightarrow> add_queue E (sender_of E q tx) tx local q) = Some (r, p')"
proof (cases "lk_Get (hash_of (pe_crypto E) tx) (tp_all p) = None")
  case False
  then have "r = Inl ErrAlreadyKnown" "p' = p" using assms by (simp_all add: tp_add_def)
  then show thesis by (rule refused)
next
  case True
  then obtain v where v: "validateTx E tx local p = Some v" using assms by (auto simp: tp_add_def bind_eq_Some_conv)
  show thesis
  proof (cases v)
    case (Some e)
    then have "r = Inl e" "p' = p" using assms True v by (simp_all add: tp_add_def)
    then show thesis by (rule refused)
  next
    case None
    then obtain e q where m: "make_room E tx local p = Some (e, q)" using assms True v by (auto simp: tp_add_def bind_eq_Some_conv)
    show thesis
    proof (cases e)
      case (Some x)
      then have "p' = q" using assms True v None m by (simp add: tp_add_def)
      then show thesis using full m Some by blast
    next
      case n: None
      then show thesis using assms True v None m added [OF True] by (simp add: tp_add_def Let_def)
    qed
  qed
qed

lemma tp_add_inv:
  assumes "pool_inv E {#} p" "no_empty (tp_pending p)" "tp_add E tx local p = Some (r, p')"
  shows "pool_inv E {#} p' \<and> no_empty (tp_pending p')"
  using assms(3)
proof (cases rule: tp_add_cases)
  case refused
  then show ?thesis using assms by simp
next
  case full
  then show ?thesis using make_room_inv [OF assms(1)] assms(2) by (auto simp: shrinks_def)
next
  case (added q)
  let ?a = "sender_of E q tx"
  from make_room_inv [OF assms(1) added(2)]
  have q: "pool_inv E {#} q" "no_empty (tp_pending q)" "lk_Get (hash_of (pe_crypto E) tx) (tp_all q) = None"
    using assms(2) added(1) by (auto simp: shrinks_def)
  show ?thesis
  proof (cases "pending_overlap ?a tx q")
    case None
    obtain r2 q2 where "add_queue E ?a tx local q = Some (r2, q2)" "pool_inv E {#} q2" "tp_pending q2 = tp_pending q"
      by (rule add_queue_inv [OF q(1,3) pending_overlap_None [OF q(1) None]])
    then show ?thesis using added(3) None q(2) by simp
  next
    case (Some l)
    then have l: "mget (tp_pending q) ?a = Some l" "tl_Overlaps tx l"
      by (auto simp: pending_overlap_def split: option.splits if_splits)
    obtain r2 q2 where "add_pending E ?a tx l q = Some (r2, q2)" "pool_inv E {#} q2" "no_empty (tp_pending q2)"
      by (rule add_pending_inv [OF q(1,3) l q(2)])
    then show ?thesis using added(3) Some by simp
  qed
qed

text \<open>A pool that is not full accepts or refuses without a panic, unless deriving the sender panics.\<close>

lemma tp_add_total:
  assumes "pool_inv E {#} p" "no_empty (tp_pending p)" "fst (Sender (pe_crypto E) (tp_signer p) tx) \<noteq> Inl SigPanic" "\<not> pool_full p"
  shows "tp_add E tx local p \<noteq> None"
proof (cases "lk_Get (hash_of (pe_crypto E) tx) (tp_all p)")
  case (Some t)
  then show ?thesis by (simp add: tp_add_def)
next
  case None
  obtain st where "tp_currentState p = Some st" by (rule pool_inv_obtain [OF assms(1)])
  then have "validateTx E tx local p \<noteq> None"
    using assms(3) by (auto simp: validateTx_def Let_def split: sum.splits)
  then obtain v where v: "validateTx E tx local p = Some v" by blast
  let ?a = "sender_of E p tx"
  have "(case pending_overlap ?a tx p of Some l \<Rightarrow> add_pending E ?a tx l p | None \<Rightarrow> add_queue E ?a tx local p) \<noteq> None"
  proof (cases "pending_overlap ?a tx p")
    case n: None
    obtain r q where "add_queue E ?a tx local p = Some (r, q)"
      by (rule add_queue_inv [OF assms(1) None pending_overlap_None [OF assms(1) n]])
    then show ?thesis using n by simp
  next
    case (Some l)
    then have l: "mget (tp_pending p) ?a = Some l" "tl_Overlaps tx l"
      by (auto simp: pending_overlap_def split: option.splits if_splits)
    obtain r q where "add_pending E ?a tx l p = Some (r, q)" by (rule add_pending_inv [OF assms(1) None l assms(2)])
    then show ?thesis using Some by simp
  qed
  then show ?thesis using None v assms(4) by (cases v) (simp_all add: tp_add_def make_room_def Let_def)
qed

lemma addTxsLocked_inv:
  assumes "pool_inv E {#} p" "no_empty (tp_pending p)" "addTxsLocked E txs local p = Some (r, p')"
  shows "pool_inv E {#} p' \<and> no_empty (tp_pending p')"
proof -
  have "pool_inv E {#} p' \<and> no_empty (tp_pending p')"
    if "addTxsLocked_loop E local txs dirty p = Some (r, p')" "pool_inv E {#} p" "no_empty (tp_pending p)" for dirty r p
    using that
  proof (induction txs arbitrary: dirty p r)
    case (Cons tx txs)
    then obtain a x where "tp_add E tx local p = Some (a, x)"
      "\<exists>dirty r. addTxsLocked_loop E local txs dirty x = Some (r, p')" by (fastforce simp: bind_eq_Some_conv)
    then show ?case using Cons.IH tp_add_inv [OF Cons.prems(2,3)] by metis
  qed simp
  then show ?thesis using assms by (simp add: addTxsLocked_def)
qed

lemma addTxs_inv:
  assumes "pool_inv E {#} p" "no_empty (tp_pending p)" "addTxs E txs local p = Some (r, p')"
  shows "pool_inv E {#} p' \<and> no_empty (tp_pending p')"
proof -
  have "p' = p \<or> (\<exists>news r. addTxsLocked E news local p = Some (r, p'))"
    using assms(3) by (fastforce simp: addTxs_def bind_eq_Some_conv Let_def split: if_splits)
  then show ?thesis using addTxsLocked_inv [OF assms(1,2)] assms(1,2) by metis
qed

section \<open>Reorganisations\<close>

lemma tp_reset_inv:
  assumes "pool_inv E {#} p" "no_empty (tp_pending p)" "tp_reset E old new p = Some p'"
  shows "pool_inv E {#} p' \<and> no_empty (tp_pending p')"
proof -
  obtain txs where txs: "reinject E old new = Some txs" using assms(3) by (auto simp: tp_reset_def bind_eq_Some_conv)
  let ?root = "hd_Root (case new of None \<Rightarrow> bk_header (pe_CurrentBlock E) | Some h \<Rightarrow> h)"
  show ?thesis
  proof (cases "txs = None \<or> pe_StateAt E ?root = None")
    case True
    then have "p' = p" using assms(3) txs by (cases txs) (auto simp: tp_reset_def Let_def)
    then show ?thesis using assms by simp
  next
    case False
    then obtain l st where "txs = Some l" "pe_StateAt E ?root = Some st" by auto
    then obtain r where "addTxsLocked E l False (p\<lparr>tp_currentState := Some st, tp_pendingNonces := Some (newTxNoncer st)\<rparr>) = Some (r, p')"
      using assms(3) txs by (auto simp: tp_reset_def Let_def)
    from addTxsLocked_inv [OF _ _ this] show ?thesis using assms(1,2) by simp
  qed
qed

lemma drop_events_inv:
  "pool_inv E {#} p \<Longrightarrow> \<exists>ev p'. drop_events E events p = Some (ev, p') \<and> pool_inv E {#} p' \<and> tp_pending p' = tp_pending p"
proof (induction events arbitrary: p)
  case (Cons e es)
  obtain n where n: "tp_pendingNonces p = Some n" by (rule pool_inv_obtain [OF Cons.prems])
  show ?case using Cons.IH [OF pool_inv_nonces [OF Cons.prems], of "snd (nn_get E (fst e) n)"] n by (auto simp: Let_def)
qed simp

lemma tl_LastElement_some:
  assumes "tl_ok l" "list_txs l \<noteq> []"
  shows "fst (tl_LastElement l) = Some (last (list_txs l))" "tl_ok (snd (tl_LastElement l))"
    "list_txs (snd (tl_LastElement l)) = list_txs l" "tl_strict (snd (tl_LastElement l)) = tl_strict l"
  using tl_Flatten_correct [OF assms(1)] assms(2)
  by (simp_all add: tl_LastElement_def sm_LastElement_def tl_Flatten_def sm_Flatten_def Let_def)

lemma bump_nonces_inv:
  assumes "pool_inv E {#} p" "no_empty (tp_pending p)" "\<forall>a \<in> set addrs. mget (tp_pending p) a \<noteq> None"
  shows "\<exists>p'. foreach bump_nonce addrs p = Some p' \<and> pool_inv E {#} p' \<and> no_empty (tp_pending p')"
  using assms
proof (induction addrs arbitrary: p)
  case (Cons a addrs)
  obtain l where l: "mget (tp_pending p) a = Some l" using Cons.prems(3) by auto
  obtain n where n: "tp_pendingNonces p = Some n" by (rule pool_inv_obtain [OF Cons.prems(1)])
  have ne: "list_txs l \<noteq> []" using Cons.prems(2) l by (auto simp: no_empty_def)
  note le = tl_LastElement_some [OF lists_okD(1) [OF pool_invD(1) [OF Cons.prems(1)] l] ne]
  define q where "q = put_pending a (snd (tl_LastElement l)) p\<lparr>tp_pendingNonces := Some (nn_set a (tx_Nonce (last (list_txs l)) + 1) n)\<rparr>"
  have "pool_inv E {#} (put_pending a (snd (tl_LastElement l)) p)"
    using put_pending_inv [OF Cons.prems(1) l le(2,4), of "{#}"] le(3) by simp
  then have "pool_inv E {#} q" by (simp add: q_def)
  moreover have "list_txs (snd (tl_LastElement l)) \<noteq> []" unfolding le(3) by (rule ne)
  from no_empty_mput [OF Cons.prems(2) this] have "no_empty (tp_pending q)" by (simp add: q_def)
  moreover have "\<forall>a \<in> set addrs. mget (tp_pending q) a \<noteq> None" using Cons.prems(3) by (simp add: q_def)
  moreover have "bump_nonce a p = Some q" using l n le(1) by (simp add: bump_nonce_def q_def Let_def)
  ultimately show ?case using Cons.IH by simp
qed simp

text \<open>Everything \<open>runReorg\<close> does after a reset returns, and keeps the invariant.\<close>

lemma after_reset_inv:
  assumes "pool_inv E {#} p" "no_empty (tp_pending p)" "prque_ok E"
  obtains q p1 p2 p3 p4 where "promoteExecutables E addrs p = Some q"
    "(if demote then demoteUnexecutables E (snd q) else Some (snd q)) = Some p1" "truncatePending E p1 = Some p2"
    "truncateQueue E p2 = Some p3" "foreach bump_nonce (map fst (tp_pending p3)) p3 = Some p4"
    "pool_inv E {#} p4" "no_empty (tp_pending p4)"
proof -
  obtain txs q where q: "promoteExecutables E addrs p = Some (txs, q)" "pool_inv E {#} q" "no_empty (tp_pending q)"
    by (rule promoteExecutables_inv [OF assms(1,2)])
  obtain p1 where p1: "(if demote then demoteUnexecutables E q else Some q) = Some p1" "pool_inv E {#} p1" "no_empty (tp_pending p1)"
  proof (cases demote)
    case True
    then show thesis using demoteUnexecutables_inv [OF q(2,3)] that by metis
  next
    case False
    then show thesis using q that by simp
  qed
  obtain p2 where p2: "truncatePending E p1 = Some p2" "pool_inv E {#} p2" "no_empty (tp_pending p2)"
    by (rule truncatePending_inv [OF p1(2,3) assms(3)])
  obtain p3 where p3: "truncateQueue E p2 = Some p3" "pool_inv E {#} p3" "tp_pending p3 = tp_pending p2"
    by (rule truncateQueue_inv [OF p2(2)])
  have "\<forall>a \<in> set (map fst (tp_pending p3)). mget (tp_pending p3) a \<noteq> None" by (auto simp: mget_None_iff)
  from bump_nonces_inv [OF p3(2) _ this] p2(3) p3(3) obtain p4 where p4: "foreach bump_nonce (map fst (tp_pending p3)) p3 = Some p4"
    "pool_inv E {#} p4" "no_empty (tp_pending p4)" by auto
  show thesis by (rule that [of "(txs, q)", OF q(1) _ p2(1) p3(1) p4]) (simp only: p1(1) snd_conv)
qed

lemma runReorg_inv:
  assumes "pool_inv E {#} p" "no_empty (tp_pending p)" "prque_ok E"
  shows "runReorg E reset dirty events p = None \<longleftrightarrow> (\<exists>heads. reset = Some heads \<and> tp_reset E (fst heads) (snd heads) p = None)"
    "runReorg E reset dirty events p = Some (ev, p') \<Longrightarrow> pool_inv E {#} p' \<and> no_empty (tp_pending p')"
proof -
  let ?start = "case reset of None \<Rightarrow> Some (events, p)
    | Some heads \<Rightarrow> do { p \<leftarrow> tp_reset E (fst heads) (snd heads) p; drop_events E events p }"
  have start: "(?start = None \<longleftrightarrow> (\<exists>heads. reset = Some heads \<and> tp_reset E (fst heads) (snd heads) p = None)) \<and>
      (\<forall>a. ?start = Some a \<longrightarrow> pool_inv E {#} (snd a) \<and> no_empty (tp_pending (snd a)))"
  proof (cases reset)
    case (Some heads)
    have "\<exists>ev q'. drop_events E events q = Some (ev, q') \<and> pool_inv E {#} q' \<and> no_empty (tp_pending q')"
      if "tp_reset E (fst heads) (snd heads) p = Some q" for q
      using tp_reset_inv [OF assms(1,2) that] drop_events_inv [of E q events] by auto
    then show ?thesis using Some by (cases "tp_reset E (fst heads) (snd heads) p") fastforce+
  qed (use assms in auto)
  have rest: "\<exists>r. runReorg E reset dirty events p = Some r \<and> pool_inv E {#} (snd r) \<and> no_empty (tp_pending (snd r))"
    if a: "?start = Some a" for a
  proof -
    let ?addrs = "case reset of Some _ \<Rightarrow> map fst (tp_queue (snd a)) | None \<Rightarrow> (case dirty of None \<Rightarrow> [] | Some d \<Rightarrow> fst (as_flatten d))"
    from start a have "pool_inv E {#} (snd a)" "no_empty (tp_pending (snd a))" by blast+
    from after_reset_inv [OF this assms(3), of ?addrs "reset \<noteq> None"] obtain q p1 p2 p3 p4 where
      r: "promoteExecutables E ?addrs (snd a) = Some q" "(if reset \<noteq> None then demoteUnexecutables E (snd q) else Some (snd q)) = Some p1"
      "truncatePending E p1 = Some p2" "truncateQueue E p2 = Some p3" "foreach bump_nonce (map fst (tp_pending p3)) p3 = Some p4"
      "pool_inv E {#} p4" "no_empty (tp_pending p4)" .
    show ?thesis unfolding runReorg_def Let_def a bind.bind_lunit r(1-5) using r(6,7) by simp
  qed
  show "runReorg E reset dirty events p = None \<longleftrightarrow> (\<exists>heads. reset = Some heads \<and> tp_reset E (fst heads) (snd heads) p = None)"
  proof (cases ?start)
    case None
    then show ?thesis using start unfolding runReorg_def None by simp
  next
    case (Some a)
    then show ?thesis using start rest [OF Some] by auto
  qed
  show "pool_inv E {#} p' \<and> no_empty (tp_pending p')" if "runReorg E reset dirty events p = Some (ev, p')"
  proof (cases ?start)
    case None
    then show ?thesis using that unfolding runReorg_def None by simp
  next
    case (Some a)
    then show ?thesis using rest [OF Some] that by auto
  qed
qed

end
