(* ===== verification/Raw_Db.thy ===== *)
theory Raw_Db
  imports Block_Types
begin

text \<open>
  The chain database: \<open>core/rawdb/schema.go\<close> and the accessors of \<open>core/rawdb\<close>.

  The key-value store is a map from byte strings to byte strings; its iterators run through the keys
  in lexicographic order. Accessors write to a store or to a batch: they are the list of operations
  they issue, and \<open>db_write\<close> applies such a list. A write that fails ends the process
  (\<open>log.Crit\<close>), so a write that returns has been applied. The decoders of RLP and JSON and the
  store of frozen blocks are fields of \<open>codec\<close>.
\<close>

section \<open>The store\<close>

type_synonym kvdb = "(bytes, bytes) gomap"

datatype db_op = Put bytes bytes | Delete bytes

fun db_apply :: "db_op \<Rightarrow> kvdb \<Rightarrow> kvdb" where
  "db_apply (Put k v) db = mput k v db"
| "db_apply (Delete k) db = mdel k db"

definition db_write :: "db_op list \<Rightarrow> kvdb \<Rightarrow> kvdb" where
  "db_write ops db = fold db_apply ops db"

text \<open>\<open>data, _ := db.Get(key)\<close>: no data when the key is missing.\<close>

definition db_data :: "kvdb \<Rightarrow> bytes \<Rightarrow> bytes" where
  "db_data db k = (case mget db k of None \<Rightarrow> [] | Some v \<Rightarrow> v)"

definition NewIterator :: "bytes \<Rightarrow> bytes \<Rightarrow> kvdb \<Rightarrow> (bytes \<times> bytes) list" where
  "NewIterator prefix start db =
     sort_key fst (filter (\<lambda>(k, v). take (length prefix) k = prefix \<and> prefix @ start \<le> k) db)"

definition BytesToHash :: "bytes \<Rightarrow> hash" where
  "BytesToHash b = be_word (if 32 < length b then drop (length b - 32) b else b)"

record 'g codec =
  cd_crypto :: crypto_lib
  cd_header :: "bytes \<Rightarrow> Header option"
  cd_body :: "bytes \<Rightarrow> Transaction list option"
  cd_uint :: "bytes \<Rightarrow> u64 option"
  cd_legacy :: "bytes \<Rightarrow> u64 option"
  cd_config :: "'g \<Rightarrow> bytes"
  cd_parse_config :: "bytes \<Rightarrow> 'g option"
  cd_ancient_body :: "u64 \<Rightarrow> bytes"

section \<open>The schema\<close>

definition str :: "string \<Rightarrow> bytes" where
  "str s = map of_char s"

definition headHeaderKey :: bytes where "headHeaderKey = str ''LastHeader''"
definition headBlockKey :: bytes where "headBlockKey = str ''LastBlock''"
definition headFastBlockKey :: bytes where "headFastBlockKey = str ''LastFast''"
definition lastPivotKey :: bytes where "lastPivotKey = str ''LastPivot''"
definition snapshotRootKey :: bytes where "snapshotRootKey = str ''SnapshotRoot''"
definition snapshotJournalKey :: bytes where "snapshotJournalKey = str ''SnapshotJournal''"
definition snapshotGeneratorKey :: bytes where "snapshotGeneratorKey = str ''SnapshotGenerator''"
definition snapshotRecoveryKey :: bytes where "snapshotRecoveryKey = str ''SnapshotRecovery''"
definition txIndexTailKey :: bytes where "txIndexTailKey = str ''TransactionIndexTail''"
definition fastTxLookupLimitKey :: bytes where "fastTxLookupLimitKey = str ''FastTransactionLookupLimit''"
definition shardIDKey :: bytes where "shardIDKey = str ''shardID''"
definition lastCommitsKey :: bytes where "lastCommitsKey = str ''LastCommits''"

definition encodeBlockNumber :: "u64 \<Rightarrow> bytes" where
  "encodeBlockNumber number = be_bytes 8 number"

definition headerKeyPrefix :: "u64 \<Rightarrow> bytes" where
  "headerKeyPrefix number = str ''h'' @ encodeBlockNumber number"

definition headerKey :: "u64 \<Rightarrow> hash \<Rightarrow> bytes" where
  "headerKey number h = str ''h'' @ encodeBlockNumber number @ be_bytes 32 h"

definition headerHashKey :: "u64 \<Rightarrow> bytes" where
  "headerHashKey number = str ''h'' @ encodeBlockNumber number @ str ''n''"

definition headerNumberKey :: "hash \<Rightarrow> bytes" where
  "headerNumberKey h = str ''H'' @ be_bytes 32 h"

definition blockBodyKey :: "u64 \<Rightarrow> hash \<Rightarrow> bytes" where
  "blockBodyKey number h = str ''b'' @ encodeBlockNumber number @ be_bytes 32 h"

definition txLookupKey :: "hash \<Rightarrow> bytes" where
  "txLookupKey h = str ''l'' @ be_bytes 32 h"

definition accountSnapshotKey :: "hash \<Rightarrow> bytes" where
  "accountSnapshotKey h = str ''a'' @ be_bytes 32 h"

definition storageSnapshotKey :: "hash \<Rightarrow> hash \<Rightarrow> bytes" where
  "storageSnapshotKey accountHash storageHash = str ''o'' @ be_bytes 32 accountHash @ be_bytes 32 storageHash"

definition storageSnapshotsKey :: "hash \<Rightarrow> bytes" where
  "storageSnapshotsKey accountHash = str ''o'' @ be_bytes 32 accountHash"

definition preimageKey :: "hash \<Rightarrow> bytes" where
  "preimageKey h = str ''secure-key-'' @ be_bytes 32 h"

definition codeKey :: "hash \<Rightarrow> bytes" where
  "codeKey h = str ''c'' @ be_bytes 32 h"

definition configKey :: "hash \<Rightarrow> bytes" where
  "configKey h = str ''ethereum-config-'' @ be_bytes 32 h"

definition blockCommitSigKey :: "u64 \<Rightarrow> bytes" where
  "blockCommitSigKey number = str ''block-sig-'' @ encodeBlockNumber number"

section \<open>Accessors of the chain\<close>

definition read_hash :: "bytes \<Rightarrow> kvdb \<Rightarrow> hash" where
  "read_hash key db = (let data = db_data db key in if length data = 0 then 0 else BytesToHash data)"

definition read_number :: "bytes \<Rightarrow> kvdb \<Rightarrow> u64 option" where
  "read_number key db = (let data = db_data db key in if length data \<noteq> 8 then None else Some (be_word data))"

definition ReadCanonicalHash :: "kvdb \<Rightarrow> u64 \<Rightarrow> hash" where
  "ReadCanonicalHash db number = read_hash (headerHashKey number) db"

definition WriteCanonicalHash :: "hash \<Rightarrow> u64 \<Rightarrow> db_op list" where
  "WriteCanonicalHash h number = [Put (headerHashKey number) (be_bytes 32 h)]"

definition DeleteCanonicalHash :: "u64 \<Rightarrow> db_op list" where
  "DeleteCanonicalHash number = [Delete (headerHashKey number)]"

definition ReadAllHashes :: "kvdb \<Rightarrow> u64 \<Rightarrow> hash list" where
  "ReadAllHashes db number =
     (let prefix = headerKeyPrefix number
      in map (\<lambda>(k, v). BytesToHash (drop (length k - 32) k))
           (filter (\<lambda>(k, v). length k = length prefix + 32) (NewIterator prefix [] db)))"

text \<open>The loop over the iterator: entries collected so far, in order.\<close>

fun canonical_loop :: "bytes \<Rightarrow> int \<Rightarrow> (bytes \<times> bytes) list \<Rightarrow> (u64 \<times> hash) list \<Rightarrow> (u64 \<times> hash) list" where
  "canonical_loop bound limit [] acc = acc"
| "canonical_loop bound limit ((key, v) # rest) acc =
     (if bound \<le> key then acc
      else if length key = length (str ''h'') + 8 + 1 \<and> drop (length key - 1) key = str ''n''
      then let acc = acc @ [(be_word (take 8 (drop (length (str ''h'')) key)), BytesToHash v)]
           in if limit \<le> int (length acc) then acc else canonical_loop bound limit rest acc
      else canonical_loop bound limit rest acc)"

definition ReadAllCanonicalHashes :: "kvdb \<Rightarrow> u64 \<Rightarrow> u64 \<Rightarrow> int \<Rightarrow> (u64 \<times> hash) list" where
  "ReadAllCanonicalHashes db from to limit =
     (if limit = 0 then []
      else canonical_loop (headerHashKey to) limit (NewIterator [] (headerHashKey from) db) [])"

definition ReadHeaderNumber :: "kvdb \<Rightarrow> hash \<Rightarrow> u64 option" where
  "ReadHeaderNumber db h = read_number (headerNumberKey h) db"

definition WriteHeaderNumber :: "hash \<Rightarrow> u64 \<Rightarrow> db_op list" where
  "WriteHeaderNumber h number = [Put (headerNumberKey h) (encodeBlockNumber number)]"

definition DeleteHeaderNumber :: "hash \<Rightarrow> db_op list" where
  "DeleteHeaderNumber h = [Delete (headerNumberKey h)]"

definition ReadHeadHeaderHash :: "kvdb \<Rightarrow> hash" where
  "ReadHeadHeaderHash db = read_hash headHeaderKey db"

definition WriteHeadHeaderHash :: "hash \<Rightarrow> db_op list" where
  "WriteHeadHeaderHash h = [Put headHeaderKey (be_bytes 32 h)]"

definition ReadHeadBlockHash :: "kvdb \<Rightarrow> hash" where
  "ReadHeadBlockHash db = read_hash headBlockKey db"

definition WriteHeadBlockHash :: "hash \<Rightarrow> db_op list" where
  "WriteHeadBlockHash h = [Put headBlockKey (be_bytes 32 h)]"

definition ReadHeadFastBlockHash :: "kvdb \<Rightarrow> hash" where
  "ReadHeadFastBlockHash db = read_hash headFastBlockKey db"

definition WriteHeadFastBlockHash :: "hash \<Rightarrow> db_op list" where
  "WriteHeadFastBlockHash h = [Put headFastBlockKey (be_bytes 32 h)]"

definition ReadLastPivotNumber :: "'g codec \<Rightarrow> kvdb \<Rightarrow> u64 option" where
  "ReadLastPivotNumber C db = (let data = db_data db lastPivotKey in if length data = 0 then None else cd_uint C data)"

definition WriteLastPivotNumber :: "'g codec \<Rightarrow> u64 \<Rightarrow> db_op list" where
  "WriteLastPivotNumber C pivot = [Put lastPivotKey (cr_rlp (cd_crypto C) (RUint pivot))]"

definition ReadTxIndexTail :: "kvdb \<Rightarrow> u64 option" where
  "ReadTxIndexTail db = read_number txIndexTailKey db"

definition WriteTxIndexTail :: "u64 \<Rightarrow> db_op list" where
  "WriteTxIndexTail number = [Put txIndexTailKey (encodeBlockNumber number)]"

definition ReadFastTxLookupLimit :: "kvdb \<Rightarrow> u64 option" where
  "ReadFastTxLookupLimit db = read_number fastTxLookupLimitKey db"

definition WriteFastTxLookupLimit :: "u64 \<Rightarrow> db_op list" where
  "WriteFastTxLookupLimit number = [Put fastTxLookupLimitKey (encodeBlockNumber number)]"

definition ReadHeaderRLP :: "kvdb \<Rightarrow> hash \<Rightarrow> u64 \<Rightarrow> bytes" where
  "ReadHeaderRLP db h number = db_data db (headerKey number h)"

definition HasHeader :: "kvdb \<Rightarrow> hash \<Rightarrow> u64 \<Rightarrow> bool" where
  "HasHeader db h number \<longleftrightarrow> mget db (headerKey number h) \<noteq> None"

definition ReadHeader :: "'g codec \<Rightarrow> kvdb \<Rightarrow> hash \<Rightarrow> u64 \<Rightarrow> Header option" where
  "ReadHeader C db h number =
     (let data = ReadHeaderRLP db h number in if length data = 0 then None else cd_header C data)"

definition WriteHeader :: "'g codec \<Rightarrow> Header \<Rightarrow> db_op list" where
  "WriteHeader C header =
     (let h = Header_Hash (cd_crypto C) header; number = big_Uint64 (hd_Number header)
      in WriteHeaderNumber h number @ [Put (headerKey number h) (cr_rlp (cd_crypto C) (Header_rlp header))])"

definition deleteHeaderWithoutNumber :: "hash \<Rightarrow> u64 \<Rightarrow> db_op list" where
  "deleteHeaderWithoutNumber h number = [Delete (headerKey number h)]"

definition DeleteHeader :: "hash \<Rightarrow> u64 \<Rightarrow> db_op list" where
  "DeleteHeader h number = deleteHeaderWithoutNumber h number @ [Delete (headerNumberKey h)]"

definition Body_rlp :: "Transaction list \<Rightarrow> rlp" where
  "Body_rlp txs = RList [RList (map (\<lambda>tx. txdata_rlp (tx_data tx)) txs)]"

definition ReadBodyRLP :: "kvdb \<Rightarrow> hash \<Rightarrow> u64 \<Rightarrow> bytes" where
  "ReadBodyRLP db h number = db_data db (blockBodyKey number h)"

definition ReadCanonicalBodyRLP :: "'g codec \<Rightarrow> kvdb \<Rightarrow> u64 \<Rightarrow> bytes" where
  "ReadCanonicalBodyRLP C db number =
     (let data = cd_ancient_body C number
      in if length data = 0
         then let data = db_data db (blockBodyKey number (ReadCanonicalHash db number))
              in if length data = 0 then cd_ancient_body C number else data
         else data)"

definition WriteBodyRLP :: "hash \<Rightarrow> u64 \<Rightarrow> bytes \<Rightarrow> db_op list" where
  "WriteBodyRLP h number data = [Put (blockBodyKey number h) data]"

definition HasBody :: "kvdb \<Rightarrow> hash \<Rightarrow> u64 \<Rightarrow> bool" where
  "HasBody db h number \<longleftrightarrow> mget db (blockBodyKey number h) \<noteq> None"

definition ReadBody :: "'g codec \<Rightarrow> kvdb \<Rightarrow> hash \<Rightarrow> u64 \<Rightarrow> Transaction list option" where
  "ReadBody C db h number = (let data = ReadBodyRLP db h number in if length data = 0 then None else cd_body C data)"

definition WriteBody :: "'g codec \<Rightarrow> hash \<Rightarrow> u64 \<Rightarrow> Transaction list \<Rightarrow> db_op list" where
  "WriteBody C h number body = WriteBodyRLP h number (cr_rlp (cd_crypto C) (Body_rlp body))"

definition DeleteBody :: "hash \<Rightarrow> u64 \<Rightarrow> db_op list" where
  "DeleteBody h number = [Delete (blockBodyKey number h)]"

definition ReadBlock :: "'g codec \<Rightarrow> kvdb \<Rightarrow> hash \<Rightarrow> u64 \<Rightarrow> Block option" where
  "ReadBlock C db h number =
     (case ReadHeader C db h number of
        None \<Rightarrow> None
      | Some header \<Rightarrow>
          (case ReadBody C db h number of
             None \<Rightarrow> None
           | Some txs \<Rightarrow> Some (WithBody txs (NewBlockWithHeader header))))"

definition WriteBlock :: "'g codec \<Rightarrow> Block \<Rightarrow> db_op list" where
  "WriteBlock C b =
     WriteBody C (fst (Block_Hash (cd_crypto C) b)) (Block_NumberU64 b) (bk_transactions b) @ WriteHeader C (bk_header b)"

definition DeleteBlock :: "hash \<Rightarrow> u64 \<Rightarrow> db_op list" where
  "DeleteBlock h number = DeleteHeader h number @ DeleteBody h number"

section \<open>Accessors of the transaction index\<close>

definition ReadTxLookupEntry :: "'g codec \<Rightarrow> kvdb \<Rightarrow> hash \<Rightarrow> u64 option" where
  "ReadTxLookupEntry C db h =
     (let data = db_data db (txLookupKey h)
      in if length data = 0 then None
         else if length data < 32 then Some (big_Uint64 (bytes_big data))
         else if length data = 32 then ReadHeaderNumber db (BytesToHash data)
         else cd_legacy C data)"

definition writeTxLookupEntry :: "hash \<Rightarrow> bytes \<Rightarrow> db_op list" where
  "writeTxLookupEntry h numberBytes = [Put (txLookupKey h) numberBytes]"

definition WriteTxLookupEntries :: "u64 \<Rightarrow> hash list \<Rightarrow> db_op list" where
  "WriteTxLookupEntries number hashes = concat (map (\<lambda>h. writeTxLookupEntry h (big_bytes (uint number))) hashes)"

definition WriteTxLookupEntriesByBlock :: "'g codec \<Rightarrow> Block \<Rightarrow> db_op list" where
  "WriteTxLookupEntriesByBlock C b =
     concat (map (\<lambda>tx. writeTxLookupEntry (fst (tx_Hash (cd_crypto C) tx)) (big_bytes (hd_Number (bk_header b)))) (bk_transactions b))"

definition DeleteTxLookupEntry :: "hash \<Rightarrow> db_op list" where
  "DeleteTxLookupEntry h = [Delete (txLookupKey h)]"

definition DeleteTxLookupEntries :: "hash list \<Rightarrow> db_op list" where
  "DeleteTxLookupEntries hashes = concat (map DeleteTxLookupEntry hashes)"

fun find_tx :: "crypto_lib \<Rightarrow> hash \<Rightarrow> nat \<Rightarrow> Transaction list \<Rightarrow> (Transaction \<times> nat) option" where
  "find_tx C h i [] = None"
| "find_tx C h i (tx # txs) = (if fst (tx_Hash C tx) = h then Some (tx, i) else find_tx C h (Suc i) txs)"

definition ReadTransaction :: "'g codec \<Rightarrow> kvdb \<Rightarrow> hash \<Rightarrow> (Transaction \<times> hash \<times> u64 \<times> u64) option" where
  "ReadTransaction C db h =
     (case ReadTxLookupEntry C db h of
        None \<Rightarrow> None
      | Some blockNumber \<Rightarrow>
          let blockHash = ReadCanonicalHash db blockNumber
          in if blockHash = 0 then None
             else (case ReadBody C db blockHash blockNumber of
                     None \<Rightarrow> None
                   | Some body \<Rightarrow>
                       (case find_tx (cd_crypto C) h 0 body of
                          None \<Rightarrow> None
                        | Some (tx, i) \<Rightarrow> Some (tx, blockHash, blockNumber, word_of_nat i))))"

section \<open>Accessors of the metadata, the snapshot and the state\<close>

definition ReadChainConfig :: "'g codec \<Rightarrow> kvdb \<Rightarrow> hash \<Rightarrow> 'g option" where
  "ReadChainConfig C db h = (let data = db_data db (configKey h) in if length data = 0 then None else cd_parse_config C data)"

definition WriteChainConfig :: "'g codec \<Rightarrow> hash \<Rightarrow> 'g option \<Rightarrow> db_op list" where
  "WriteChainConfig C h cfg = (case cfg of None \<Rightarrow> [] | Some c \<Rightarrow> [Put (configKey h) (cd_config C c)])"

definition WriteShardID :: "u64 \<Rightarrow> db_op list" where
  "WriteShardID shardID = [Put shardIDKey (be_bytes 8 shardID)]"

definition ReadShardID :: "kvdb \<Rightarrow> u64 option" where
  "ReadShardID db = read_number shardIDKey db"

definition ReadSnapshotRoot :: "kvdb \<Rightarrow> hash" where
  "ReadSnapshotRoot db = (let data = db_data db snapshotRootKey in if length data \<noteq> 32 then 0 else BytesToHash data)"

definition WriteSnapshotRoot :: "hash \<Rightarrow> db_op list" where
  "WriteSnapshotRoot root = [Put snapshotRootKey (be_bytes 32 root)]"

definition DeleteSnapshotRoot :: "db_op list" where
  "DeleteSnapshotRoot = [Delete snapshotRootKey]"

definition ReadAccountSnapshot :: "kvdb \<Rightarrow> hash \<Rightarrow> bytes" where
  "ReadAccountSnapshot db h = db_data db (accountSnapshotKey h)"

definition WriteAccountSnapshot :: "hash \<Rightarrow> bytes \<Rightarrow> db_op list" where
  "WriteAccountSnapshot h entry = [Put (accountSnapshotKey h) entry]"

definition DeleteAccountSnapshot :: "hash \<Rightarrow> db_op list" where
  "DeleteAccountSnapshot h = [Delete (accountSnapshotKey h)]"

definition ReadStorageSnapshot :: "kvdb \<Rightarrow> hash \<Rightarrow> hash \<Rightarrow> bytes" where
  "ReadStorageSnapshot db accountHash storageHash = db_data db (storageSnapshotKey accountHash storageHash)"

definition WriteStorageSnapshot :: "hash \<Rightarrow> hash \<Rightarrow> bytes \<Rightarrow> db_op list" where
  "WriteStorageSnapshot accountHash storageHash entry = [Put (storageSnapshotKey accountHash storageHash) entry]"

definition DeleteStorageSnapshot :: "hash \<Rightarrow> hash \<Rightarrow> db_op list" where
  "DeleteStorageSnapshot accountHash storageHash = [Delete (storageSnapshotKey accountHash storageHash)]"

definition IterateStorageSnapshots :: "kvdb \<Rightarrow> hash \<Rightarrow> (bytes \<times> bytes) list" where
  "IterateStorageSnapshots db accountHash = NewIterator (storageSnapshotsKey accountHash) [] db"

definition ReadSnapshotJournal :: "kvdb \<Rightarrow> bytes" where
  "ReadSnapshotJournal db = db_data db snapshotJournalKey"

definition WriteSnapshotJournal :: "bytes \<Rightarrow> db_op list" where
  "WriteSnapshotJournal journal = [Put snapshotJournalKey journal]"

definition DeleteSnapshotJournal :: "db_op list" where
  "DeleteSnapshotJournal = [Delete snapshotJournalKey]"

definition ReadSnapshotGenerator :: "kvdb \<Rightarrow> bytes" where
  "ReadSnapshotGenerator db = db_data db snapshotGeneratorKey"

definition WriteSnapshotGenerator :: "bytes \<Rightarrow> db_op list" where
  "WriteSnapshotGenerator generator = [Put snapshotGeneratorKey generator]"

definition DeleteSnapshotGenerator :: "db_op list" where
  "DeleteSnapshotGenerator = [Delete snapshotGeneratorKey]"

definition DeleteSnapshotRecoveryNumber :: "db_op list" where
  "DeleteSnapshotRecoveryNumber = [Delete snapshotRecoveryKey]"

definition ReadSnapshotRecoveryNumber :: "kvdb \<Rightarrow> u64 option" where
  "ReadSnapshotRecoveryNumber db = read_number snapshotRecoveryKey db"

definition WriteSnapshotRecoveryNumber :: "u64 \<Rightarrow> db_op list" where
  "WriteSnapshotRecoveryNumber number = [Put snapshotRecoveryKey (be_bytes 8 number)]"

definition ReadPreimage :: "kvdb \<Rightarrow> hash \<Rightarrow> bytes" where
  "ReadPreimage db h = db_data db (preimageKey h)"

definition WritePreimages :: "(hash, bytes) gomap \<Rightarrow> db_op list" where
  "WritePreimages preimages = map (\<lambda>(h, preimage). Put (preimageKey h) preimage) preimages"

definition ReadCodeWithPrefix :: "kvdb \<Rightarrow> hash \<Rightarrow> bytes" where
  "ReadCodeWithPrefix db h = db_data db (codeKey h)"

definition ReadCode :: "kvdb \<Rightarrow> hash \<Rightarrow> bytes" where
  "ReadCode db h =
     (let data = db_data db (be_bytes 32 h) in if length data \<noteq> 0 then data else ReadCodeWithPrefix db h)"

definition WriteCode :: "hash \<Rightarrow> bytes \<Rightarrow> db_op list" where
  "WriteCode h code = [Put (codeKey h) code]"

definition DeleteCode :: "hash \<Rightarrow> db_op list" where
  "DeleteCode h = [Delete (codeKey h)]"

definition ReadTrieNode :: "kvdb \<Rightarrow> hash \<Rightarrow> bytes" where
  "ReadTrieNode db h = db_data db (be_bytes 32 h)"

definition WriteTrieNode :: "hash \<Rightarrow> bytes \<Rightarrow> db_op list" where
  "WriteTrieNode h node = [Put (be_bytes 32 h) node]"

definition DeleteTrieNode :: "hash \<Rightarrow> db_op list" where
  "DeleteTrieNode h = [Delete (be_bytes 32 h)]"

text \<open>The commit signature of a block, with the fallback to the key of older versions.\<close>

definition ReadBlockCommitSig :: "kvdb \<Rightarrow> u64 \<Rightarrow> bytes option" where
  "ReadBlockCommitSig db blockNum =
     (case mget db (blockCommitSigKey blockNum) of Some data \<Rightarrow> Some data | None \<Rightarrow> mget db lastCommitsKey)"

definition WriteBlockCommitSig :: "u64 \<Rightarrow> bytes \<Rightarrow> db_op list" where
  "WriteBlockCommitSig blockNum sigAndBitmap = [Put (blockCommitSigKey blockNum) sigAndBitmap]"

end
