(* ===== verification/Raw_Db_Props.thy ===== *)
theory Raw_Db_Props
  imports Raw_Db
begin

text \<open>
  The schema of the chain database keeps its records apart: \<open>db_key\<close> names them, \<open>key_bytes\<close> is their
  encoding by \<open>schema.go\<close>, and it is injective. Every accessor is then a read or a write of one
  record, and the laws of the store carry over to the records.
\<close>

section \<open>The records of the schema\<close>

datatype db_key =
    HeadHeaderK | HeadBlockK | HeadFastK | LastPivotK
  | SnapshotRootK | SnapshotJournalK | SnapshotGeneratorK | SnapshotRecoveryK
  | TxIndexTailK | FastTxLookupLimitK | ShardIDK | LastCommitsK
  | HeaderK u64 hash | CanonicalK u64 | NumberK hash | BodyK u64 hash | TxLookupK hash
  | AccountK hash | StorageK hash hash | PreimageK hash | CodeK hash | ConfigK hash
  | CommitSigK u64 | TrieNodeK hash

fun key_bytes :: "db_key \<Rightarrow> bytes" where
  "key_bytes HeadHeaderK = headHeaderKey"
| "key_bytes HeadBlockK = headBlockKey"
| "key_bytes HeadFastK = headFastBlockKey"
| "key_bytes LastPivotK = lastPivotKey"
| "key_bytes SnapshotRootK = snapshotRootKey"
| "key_bytes SnapshotJournalK = snapshotJournalKey"
| "key_bytes SnapshotGeneratorK = snapshotGeneratorKey"
| "key_bytes SnapshotRecoveryK = snapshotRecoveryKey"
| "key_bytes TxIndexTailK = txIndexTailKey"
| "key_bytes FastTxLookupLimitK = fastTxLookupLimitKey"
| "key_bytes ShardIDK = shardIDKey"
| "key_bytes LastCommitsK = lastCommitsKey"
| "key_bytes (HeaderK n h) = headerKey n h"
| "key_bytes (CanonicalK n) = headerHashKey n"
| "key_bytes (NumberK h) = headerNumberKey h"
| "key_bytes (BodyK n h) = blockBodyKey n h"
| "key_bytes (TxLookupK h) = txLookupKey h"
| "key_bytes (AccountK h) = accountSnapshotKey h"
| "key_bytes (StorageK a h) = storageSnapshotKey a h"
| "key_bytes (PreimageK h) = preimageKey h"
| "key_bytes (CodeK h) = codeKey h"
| "key_bytes (ConfigK h) = configKey h"
| "key_bytes (CommitSigK n) = blockCommitSigKey n"
| "key_bytes (TrieNodeK h) = be_bytes 32 h"

text \<open>Reading a key back: the lengths of the keys differ, or else their first bytes.\<close>

definition num_at :: "nat \<Rightarrow> bytes \<Rightarrow> u64" where
  "num_at i k = be_word (take 8 (drop i k))"

definition hash_at :: "nat \<Rightarrow> bytes \<Rightarrow> hash" where
  "hash_at i k = be_word (take 32 (drop i k))"

definition parse_key :: "bytes \<Rightarrow> db_key option" where
  "parse_key k =
     (if length k = 41 then Some (if hd k = hd (str ''h'') then HeaderK (num_at 1 k) (hash_at 9 k) else BodyK (num_at 1 k) (hash_at 9 k))
      else if length k = 33
      then map_of [(hd (str ''H''), NumberK (hash_at 1 k)), (hd (str ''l''), TxLookupK (hash_at 1 k)),
                   (hd (str ''a''), AccountK (hash_at 1 k)), (hd (str ''c''), CodeK (hash_at 1 k))] (hd k)
      else if length k = 32 then Some (TrieNodeK (hash_at 0 k))
      else if length k = 65 then Some (StorageK (hash_at 1 k) (hash_at 33 k))
      else if length k = 43 then Some (PreimageK (hash_at 11 k))
      else if length k = 48 then Some (ConfigK (hash_at 16 k))
      else if length k = 18 then Some (CommitSigK (num_at 10 k))
      else if length k = 10 \<and> hd k = hd (str ''h'') then Some (CanonicalK (num_at 1 k))
      else map_of [(headHeaderKey, HeadHeaderK), (headBlockKey, HeadBlockK), (headFastBlockKey, HeadFastK), (lastPivotKey, LastPivotK),
                   (snapshotRootKey, SnapshotRootK), (snapshotJournalKey, SnapshotJournalK), (snapshotGeneratorKey, SnapshotGeneratorK),
                   (snapshotRecoveryKey, SnapshotRecoveryK), (txIndexTailKey, TxIndexTailK), (fastTxLookupLimitKey, FastTxLookupLimitK),
                   (shardIDKey, ShardIDK), (lastCommitsKey, LastCommitsK)] k)"

lemma length_str [simp]: "length (str s) = length s"
  by (simp add: str_def)

lemma str_Nil_iff [simp]: "str s = [] \<longleftrightarrow> s = []"
  by (simp add: str_def)

lemma str_hd: "hd (str (c # s) @ k) = of_char c"
  by (simp add: str_def)

lemma byte_of_char_inject [simp]: "(of_char c :: u8) = of_char d \<longleftrightarrow> c = d"
proof
  have unat: "unat (of_char a :: u8) = of_char a" for a
  proof -
    have "unat (word_of_nat n :: u8) = n" if "n < 256" for n using that by (simp add: unat_of_nat)
    from this [OF nat_of_char_less_256] have "unat (word_of_nat (of_char a) :: u8) = of_char a" .
    then show ?thesis by (simp only: of_nat_of_char)
  qed
  show "c = d" if "(of_char c :: u8) = of_char d"
    using unat [of c] unat [of d] that by (intro of_char_eqI [where ?'a = nat]) metis
qed simp

lemma str_inject [simp]: "str s = str t \<longleftrightarrow> s = t"
  unfolding str_def by (rule inj_map_eq_map) (auto intro!: injI)

lemma num_at_be_bytes [simp]: "length p = i \<Longrightarrow> num_at i (p @ be_bytes 8 n @ r) = n"
  by (simp add: num_at_def)

lemma hash_at_be_bytes [simp]: "length p = i \<Longrightarrow> hash_at i (p @ be_bytes 32 h @ r) = h"
  by (simp add: hash_at_def)

lemma hash_at_end [simp]:
  "length p = i \<Longrightarrow> hash_at i (p @ be_bytes 32 h) = h" "hash_at 0 (be_bytes 32 h) = h"
  "length p = i \<Longrightarrow> num_at i (p @ be_bytes 8 n) = n"
  "length p + length q = i \<Longrightarrow> hash_at i (p @ q @ be_bytes 32 h) = h"
  by (simp_all add: hash_at_def num_at_def)

lemmas schema_defs = headHeaderKey_def headBlockKey_def headFastBlockKey_def lastPivotKey_def snapshotRootKey_def snapshotJournalKey_def
  snapshotGeneratorKey_def snapshotRecoveryKey_def txIndexTailKey_def fastTxLookupLimitKey_def shardIDKey_def lastCommitsKey_def
  headerKey_def headerHashKey_def headerNumberKey_def blockBodyKey_def txLookupKey_def accountSnapshotKey_def storageSnapshotKey_def
  preimageKey_def codeKey_def configKey_def blockCommitSigKey_def encodeBlockNumber_def

lemma hd_str: "hd (str (c # s)) = of_char c" "hd (str (c # s) @ r) = of_char c"
  by (simp_all add: str_def)

lemma parse_key_bytes: "parse_key (key_bytes k) = Some k"
  by (cases k) (simp_all add: parse_key_def schema_defs hd_str)

lemma key_bytes_inject [simp]: "key_bytes a = key_bytes b \<longleftrightarrow> a = b"
  by (metis parse_key_bytes option.inject)

section \<open>The store as a map from records\<close>

text \<open>
  What the accessors need of a store of records: a write is read back and leaves the other records.
\<close>

locale record_store =
  fixes get :: "'d \<Rightarrow> 'k \<Rightarrow> 'v option" and put :: "'k \<Rightarrow> 'v \<Rightarrow> 'd \<Rightarrow> 'd" and del :: "'k \<Rightarrow> 'd \<Rightarrow> 'd"
  assumes get_put: "get (put k v d) = (get d)(k \<mapsto> v)" and get_del: "get (del k d) = (get d)(k := None)"
begin

lemma get_puts:
  "get (fold (\<lambda>(k, v). put k v) kvs d) k = (case map_of (rev kvs) k of None \<Rightarrow> get d k | Some v \<Rightarrow> Some v)"
proof (induction kvs arbitrary: d)
  case (Cons kv kvs)
  then show ?case by (cases kv) (auto simp: get_put map_add_def split: option.splits)
qed simp

lemma get_dels: "get (fold del ks d) k = (if k \<in> set ks then None else get d k)"
  by (induction ks arbitrary: d) (auto simp: get_del)

end

definition look :: "kvdb \<Rightarrow> db_key \<Rightarrow> bytes option" where
  "look db k = mget db (key_bytes k)"

lemma look_mput [simp]: "look (mput (key_bytes k) v db) = (look db)(k \<mapsto> v)"
  by (auto simp: look_def fun_eq_iff)

lemma look_mdel [simp]: "look (mdel (key_bytes k) db) = (look db)(k := None)"
  by (auto simp: look_def fun_eq_iff)

interpretation records: record_store look "\<lambda>k. mput (key_bytes k)" "\<lambda>k. mdel (key_bytes k)"
  by unfold_locales simp_all

lemma db_write_simps [simp]:
  "db_write [] db = db" "db_write (Put k v # ops) db = db_write ops (mput k v db)" "db_write (Delete k # ops) db = db_write ops (mdel k db)"
  "db_write (ops @ ops') db = db_write ops' (db_write ops db)"
  by (simp_all add: db_write_def)

lemma gomap_ok_db_write [simp]: "gomap_ok db \<Longrightarrow> gomap_ok (db_write ops db)"
proof (induction ops arbitrary: db)
  case (Cons x ops)
  then show ?case by (cases x) simp_all
qed simp

text \<open>The keys of the schema as encoded records.\<close>

lemmas schema = key_bytes.simps(1-23) [symmetric]

lemmas write_defs = WriteCanonicalHash_def DeleteCanonicalHash_def WriteHeaderNumber_def DeleteHeaderNumber_def WriteHeadHeaderHash_def
  WriteHeadBlockHash_def WriteHeadFastBlockHash_def WriteLastPivotNumber_def WriteTxIndexTail_def WriteHeader_def deleteHeaderWithoutNumber_def DeleteHeader_def
  WriteBodyRLP_def WriteBody_def DeleteBody_def WriteBlock_def DeleteBlock_def writeTxLookupEntry_def DeleteTxLookupEntry_def WriteChainConfig_def
  WriteShardID_def WriteSnapshotRecoveryNumber_def WriteBlockCommitSig_def

text \<open>What every write of the chain does to the records.\<close>

lemma look_writes [simp]:
  "look (db_write (WriteCanonicalHash h n) db) = (look db)(CanonicalK n \<mapsto> be_bytes 32 h)"
  "look (db_write (DeleteCanonicalHash n) db) = (look db)(CanonicalK n := None)"
  "look (db_write (WriteHeaderNumber h n) db) = (look db)(NumberK h \<mapsto> be_bytes 8 n)"
  "look (db_write (DeleteHeaderNumber h) db) = (look db)(NumberK h := None)"
  "look (db_write (WriteHeadHeaderHash h) db) = (look db)(HeadHeaderK \<mapsto> be_bytes 32 h)"
  "look (db_write (WriteHeadBlockHash h) db) = (look db)(HeadBlockK \<mapsto> be_bytes 32 h)"
  "look (db_write (WriteHeadFastBlockHash h) db) = (look db)(HeadFastK \<mapsto> be_bytes 32 h)"
  "look (db_write (WriteTxIndexTail n) db) = (look db)(TxIndexTailK \<mapsto> be_bytes 8 n)"
  "look (db_write (deleteHeaderWithoutNumber h n) db) = (look db)(HeaderK n h := None)"
  "look (db_write (DeleteHeader h n) db) = (look db)(HeaderK n h := None, NumberK h := None)"
  "look (db_write (WriteBodyRLP h n d) db) = (look db)(BodyK n h \<mapsto> d)"
  "look (db_write (DeleteBody h n) db) = (look db)(BodyK n h := None)"
  "look (db_write (writeTxLookupEntry h d) db) = (look db)(TxLookupK h \<mapsto> d)"
  "look (db_write (DeleteTxLookupEntry h) db) = (look db)(TxLookupK h := None)"
  by (simp_all add: write_defs schema encodeBlockNumber_def [symmetric] del: key_bytes.simps)

definition hash_record :: "bytes option \<Rightarrow> hash" where
  "hash_record r = (case r of None \<Rightarrow> 0 | Some data \<Rightarrow> if data = [] then 0 else BytesToHash data)"

definition number_record :: "bytes option \<Rightarrow> u64 option" where
  "number_record r = (case r of None \<Rightarrow> None | Some data \<Rightarrow> if length data = 8 then Some (be_word data) else None)"

lemma hash_record_simps [simp]: "hash_record None = 0" "hash_record (Some (be_bytes 32 h)) = h"
proof -
  have "be_bytes 32 h \<noteq> []" using length_be_bytes [of 32 h] by (metis list.size(3) zero_neq_numeral)
  then show "hash_record (Some (be_bytes 32 h)) = h" by (simp add: hash_record_def BytesToHash_def)
qed (simp add: hash_record_def)

lemma number_record_simps [simp]: "number_record None = None" "number_record (Some (be_bytes 8 n)) = Some n"
  by (simp_all add: number_record_def)

lemma read_hash_look: "read_hash (key_bytes k) db = hash_record (look db k)"
  by (simp add: read_hash_def db_data_def look_def hash_record_def Let_def split: option.splits)

lemma read_number_look: "read_number (key_bytes k) db = number_record (look db k)"
  by (simp add: read_number_def db_data_def look_def number_record_def Let_def split: option.splits)

lemma db_data_look: "db_data db (key_bytes k) = (case look db k of None \<Rightarrow> [] | Some d \<Rightarrow> d)"
  by (simp add: db_data_def look_def)

text \<open>Every read of the chain is a read of one record.\<close>

lemma reads:
  "ReadCanonicalHash db n = hash_record (look db (CanonicalK n))"
  "ReadHeaderNumber db h = number_record (look db (NumberK h))"
  "ReadHeadHeaderHash db = hash_record (look db HeadHeaderK)"
  "ReadHeadBlockHash db = hash_record (look db HeadBlockK)"
  "ReadHeadFastBlockHash db = hash_record (look db HeadFastK)"
  "ReadTxIndexTail db = number_record (look db TxIndexTailK)"
  "HasHeader db h n \<longleftrightarrow> look db (HeaderK n h) \<noteq> None"
  "HasBody db h n \<longleftrightarrow> look db (BodyK n h) \<noteq> None"
  "ReadHeader C db h n = (case look db (HeaderK n h) of None \<Rightarrow> None | Some d \<Rightarrow> if d = [] then None else cd_header C d)"
  "ReadBody C db h n = (case look db (BodyK n h) of None \<Rightarrow> None | Some d \<Rightarrow> if d = [] then None else cd_body C d)"
  by (simp_all add: ReadCanonicalHash_def ReadHeaderNumber_def ReadHeadHeaderHash_def ReadHeadBlockHash_def ReadHeadFastBlockHash_def
      ReadTxIndexTail_def HasHeader_def HasBody_def ReadHeader_def ReadHeaderRLP_def ReadBody_def ReadBodyRLP_def Let_def
      schema read_hash_look read_number_look db_data_look del: key_bytes.simps split: option.splits)
    (simp_all add: look_def)

end
