(* ===== verification/Raw_Db_Order.thy ===== *)
theory Raw_Db_Order
  imports Raw_Db_Props
begin

text \<open>
  Iterating over the chain database: the byte strings of block numbers are ordered like the numbers, so
  the iterators return the canonical hashes of a range and the headers of a number exactly.
\<close>

section \<open>Keys in lexicographic order\<close>

lemma byte_less_256: "unat (b :: u8) < 256"
  using unsigned_less [of b, where 'a = nat] by simp

lemma bytes_big_bound: "bytes_big bs < 256 ^ length bs"
proof (induction bs rule: rev_induct)
  case (snoc b bs)
  moreover have "int (unat b) < 256" using byte_less_256 [of b] by linarith
  ultimately have "256 * bytes_big bs + int (unat b) < 256 * 256 ^ length bs" by linarith
  then show ?case unfolding bytes_big_snoc by simp
qed (simp add: bytes_big_def)

lemma bytes_big_Cons: "bytes_big (b # bs) = int (unat b) * 256 ^ length bs + bytes_big bs"
proof (induction bs rule: rev_induct)
  case (snoc c bs)
  have "bytes_big (b # bs @ [c]) = 256 * bytes_big (b # bs) + int (unat c)"
    using bytes_big_snoc [of "b # bs" c] by simp
  then show ?case using snoc by (simp add: bytes_big_snoc algebra_simps)
qed (simp add: bytes_big_def)

text \<open>Byte strings of one length are ordered like the numbers they encode.\<close>

lemma bytes_less_iff: "length xs = length ys \<Longrightarrow> xs < ys \<longleftrightarrow> bytes_big xs < bytes_big ys"
proof (induction xs ys rule: list_induct2)
  case (Cons x xs y ys)
  let ?B = "256 ^ length ys :: int"
  have bound: "0 \<le> bytes_big xs" "bytes_big xs < ?B" "0 \<le> bytes_big ys" "bytes_big ys < ?B"
    using bytes_big_bound [of xs] bytes_big_bound [of ys] Cons.hyps by simp_all
  have big: "bytes_big (x # xs) = int (unat x) * ?B + bytes_big xs" "bytes_big (y # ys) = int (unat y) * ?B + bytes_big ys"
    using Cons.hyps by (simp_all add: bytes_big_Cons)
  have lt: "a * ?B + u < b * ?B + v" if "a < b" "u < ?B" "0 \<le> v" for a b u v :: int
  proof -
    have "(a + 1) * ?B \<le> b * ?B" using that by (intro mult_right_mono) auto
    then show ?thesis using that by (simp add: distrib_right)
  qed
  consider "x < y" | "x = y" | "y < x" by (rule linorder_cases)
  then show ?case
  proof cases
    case 1
    then show ?thesis using lt [of "uint x" "uint y" "bytes_big xs" "bytes_big ys"] bound by (simp add: big word_less_def)
  next
    case 2
    then show ?thesis using Cons.IH unfolding big by simp
  next
    case 3
    then have "bytes_big (y # ys) < bytes_big (x # xs)"
      using lt [of "uint y" "uint x" "bytes_big ys" "bytes_big xs"] bound by (simp add: big word_less_def)
    moreover have "\<not> x # xs < y # ys" using 3 by auto
    ultimately show ?thesis by simp
  qed
qed simp

lemma be_bytes_snoc: "be_bytes (Suc n) w = be_bytes n (drop_bit 8 w) @ [ucast w]"
  by (simp add: be_bytes_def le_bytes_Suc)

lemma bytes_big_be_bytes:
  fixes w :: "'a::len word"
  assumes "8 \<le> LENGTH('a)" "uint w < 256 ^ n"
  shows "bytes_big (be_bytes n w) = uint w"
  using assms(2)
proof (induction n arbitrary: w)
  case 0
  then have "uint w < 1" by simp
  then have "uint w = 0" using uint_ge_0 [of w] by linarith
  then show ?case by (simp add: be_bytes_def le_bytes_def bytes_big_def)
next
  case (Suc n)
  have d: "uint (drop_bit 8 w) = uint w div 256" by (simp only: unsigned_drop_bit_eq) (simp add: drop_bit_eq_div take_bit_int_eq_self)
  then have "bytes_big (be_bytes n (drop_bit 8 w)) = uint w div 256" using Suc by (subst Suc.IH) auto
  moreover have "int (unat (ucast w :: u8)) = uint w mod 256"
    using assms(1) by (simp add: unsigned_ucast_eq take_bit_eq_mod zmod_int)
  ultimately show ?case by (simp add: be_bytes_snoc bytes_big_snoc)
qed

lemma bytes_big_u64 [simp]: "bytes_big (be_bytes 8 (n :: u64)) = uint n"
  using unsigned_less [of n, where 'a = int] by (intro bytes_big_be_bytes) simp_all

lemma bytes_big_eq_iff: "length xs = length ys \<Longrightarrow> bytes_big xs = bytes_big ys \<longleftrightarrow> xs = ys"
  using bytes_less_iff [of xs ys] bytes_less_iff [of ys xs] by (metis less_irrefl linorder_cases)

lemma eight_bytes:
  assumes "length bs = 8"
  obtains n :: u64 where "bs = be_bytes 8 n"
proof
  have "bytes_big bs < 2 ^ 64" using bytes_big_bound [of bs] assms by simp
  then have "uint (word_of_int (bytes_big bs) :: u64) = bytes_big bs" by (simp add: take_bit_int_eq_self unsigned_of_int)
  then show "bs = be_bytes 8 (word_of_int (bytes_big bs) :: u64)" 
    using assms bytes_big_eq_iff [of bs "be_bytes 8 (word_of_int (bytes_big bs) :: u64)"] by simp
qed

lemma be_bytes_less_iff: "be_bytes 8 (m :: u64) < be_bytes 8 n \<longleftrightarrow> m < n"
  by (simp add: bytes_less_iff word_less_def)

lemma headerHashKey_less [simp]: "headerHashKey m < headerHashKey n \<longleftrightarrow> m < n" "headerHashKey m \<le> headerHashKey n \<longleftrightarrow> m \<le> n"
proof -
  have "a @ r < b @ r \<longleftrightarrow> a < b" if "length a = length b" for a b r :: bytes
    using that by (induction a b rule: list_induct2) auto
  then show less: "headerHashKey m < headerHashKey n \<longleftrightarrow> m < n" for m n
    by (simp add: headerHashKey_def encodeBlockNumber_def list_less_same_prefix be_bytes_less_iff)
  then show "headerHashKey m \<le> headerHashKey n \<longleftrightarrow> m \<le> n" by (meson leD leI)
qed

section \<open>Iterating over the canonical hashes\<close>

lemma strict_sorted_pairs:
  assumes "sorted_wrt (<) (map fst xs)" "sorted_wrt (<) (map fst ys)" "set xs = set (ys :: ('a::linorder \<times> 'b) list)"
  shows "xs = ys"
proof -
  have "map fst xs = map fst ys" using assms by (intro strict_sorted_equal) auto
  moreover have "distinct (map fst xs)" using assms(1) by (simp add: strict_sorted_iff)
  ultimately have "map_of xs = map_of ys" using assms(3) by (metis map_of_inject_set)
  moreover have "zs = map (\<lambda>k. (k, the (map_of zs k))) (map fst zs)" if "distinct (map fst zs)" for zs :: "('a \<times> 'b) list"
    using map_of_is_SomeI [OF that] by (auto simp: map_idI intro!: map_idI [symmetric])
  ultimately show ?thesis using \<open>map fst xs = map fst ys\<close> \<open>distinct (map fst xs)\<close> by metis
qed

lemma distinct_sort_pairs: "distinct (map fst (sort_key f xs)) \<longleftrightarrow> distinct (map fst xs)"
  by (rule mset_eq_imp_distinct_iff) simp

lemma sorted_takeWhile:
  "sorted (map f xs) \<Longrightarrow> takeWhile (\<lambda>x. \<not> b \<le> f x) xs = filter (\<lambda>x. \<not> b \<le> f x) (xs :: 'a list)" for f :: "'a \<Rightarrow> 'b::linorder"
proof (induction xs)
  case (Cons x xs)
  show ?case
  proof (cases "b \<le> f x")
    case True
    then have "filter (\<lambda>x. \<not> b \<le> f x) xs = []" using Cons.prems by (auto simp: filter_empty_conv dest: order_trans)
    then show ?thesis using True by simp
  qed (use Cons in simp)
qed simp

text \<open>The loop collects the entries below the bound, up to the limit.\<close>

definition canonical_entry :: "bytes \<times> bytes \<Rightarrow> bool" where
  "canonical_entry e \<longleftrightarrow> length (fst e) = 10 \<and> drop 9 (fst e) = str ''n''"

definition entry_value :: "bytes \<times> bytes \<Rightarrow> u64 \<times> hash" where
  "entry_value e = (be_word (take 8 (drop 1 (fst e))), BytesToHash (snd e))"

lemma canonical_loop_take:
  assumes "0 < limit" "int (length acc) < limit"
  shows "canonical_loop bound limit xs acc =
    take (nat limit) (acc @ map entry_value (filter canonical_entry (takeWhile (\<lambda>e. \<not> bound \<le> fst e) xs)))"
  using assms
proof (induction xs arbitrary: acc)
  case (Cons e xs)
  obtain k v where e: "e = (k, v)" by fastforce
  let ?R = "map entry_value (filter canonical_entry (takeWhile (\<lambda>e. \<not> bound \<le> fst e) xs))"
  let ?acc = "acc @ [entry_value e]"
  show ?case
  proof (cases "\<not> bound \<le> k \<and> canonical_entry e")
    case True
    then have step: "canonical_loop bound limit (e # xs) acc =
        (if limit \<le> int (length ?acc) then ?acc else canonical_loop bound limit xs ?acc)"
      by (simp add: e canonical_entry_def entry_value_def Let_def)
    have "take (nat limit) (?acc @ ?R) = ?acc" if "limit \<le> int (length ?acc)"
    proof -
      have "length ?acc = nat limit" using that Cons.prems by simp
      then show ?thesis by (metis append_eq_conv_conj)
    qed
    then have "canonical_loop bound limit (e # xs) acc = take (nat limit) (?acc @ ?R)"
      using Cons.IH [of ?acc] Cons.prems(1) unfolding step by simp
    then show ?thesis using True by (simp add: e)
  next
    case False
    then show ?thesis using Cons.IH [of acc] Cons.prems by (auto simp: e canonical_entry_def)
  qed
qed simp

lemma canonical_key_iff:
  assumes "headerHashKey from \<le> k" "k < headerHashKey to"
  shows "length k = 10 \<and> drop 9 k = str ''n'' \<longleftrightarrow> (\<exists>n. from \<le> n \<and> n < to \<and> k = headerHashKey n)"
proof
  assume k: "length k = 10 \<and> drop 9 k = str ''n''"
  define c :: u8 where "c = of_char CHR ''h''"
  have hkey: "headerHashKey n = c # be_bytes 8 n @ str ''n''" for n
    by (simp add: headerHashKey_def encodeBlockNumber_def str_def c_def)
  obtain x r where x: "k = x # r" using k by (cases k) auto
  have "c \<le> x" "x \<le> c" using assms unfolding x hkey by (auto simp del: headerHashKey_less)
  then have "x = c" by simp
  moreover have "drop 8 r = str ''n''" using k x by simp
  then have "r = take 8 r @ str ''n''" by (metis append_take_drop_id)
  moreover obtain n :: u64 where "take 8 r = be_bytes 8 n" by (rule eight_bytes [of "take 8 r"]) (use k x in simp_all)
  ultimately have "k = headerHashKey n" using x hkey [of n] by simp
  then show "\<exists>n. from \<le> n \<and> n < to \<and> k = headerHashKey n" using assms by auto
next
  assume "\<exists>n. from \<le> n \<and> n < to \<and> k = headerHashKey n"
  then show "length k = 10 \<and> drop 9 k = str ''n''" by (elim exE conjE) (simp add: headerHashKey_def encodeBlockNumber_def)
qed

definition canonical_from :: "kvdb \<Rightarrow> u64 \<Rightarrow> u64 \<Rightarrow> u64 list" where
  "canonical_from db from to = filter (\<lambda>n. look db (CanonicalK n) \<noteq> None) (map word_of_nat [unat from..<unat to])"

lemma canonical_from_sorted: "sorted_wrt (<) (canonical_from db from to)"
proof -
  have "unat to < 2 ^ 64" using unsigned_less [of to, where 'a = nat] by simp
  then have "sorted_wrt (\<lambda>i j. (word_of_nat i :: u64) < word_of_nat j) [unat from..<unat to]"
    by (intro sorted_wrt_mono_rel [OF _ sorted_wrt_upt]) (auto simp: word_less_nat_alt unat_of_nat)
  then show ?thesis unfolding canonical_from_def by (intro sorted_wrt_filter) (simp add: sorted_wrt_map)
qed

lemma set_canonical_from: "set (canonical_from db from to) = {n. from \<le> n \<and> n < to \<and> look db (CanonicalK n) \<noteq> None}"
proof -
  have "n \<in> word_of_nat ` {unat from..<unat to} \<longleftrightarrow> from \<le> n \<and> n < to" for n :: u64
  proof
    assume "n \<in> word_of_nat ` {unat from..<unat to}"
    then obtain i where i: "n = word_of_nat i" "unat from \<le> i" "i < unat to" by auto
    then have "unat n = i" using unsigned_less [of to, where 'a = nat] by (simp add: unat_of_nat)
    then show "from \<le> n \<and> n < to" using i by (simp add: word_le_nat_alt word_less_nat_alt)
  next
    assume "from \<le> n \<and> n < to"
    then show "n \<in> word_of_nat ` {unat from..<unat to}"
      by (intro image_eqI [of _ _ "unat n"]) (auto simp: word_le_nat_alt word_less_nat_alt)
  qed
  then show ?thesis by (auto simp: canonical_from_def)
qed

lemma ReadAllCanonicalHashes_exact:
  assumes "gomap_ok db" "0 < limit"
  shows "ReadAllCanonicalHashes db from to limit =
    take (nat limit) (map (\<lambda>n. (n, BytesToHash (the (look db (CanonicalK n))))) (canonical_from db from to))"
proof -
  let ?b = "headerHashKey to" and ?P = "\<lambda>e. canonical_entry e \<and> \<not> headerHashKey to \<le> fst e \<and> headerHashKey from \<le> fst e"
  let ?it = "NewIterator [] (headerHashKey from) db"
  define xs where "xs = sort_key fst (filter ?P db)"
  define ys where "ys = map (\<lambda>n. (headerHashKey n, the (look db (CanonicalK n)))) (canonical_from db from to)"
  have sorted: "sorted (map fst ?it)" by (simp add: NewIterator_def)
  have "filter canonical_entry (filter (\<lambda>e. \<not> ?b \<le> fst e) ?it) = xs"
    unfolding xs_def NewIterator_def filter_sort filter_filter by (rule arg_cong [where f = "sort_key fst"], rule filter_cong) auto
  then have "filter canonical_entry (takeWhile (\<lambda>e. \<not> ?b \<le> fst e) ?it) = xs" by (simp only: sorted_takeWhile [OF sorted])
  then have "ReadAllCanonicalHashes db from to limit = take (nat limit) (map entry_value xs)"
    using assms(2) by (simp add: ReadAllCanonicalHashes_def canonical_loop_take)
  moreover have "xs = ys"
  proof (rule strict_sorted_pairs)
    have "distinct (map fst db)" using assms(1) by (simp add: gomap_ok_def)
    then have "distinct (map fst (filter ?P db))" by (rule distinct_map_filter)
    then have "distinct (map fst xs)" unfolding xs_def distinct_sort_pairs .
    then show "sorted_wrt (<) (map fst xs)" by (simp add: strict_sorted_iff xs_def)
    show "sorted_wrt (<) (map fst ys)" using canonical_from_sorted by (simp add: ys_def sorted_wrt_map comp_def)
    have "(k, v) \<in> set xs \<longleftrightarrow> (k, v) \<in> set ys" for k v
    proof -
      have "(k, v) \<in> set xs \<longleftrightarrow> mget db k = Some v \<and> headerHashKey from \<le> k \<and> k < ?b \<and> length k = 10 \<and> drop 9 k = str ''n''"
        unfolding mget_Some_iff [OF assms(1)] by (auto simp: xs_def canonical_entry_def)
      also have "\<dots> \<longleftrightarrow> mget db k = Some v \<and> (\<exists>n. from \<le> n \<and> n < to \<and> k = headerHashKey n)"
        using canonical_key_iff [of "from" k to] by auto
      also have "\<dots> \<longleftrightarrow> (k, v) \<in> set ys" by (auto simp: ys_def set_canonical_from look_def)
      finally show ?thesis .
    qed
    then show "set xs = set ys" by auto
  qed
  moreover have "map entry_value ys = map (\<lambda>n. (n, BytesToHash (the (look db (CanonicalK n))))) (canonical_from db from to)"
    by (simp add: ys_def entry_value_def headerHashKey_def encodeBlockNumber_def)
  ultimately show ?thesis by simp
qed

lemma thirty_two_bytes:
  assumes "length bs = 32"
  obtains h :: hash where "bs = be_bytes 32 h"
proof
  have "bytes_big bs < 2 ^ 256" using bytes_big_bound [of bs] assms by simp
  then have "uint (word_of_int (bytes_big bs) :: hash) = bytes_big bs" by (simp add: take_bit_int_eq_self unsigned_of_int)
  moreover have "bytes_big (be_bytes 32 (h :: hash)) = uint h" for h
    using unsigned_less [of h, where 'a = int] by (intro bytes_big_be_bytes) simp_all
  ultimately show "bs = be_bytes 32 (word_of_int (bytes_big bs) :: hash)"
    using assms bytes_big_eq_iff [of bs "be_bytes 32 (word_of_int (bytes_big bs) :: hash)"] by simp
qed

lemma header_entry_iff:
  "take 9 k = headerKeyPrefix n \<and> length k = 41 \<longleftrightarrow> (\<exists>h. k = headerKey n h)"
proof
  assume k: "take 9 k = headerKeyPrefix n \<and> length k = 41"
  obtain h :: hash where "drop 9 k = be_bytes 32 h" by (rule thirty_two_bytes [of "drop 9 k"]) (use k in simp)
  then have "k = headerKeyPrefix n @ be_bytes 32 h" using k by (metis append_take_drop_id)
  then show "\<exists>h. k = headerKey n h" by (auto simp: headerKey_def headerKeyPrefix_def)
qed (auto simp: headerKey_def headerKeyPrefix_def encodeBlockNumber_def)

lemma ReadAllHashes_exact:
  assumes "gomap_ok db"
  shows "set (ReadAllHashes db n) = {h. HasHeader db h n}" "distinct (ReadAllHashes db n)"
proof -
  define es where "es = filter (\<lambda>(k, v). length k = length (headerKeyPrefix n) + 32) (NewIterator (headerKeyPrefix n) [] db)"
  have len: "length (headerKeyPrefix n) = 9" by (simp add: headerKeyPrefix_def encodeBlockNumber_def)
  have le: "p \<le> k" if "take (length p) k = p" for p k :: bytes
  proof -
    have "p @ drop (length p) k = k" using that by (metis append_take_drop_id)
    then show ?thesis by (metis append_Nil2 less_imp_le list_less_same_prefix neq_Nil_conv not_le Nil_less_Cons order_refl)
  qed
  have mem: "(k, v) \<in> set es \<longleftrightarrow> mget db k = Some v \<and> (\<exists>h. k = headerKey n h)" for k v
    unfolding header_entry_iff [symmetric] mget_Some_iff [OF assms] using le [of "headerKeyPrefix n" k]
    by (auto simp: es_def NewIterator_def len)
  have read: "ReadAllHashes db n = map (\<lambda>e. BytesToHash (drop (length (fst e) - 32) (fst e))) es"
    by (simp add: ReadAllHashes_def es_def case_prod_beta' Let_def)
  have val: "BytesToHash (drop (length (headerKey n h) - 32) (headerKey n h)) = h" for h
    by (simp add: headerKey_def encodeBlockNumber_def BytesToHash_def)
  have look: "HasHeader db h n \<longleftrightarrow> (\<exists>v. (headerKey n h, v) \<in> set es)" for h
    using mem [of "headerKey n h"] by (auto simp: HasHeader_def)
  show "set (ReadAllHashes db n) = {h. HasHeader db h n}"
  proof (intro equalityI subsetI)
    fix h assume "h \<in> set (ReadAllHashes db n)"
    then obtain k v where "(k, v) \<in> set es" "h = BytesToHash (drop (length k - 32) k)" by (auto simp: read)
    then show "h \<in> {h. HasHeader db h n}" using mem [of k v] val look by auto
  next
    fix h assume "h \<in> {h. HasHeader db h n}"
    then obtain v where "(headerKey n h, v) \<in> set es" using look by auto
    then show "h \<in> set (ReadAllHashes db n)" using val [of h] unfolding read by force
  qed
  have "distinct (map fst db)" using assms by (simp add: gomap_ok_def)
  then have "distinct (map fst (filter (\<lambda>(k, v). take (length (headerKeyPrefix n)) k = headerKeyPrefix n \<and> headerKeyPrefix n @ [] \<le> k) db))"
    by (rule distinct_map_filter)
  then have "distinct (map fst (NewIterator (headerKeyPrefix n) [] db))"
    unfolding NewIterator_def distinct_sort_pairs .
  then have "distinct (map fst es)" unfolding es_def by (rule distinct_map_filter)
  moreover have "inj_on (\<lambda>k. BytesToHash (drop (length k - 32) k)) (set (map fst es))"
  proof (rule inj_onI)
    fix x y assume m: "x \<in> set (map fst es)" "y \<in> set (map fst es)"
      and eq: "BytesToHash (drop (length x - 32) x) = BytesToHash (drop (length y - 32) y)"
    have "\<exists>h. k = headerKey n h" if "k \<in> set (map fst es)" for k using that mem by auto
    with m obtain g h where "x = headerKey n g" "y = headerKey n h" by blast
    then show "x = y" using eq val by simp
  qed
  ultimately have "distinct (map (\<lambda>k. BytesToHash (drop (length k - 32) k)) (map fst es))" using distinct_map by blast
  then show "distinct (ReadAllHashes db n)" by (simp add: read comp_def)
qed

section \<open>Blocks and the transaction index\<close>

lemma bytes_big_nat_bytes: "bytes_big (nat_bytes n) = int n"
proof (induction n rule: nat_bytes.induct)
  case (1 n)
  show ?case
  proof (cases "n = 0")
    case False
    then have "bytes_big (nat_bytes (n div 256)) = int (n div 256)" by (rule 1)
    moreover have "int (unat (word_of_nat n :: u8)) = int (n mod 256)" by (simp add: unat_of_nat)
    ultimately have "bytes_big (nat_bytes n) = 256 * int (n div 256) + int (n mod 256)"
      using False by (subst nat_bytes.simps) (simp only: if_False bytes_big_snoc)
    then show ?thesis by (metis mult_div_mod_eq of_nat_add of_nat_mult of_nat_numeral)
  qed (simp add: nat_bytes.simps bytes_big_def)
qed

lemma nat_bytes_Nil_iff: "nat_bytes n = [] \<longleftrightarrow> n = 0"
  by (subst nat_bytes.simps) simp

lemma big_bytes_u64:
  fixes n :: u64
  shows "big_Uint64 (bytes_big (big_bytes (uint n))) = n" "length (big_bytes (uint n)) < 32" "big_bytes (uint n) = [] \<longleftrightarrow> n = 0"
proof -
  have nat: "nat (uint n) = unat n" by simp
  show "big_Uint64 (bytes_big (big_bytes (uint n))) = n" by (simp add: big_bytes_def bytes_big_nat_bytes big_Uint64_def)
  have "nat (uint n) < 256 ^ 8" using unsigned_less [of n, where 'a = nat] unfolding nat by simp
  from length_nat_bytes_le [OF this] show "length (big_bytes (uint n)) < 32" by (simp add: big_bytes_def)
  show "big_bytes (uint n) = [] \<longleftrightarrow> n = 0"
    by (simp add: big_bytes_def nat_bytes_Nil_iff unat_eq_zero nat)
qed

text \<open>What a lookup entry holds: block zero is stored as no bytes at all, which reads as missing.\<close>

lemma ReadTxLookupEntry_look:
  "look db (TxLookupK h) = Some (big_bytes (uint n)) \<Longrightarrow> ReadTxLookupEntry C db h = (if n = 0 then None else Some n)"
  "look db (TxLookupK h) = None \<Longrightarrow> ReadTxLookupEntry C db h = None"
  using big_bytes_u64 [of n] by (simp_all add: ReadTxLookupEntry_def schema db_data_look Let_def del: key_bytes.simps)

lemma ReadTxLookupEntry_cong:
  "look db (TxLookupK h) = look db' (TxLookupK h) \<Longrightarrow> (\<And>x. look db (NumberK x) = look db' (NumberK x)) \<Longrightarrow>
   ReadTxLookupEntry C db h = ReadTxLookupEntry C db' h"
  by (simp add: ReadTxLookupEntry_def schema db_data_look reads Let_def del: key_bytes.simps)

lemma look_WriteTxLookupEntries:
  "look (db_write (WriteTxLookupEntries n hs) db) k =
     (case k of TxLookupK h \<Rightarrow> if h \<in> set hs then Some (big_bytes (uint n)) else look db k | _ \<Rightarrow> look db k)"
  unfolding WriteTxLookupEntries_def by (induction hs arbitrary: db) (auto split: db_key.splits)

lemma look_DeleteTxLookupEntries:
  "look (db_write (DeleteTxLookupEntries hs) db) k = (case k of TxLookupK h \<Rightarrow> if h \<in> set hs then None else look db k | _ \<Rightarrow> look db k)"
  unfolding DeleteTxLookupEntries_def by (induction hs arbitrary: db) (auto split: db_key.splits)

lemma look_WriteHeader:
  "look (db_write (WriteHeader C header) db) =
     (look db)(NumberK (Header_Hash (cd_crypto C) header) \<mapsto> be_bytes 8 (big_Uint64 (hd_Number header)),
       HeaderK (big_Uint64 (hd_Number header)) (Header_Hash (cd_crypto C) header) \<mapsto> cr_rlp (cd_crypto C) (Header_rlp header))"
  by (simp add: WriteHeader_def Let_def) (simp add: schema del: key_bytes.simps)

lemma look_WriteBlock:
  assumes "block_hash_ok (cd_crypto C) b"
  shows "look (db_write (WriteBlock C b) db) =
    (let h = Header_Hash (cd_crypto C) (bk_header b); n = Block_NumberU64 b
     in (look db)(BodyK n h \<mapsto> cr_rlp (cd_crypto C) (Body_rlp (bk_transactions b)), NumberK h \<mapsto> be_bytes 8 n,
          HeaderK n h \<mapsto> cr_rlp (cd_crypto C) (Header_rlp (bk_header b))))"
  by (simp add: WriteBlock_def look_WriteHeader WriteBody_def Block_Hash_ok [OF assms] Block_NumberU64_def Let_def)

lemma ReadBlock_cong:
  assumes "look db (HeaderK n h) = look db' (HeaderK n h)" "look db (BodyK n h) = look db' (BodyK n h)"
  shows "ReadBlock C db h n = ReadBlock C db' h n"
  unfolding ReadBlock_def reads assms ..

lemma ReadBlock_Some:
  assumes "look db (HeaderK n h) = Some d" "d \<noteq> []" "cd_header C d = Some header" "look db (BodyK n h) = Some e" "e \<noteq> []" "cd_body C e = Some txs"
  shows "ReadBlock C db h n = Some (fresh_block header txs)"
  unfolding ReadBlock_def reads assms by (simp add: assms NewBlockWithHeader_def WithBody_def fresh_block_def)

lemma ReadBlock_None: "look db (HeaderK n h) = None \<Longrightarrow> ReadBlock C db h n = None"
  by (simp add: ReadBlock_def reads)

section \<open>Properties\<close>

text \<open>
  C35: The schema keeps its records apart: the key of a record can be read back, so no write of one
  record of the chain database changes another.
\<close>

theorem schema_keys_distinct:
  "parse_key (key_bytes k) = Some k \<and> (key_bytes a = key_bytes b \<longleftrightarrow> a = b) \<and>
   look (db_write [Put (key_bytes a) v] db) b = (if a = b then Some v else look db b) \<and>
   look (db_write [Delete (key_bytes a)] db) b = (if a = b then None else look db b)"
  by (simp add: parse_key_bytes)


text \<open>
  C38: A lookup entry of a transaction gives the number of its block, deleting it removes it, and other
  entries are unchanged; but the entries of block zero, whose number has no bytes, cannot be found.
\<close>

theorem tx_lookup_exact:
  "ReadTxLookupEntry C (db_write (WriteTxLookupEntries n hs) db) h =
     (if h \<in> set hs then if n = 0 then None else Some n else ReadTxLookupEntry C db h) \<and>
   ReadTxLookupEntry C (db_write (DeleteTxLookupEntries hs) db) h = (if h \<in> set hs then None else ReadTxLookupEntry C db h)"
proof
  show "ReadTxLookupEntry C (db_write (WriteTxLookupEntries n hs) db) h =
      (if h \<in> set hs then if n = 0 then None else Some n else ReadTxLookupEntry C db h)"
  proof (cases "h \<in> set hs")
    case True
    then show ?thesis by (simp add: ReadTxLookupEntry_look(1) look_WriteTxLookupEntries)
  next
    case False
    have "ReadTxLookupEntry C (db_write (WriteTxLookupEntries n hs) db) h = ReadTxLookupEntry C db h"
      by (rule ReadTxLookupEntry_cong) (use False in \<open>simp_all add: look_WriteTxLookupEntries\<close>)
    then show ?thesis using False by simp
  qed
  show "ReadTxLookupEntry C (db_write (DeleteTxLookupEntries hs) db) h = (if h \<in> set hs then None else ReadTxLookupEntry C db h)"
  proof (cases "h \<in> set hs")
    case True
    then show ?thesis by (simp add: ReadTxLookupEntry_look(2) look_DeleteTxLookupEntries)
  next
    case False
    have "ReadTxLookupEntry C (db_write (DeleteTxLookupEntries hs) db) h = ReadTxLookupEntry C db h"
      by (rule ReadTxLookupEntry_cong) (use False in \<open>simp_all add: look_DeleteTxLookupEntries\<close>)
    then show ?thesis using False by simp
  qed
qed

text \<open>
  C37: Reading the canonical hashes of a range from the iterator over the raw keys gives exactly the
  canonical entries from the first number up to, but without, the last one, in increasing order and
  up to the limit; and the headers of a number are found without repetition.
\<close>

theorem canonical_range_exact:
  assumes "gomap_ok db" "0 < limit"
  shows "ReadAllCanonicalHashes db from to limit =
      take (nat limit) (map (\<lambda>n. (n, BytesToHash (the (look db (CanonicalK n)))))
        (filter (\<lambda>n. look db (CanonicalK n) \<noteq> None) (map word_of_nat [unat from..<unat to]))) \<and>
    set (ReadAllHashes db n) = {h. HasHeader db h n} \<and> distinct (ReadAllHashes db n)"
  using ReadAllCanonicalHashes_exact [OF assms] ReadAllHashes_exact [OF assms(1)] by (simp add: canonical_from_def)

definition sample_codec :: "nat codec" where
  "sample_codec =
     \<lparr>cd_crypto = sample_crypto\<lparr>cr_rlp := (\<lambda>x. 1 # sample_rlp x)\<rparr>,
      cd_header = (\<lambda>d. Some \<lparr>hd_ParentHash = 0, hd_Root = 0, hd_TxHash = 0, hd_Number = 3, hd_GasLimit = 0, hd_GasUsed = 0,
        hd_Time = 0, hd_ShardID = 0, hd_LastCommitSignature = [], hd_LastCommitBitmap = []\<rparr>),
      cd_body = (\<lambda>d. Some []), cd_uint = (\<lambda>d. None), cd_legacy = (\<lambda>d. None), cd_config = (\<lambda>n. [word_of_nat n]),
      cd_parse_config = (\<lambda>d. None), cd_ancient_body = (\<lambda>n. [])\<rparr>"

definition sample_stored_block :: Block where
  "sample_stored_block = fresh_block (the (cd_header sample_codec [])) []"


theorem canonical_range_exact_witness:
  "ReadAllCanonicalHashes (db_write (WriteCanonicalHash 7 4 @ WriteCanonicalHash 8 6 @ WriteHeadHeaderHash 8) []) 1 8 5 = [(4, 7), (6, 8)]"
proof -
  let ?db = "db_write (WriteCanonicalHash 7 4 @ WriteCanonicalHash 8 6 @ WriteHeadHeaderHash 8) []"
  have ok: "gomap_ok ?db" by (rule gomap_ok_db_write) simp
  have "look [] k = None" for k by (simp add: look_def)
  then have l: "look ?db (CanonicalK n) = (if n = 6 then Some (be_bytes 32 (8 :: hash)) else if n = 4 then Some (be_bytes 32 (7 :: hash)) else None)" for n
    by simp
  have "filter (\<lambda>n. look ?db (CanonicalK n) \<noteq> None) (map word_of_nat [unat (1 :: u64)..<unat (8 :: u64)]) = [4, 6]"
    unfolding l by code_simp
  with canonical_range_exact [OF ok, of 5 1 8, THEN conjunct1]
  have "ReadAllCanonicalHashes ?db 1 8 5 = take 5 (map (\<lambda>n. (n, BytesToHash (the (look ?db (CanonicalK n))))) [4, 6])" by simp
  then show ?thesis by (simp add: l BytesToHash_def)
qed

end
