(* ===== verification/Tx_Index.thy ===== *)
theory Tx_Index
  imports Raw_Db_Order
begin

text \<open>
  The transaction indexer (\<open>core/rawdb/chain_iterator.go\<close>). One goroutine reads the bodies of a range of
  canonical blocks in order, several others hash their transactions, so the hashes of the blocks
  arrive in any order; a priority queue puts them in order again before they are written or deleted.

  The arrivals are a list of deliveries. The priority queue is a list whose element of highest
  priority is at the index \<open>peek\<close> gives; the sizes of batches are given by \<open>vsize\<close>. Both are outside the
  repository. The hook that the tests pass is left out.
\<close>

section \<open>Starting from frozen blocks\<close>

text \<open>
  \<open>ancient\<close> gives the frozen block hashes. A read that fails ends the process (nothing); splitting the
  writes into batches does not change the store.
\<close>

definition InitDatabaseFromFreezer :: "(nat \<Rightarrow> bytes option) \<Rightarrow> nat option \<Rightarrow> kvdb \<Rightarrow> kvdb option" where
  "InitDatabaseFromFreezer ancient ancients db =
     (case ancients of
        None \<Rightarrow> Some db
      | Some frozen \<Rightarrow>
          if frozen = 0 then Some db
          else map_option (\<lambda>hs. let hashes = map BytesToHash hs; newest = hashes ! (frozen - 1)
                 in db_write (concat (map (\<lambda>i. WriteHeaderNumber (hashes ! i) (word_of_nat i)) [0..<frozen])
                      @ WriteHeadHeaderHash newest @ WriteHeadFastBlockHash newest) db)
               (those (map ancient [0..<frozen])))"

section \<open>Reading the range\<close>

type_synonym blockTxHashes = "u64 \<times> hash list"

function lookup_loop :: "bool \<Rightarrow> u64 \<Rightarrow> u64 \<Rightarrow> u64 list" where
  "lookup_loop down n stop = (if n = stop then [] else n # lookup_loop down (if down then n - 1 else n + 1) stop)"
  by pat_completeness auto
termination
proof (relation "measure (\<lambda>(down, n, stop). unat (if down then n - stop else stop - n))"; clarsimp)
  fix down :: bool and n stop :: u64 assume "n \<noteq> stop"
  then have "n - stop \<noteq> 0" "stop - n \<noteq> 0" by auto
  then show "(down \<longrightarrow> unat (n - 1 - stop) < unat (n - stop)) \<and> (\<not> down \<longrightarrow> unat (stop - (n + 1)) < unat (stop - n))"
    using unat_minus_one [of "n - stop"] unat_minus_one [of "stop - n"] unat_gt_0 [of "n - stop"] unat_gt_0 [of "stop - n"]
    by (auto simp: algebra_simps)
qed

declare lookup_loop.simps [simp del]

text \<open>
  The hashes of one block: \<open>items\<close> are the encodings of its transactions, or nothing when the body
  cannot be decoded; then the goroutine gives up.
\<close>

definition process_block :: "'g codec \<Rightarrow> (bytes \<Rightarrow> bytes list option) \<Rightarrow> kvdb \<Rightarrow> u64 \<Rightarrow> blockTxHashes option" where
  "process_block C items db n =
     (case items (ReadCanonicalBodyRLP C db n) of
        None \<Rightarrow> None
      | Some txs \<Rightarrow> Some (n, map (\<lambda>tx. BytesToHash (cr_Keccak256 (cd_crypto C) tx)) txs))"

definition iterateTransactions ::
  "'g codec \<Rightarrow> (bytes \<Rightarrow> bytes list option) \<Rightarrow> kvdb \<Rightarrow> u64 \<Rightarrow> u64 \<Rightarrow> bool \<Rightarrow> blockTxHashes option list" where
  "iterateTransactions C items db from to reverse =
     (if to = from then []
      else map (process_block C items db) (if reverse then lookup_loop True (to - 1) (from - 1) else lookup_loop False from to))"

section \<open>Putting the deliveries in order\<close>

text \<open>
  The two users of the queue differ in the priority of a block, the number they wait for at a
  position, the position after a block, what they write and when they flush.
\<close>

record drain_code =
  dr_prio :: "u64 \<Rightarrow> int"
  dr_want :: "u64 \<Rightarrow> u64"
  dr_next :: "u64 \<Rightarrow> u64"
  dr_ops :: "u64 \<Rightarrow> hash list \<Rightarrow> db_op list"
  dr_full :: "nat \<Rightarrow> db_op list \<Rightarrow> bool"

record index_state =
  ix_queue :: "(int \<times> blockTxHashes) list"
  ix_pos :: u64
  ix_blocks :: nat
  ix_batch :: "db_op list"
  ix_db :: kvdb

type_synonym prque_top = "(int \<times> blockTxHashes) list \<Rightarrow> nat"

definition take_block :: "drain_code \<Rightarrow> blockTxHashes \<Rightarrow> index_state \<Rightarrow> index_state" where
  "take_block D d s =
     (let pos = dr_next D (fst d); blocks = Suc (ix_blocks s); batch = ix_batch s @ dr_ops D (fst d) (snd d);
          s = s\<lparr>ix_pos := pos, ix_blocks := blocks, ix_batch := batch\<rparr>
      in if dr_full D blocks batch
         then s\<lparr>ix_batch := [], ix_db := db_write (batch @ WriteTxIndexTail pos) (ix_db s)\<rparr>
         else s)"

fun drain :: "nat \<Rightarrow> prque_top \<Rightarrow> drain_code \<Rightarrow> index_state \<Rightarrow> index_state" where
  "drain 0 peek D s = s"
| "drain (Suc fuel) peek D s =
     (if ix_queue s = [] then s
      else let i = peek (ix_queue s); d = ix_queue s ! i
           in if fst d \<noteq> dr_prio D (dr_want D (ix_pos s)) then s
              else drain fuel peek D (take_block D (snd d) (s\<lparr>ix_queue := take i (ix_queue s) @ drop (Suc i) (ix_queue s)\<rparr>)))"

text \<open>Every round of the inner loop pops an element, so the length of the queue is enough fuel.\<close>

definition deliver :: "prque_top \<Rightarrow> drain_code \<Rightarrow> blockTxHashes \<Rightarrow> index_state \<Rightarrow> index_state" where
  "deliver peek D d s =
     (let s = s\<lparr>ix_queue := (dr_prio D (fst d), d) # ix_queue s\<rparr> in drain (length (ix_queue s)) peek D s)"

definition flush_index :: "(db_op list \<Rightarrow> nat) \<Rightarrow> index_state \<Rightarrow> kvdb" where
  "flush_index vsize s =
     (if 0 < vsize (ix_batch s) then db_write (ix_batch s @ WriteTxIndexTail (ix_pos s)) (ix_db s) else ix_db s)"

definition index_start :: "u64 \<Rightarrow> kvdb \<Rightarrow> index_state" where
  "index_start pos db = \<lparr>ix_queue = [], ix_pos = pos, ix_blocks = 0, ix_batch = [], ix_db = db\<rparr>"

text \<open>\<open>ethdb.IdealBatchSize\<close> is the argument \<open>ideal\<close>.\<close>

definition index_code :: "(db_op list \<Rightarrow> nat) \<Rightarrow> nat \<Rightarrow> drain_code" where
  "index_code vsize ideal =
     \<lparr>dr_prio = sint, dr_want = (\<lambda>lastNum. lastNum - 1), dr_next = id, dr_ops = WriteTxLookupEntries,
      dr_full = (\<lambda>blocks batch. ideal < vsize batch)\<rparr>"

definition unindex_code :: drain_code where
  "unindex_code =
     \<lparr>dr_prio = (\<lambda>n. - sint n), dr_want = id, dr_next = (\<lambda>n. n + 1), dr_ops = (\<lambda>n hs. DeleteTxLookupEntries hs),
      dr_full = (\<lambda>blocks batch. blocks mod 1000 = 0)\<rparr>"

definition indexTransactions ::
  "prque_top \<Rightarrow> (db_op list \<Rightarrow> nat) \<Rightarrow> nat \<Rightarrow> u64 \<Rightarrow> u64 \<Rightarrow> blockTxHashes list \<Rightarrow> kvdb \<Rightarrow> kvdb" where
  "indexTransactions peek vsize ideal from to deliveries db =
     (if to \<le> from then db
      else flush_index vsize (fold (deliver peek (index_code vsize ideal)) deliveries (index_start to db)))"

definition unindexTransactions ::
  "prque_top \<Rightarrow> (db_op list \<Rightarrow> nat) \<Rightarrow> u64 \<Rightarrow> u64 \<Rightarrow> blockTxHashes list \<Rightarrow> kvdb \<Rightarrow> kvdb" where
  "unindexTransactions peek vsize from to deliveries db =
     (if to \<le> from then db
      else flush_index vsize (fold (deliver peek unindex_code) deliveries (index_start from db)))"

section \<open>The order of arrival does not matter\<close>

definition prque_top_ok :: "prque_top \<Rightarrow> bool" where
  "prque_top_ok peek \<longleftrightarrow> (\<forall>q. q \<noteq> [] \<longrightarrow> peek q < length q \<and> (\<forall>x \<in> set q. fst x \<le> fst (q ! peek q)))"

text \<open>The size of a batch counts the bytes of the values it puts and at least one for a deletion.\<close>

definition batch_size_ok :: "(db_op list \<Rightarrow> nat) \<Rightarrow> bool" where
  "batch_size_ok vsize \<longleftrightarrow> (\<forall>ops. vsize ops = 0 \<longleftrightarrow> (\<forall>op \<in> set ops. \<exists>k. op = Put k []))"

text \<open>Stores that agree on all records but the tail of the index.\<close>

definition agree :: "kvdb \<Rightarrow> kvdb \<Rightarrow> bool" where
  "agree db db' \<longleftrightarrow> (\<forall>k. k \<noteq> TxIndexTailK \<longrightarrow> look db k = look db' k)"

lemma agree_refl [simp]: "agree db db" and agree_trans: "agree a b \<Longrightarrow> agree b c \<Longrightarrow> agree a c"
  and agree_tail [simp]: "agree (db_write (WriteTxIndexTail n) db) db' = agree db db'"
  by (auto simp: agree_def)

lemma agree_lookup_ops:
  "agree db db' \<Longrightarrow> agree (db_write (WriteTxLookupEntries n hs) db) (db_write (WriteTxLookupEntries n hs) db')"
  "agree db db' \<Longrightarrow> agree (db_write (DeleteTxLookupEntries hs) db) (db_write (DeleteTxLookupEntries hs) db')"
  by (auto simp: agree_def look_WriteTxLookupEntries look_DeleteTxLookupEntries split: db_key.splits)

text \<open>
  A run over the numbers \<open>nums\<close>, in this order: the position after \<open>i\<close> of them, what it waits for there, and
  priorities that fall along the run.
\<close>

definition run_pos :: "drain_code \<Rightarrow> u64 \<Rightarrow> u64 list \<Rightarrow> nat \<Rightarrow> u64" where
  "run_pos D start nums i = (if i = 0 then start else dr_next D (nums ! (i - 1)))"

definition ordered_run :: "drain_code \<Rightarrow> u64 \<Rightarrow> u64 list \<Rightarrow> bool" where
  "ordered_run D start nums \<longleftrightarrow>
     (\<forall>i < length nums. dr_want D (run_pos D start nums i) = nums ! i) \<and>
     sorted_wrt (\<lambda>m n. dr_prio D n < dr_prio D m) nums \<and> inj (dr_prio D) \<and>
     (\<forall>n hs db db'. agree db db' \<longrightarrow> agree (db_write (dr_ops D n hs) db) (db_write (dr_ops D n hs) db'))"

definition run_ops :: "drain_code \<Rightarrow> (u64 \<Rightarrow> hash list) \<Rightarrow> u64 list \<Rightarrow> db_op list" where
  "run_ops D hs nums = concat (map (\<lambda>n. dr_ops D n (hs n)) nums)"

lemma run_ops_simps [simp]: "run_ops D hs [] = []" "run_ops D hs (ns @ ms) = run_ops D hs ns @ run_ops D hs ms"
  "run_ops D hs (n # ns) = dr_ops D n (hs n) @ run_ops D hs ns"
  by (simp_all add: run_ops_def)

lemma agree_run_ops: "ordered_run D start nums \<Longrightarrow> agree db db' \<Longrightarrow> agree (db_write (run_ops D hs ns) db) (db_write (run_ops D hs ns) db')"
  by (induction ns arbitrary: db db') (auto simp: ordered_run_def)

text \<open>
  The invariant after the first \<open>i\<close> numbers were taken and the numbers \<open>A\<close> have arrived: the queue holds
  the others, the store is that of a sequential run over the first \<open>j\<close> numbers with its tail there,
  and the batch holds the operations of the numbers in between.
\<close>

definition durable :: "drain_code \<Rightarrow> u64 \<Rightarrow> u64 list \<Rightarrow> (u64 \<Rightarrow> hash list) \<Rightarrow> kvdb \<Rightarrow> nat \<Rightarrow> db_op list \<Rightarrow> kvdb \<Rightarrow> bool" where
  "durable D start nums hs db i batch cur \<longleftrightarrow>
     (\<exists>j \<le> i. batch = run_ops D hs (drop j (take i nums)) \<and> agree cur (db_write (run_ops D hs (take j nums)) db) \<and>
        (if j = 0 then cur = db else ReadTxIndexTail cur = Some (run_pos D start nums j)))"

definition index_inv ::
  "drain_code \<Rightarrow> u64 \<Rightarrow> u64 list \<Rightarrow> (u64 \<Rightarrow> hash list) \<Rightarrow> kvdb \<Rightarrow> u64 set \<Rightarrow> nat \<Rightarrow> index_state \<Rightarrow> bool" where
  "index_inv D start nums hs db A i s \<longleftrightarrow>
     i \<le> length nums \<and> A \<subseteq> set nums \<and> set (take i nums) \<subseteq> A \<and> ix_pos s = run_pos D start nums i \<and>
     distinct (ix_queue s) \<and> set (ix_queue s) = (\<lambda>n. (dr_prio D n, n, hs n)) ` (A - set (take i nums)) \<and>
     durable D start nums hs db i (ix_batch s) (ix_db s)"

lemma remove_nth: "i < length xs \<Longrightarrow> distinct xs \<Longrightarrow>
  distinct (take i xs @ drop (Suc i) xs) \<and> set (take i xs @ drop (Suc i) xs) = set xs - {xs ! i}"
proof -
  assume i: "i < length xs" and d: "distinct xs"
  have "xs = take i xs @ xs ! i # drop (Suc i) xs" using i by (simp add: id_take_nth_drop)
  then have "distinct (take i xs @ xs ! i # drop (Suc i) xs)" "set xs = set (take i xs @ xs ! i # drop (Suc i) xs)" using d by metis+
  then show ?thesis by auto
qed

lemma take_block_inv:
  assumes "ordered_run D start nums" "index_inv D start nums hs db A i s" "i < length nums" "nums ! i \<in> A"
    "distinct q" "set q = set (ix_queue s) - {(dr_prio D (nums ! i), nums ! i, hs (nums ! i))}"
  shows "index_inv D start nums hs db A (Suc i) (take_block D (nums ! i, hs (nums ! i)) (s\<lparr>ix_queue := q\<rparr>))"
proof -
  obtain j where j: "j \<le> i" "ix_batch s = run_ops D hs (drop j (take i nums))" "agree (ix_db s) (db_write (run_ops D hs (take j nums)) db)"
    "if j = 0 then ix_db s = db else ReadTxIndexTail (ix_db s) = Some (run_pos D start nums j)"
    using assms(2) by (auto simp: index_inv_def durable_def)
  let ?n = "nums ! i"
  have tk: "take (Suc i) nums = take i nums @ [?n]" using assms(3) by (rule take_Suc_conv_app_nth)
  have inj: "dr_prio D m = dr_prio D n \<longleftrightarrow> m = n" for m n using assms(1) by (auto simp: ordered_run_def inj_def)
  have q: "set q = (\<lambda>n. (dr_prio D n, n, hs n)) ` (A - set (take (Suc i) nums))"
    using assms(2,6) by (auto simp: index_inv_def tk inj)
  have batch: "ix_batch s @ dr_ops D ?n (hs ?n) = run_ops D hs (drop j (take (Suc i) nums))" using j assms(3) by (simp add: tk)
  have "take j nums @ drop j (take (Suc i) nums) = take (Suc i) nums" using j(1) by (metis append_take_drop_id le_Suc_eq min.absorb1 take_take)
  then have "db_write (run_ops D hs (take (Suc i) nums)) db =
      db_write (run_ops D hs (drop j (take (Suc i) nums))) (db_write (run_ops D hs (take j nums)) db)"
    by (metis db_write_simps(4) run_ops_simps(2))
  then have "agree (db_write (ix_batch s @ dr_ops D ?n (hs ?n)) (ix_db s)) (db_write (run_ops D hs (take (Suc i) nums)) db)"
    unfolding batch using agree_run_ops [OF assms(1) j(3)] by simp
  then have full: "agree (db_write (ix_batch s @ dr_ops D ?n (hs ?n) @ WriteTxIndexTail (dr_next D ?n)) (ix_db s))
      (db_write (run_ops D hs (take (Suc i) nums)) db)" by simp
  have base: "Suc i \<le> length nums" "A \<subseteq> set nums" "set (take (Suc i) nums) \<subseteq> A" "run_pos D start nums (Suc i) = dr_next D ?n"
    using assms(2-4) by (simp_all add: index_inv_def tk run_pos_def)
  show ?thesis
  proof (cases "dr_full D (Suc (ix_blocks s)) (ix_batch s @ dr_ops D ?n (hs ?n))")
    case True
    have "ReadTxIndexTail (db_write (ix_batch s @ dr_ops D ?n (hs ?n) @ WriteTxIndexTail (dr_next D ?n)) (ix_db s)) = Some (dr_next D ?n)"
      by (simp add: reads)
    then show ?thesis using True q assms(5) base full
      unfolding index_inv_def durable_def take_block_def Let_def by (auto simp del: take_Suc intro!: exI [of _ "Suc i"])
  next
    case False
    then show ?thesis using q assms(5) base j batch
      unfolding index_inv_def durable_def take_block_def Let_def by (auto simp del: take_Suc intro!: exI [of _ j])
  qed
qed

lemma run_prio:
  assumes "ordered_run D start nums" "i < length nums" "n \<in> set nums - set (take i nums)"
  shows "dr_prio D n \<le> dr_prio D (nums ! i)" "dr_prio D n = dr_prio D (nums ! i) \<Longrightarrow> n = nums ! i"
proof -
  have "set nums = set (take i nums) \<union> set (drop i nums)" by (metis append_take_drop_id set_append)
  then have "n \<in> set (drop i nums)" using assms(3) by auto
  then obtain k where k: "k < length (drop i nums)" "n = drop i nums ! k" by (auto simp: in_set_conv_nth)
  then have n: "n = nums ! (i + k)" "i + k < length nums" by simp_all
  have "dr_prio D n < dr_prio D (nums ! i)" if "k \<noteq> 0"
    using assms(1) n that by (auto simp: ordered_run_def sorted_wrt_iff_nth_less)
  then show "dr_prio D n \<le> dr_prio D (nums ! i)" "dr_prio D n = dr_prio D (nums ! i) \<Longrightarrow> n = nums ! i"
    using n by (cases "k = 0"; force)+
qed

lemma run_next_fresh:
  assumes "ordered_run D start nums" "i < length nums"
  shows "nums ! i \<notin> set (take i nums)"
proof
  assume "nums ! i \<in> set (take i nums)"
  then obtain j where "j < i" "nums ! j = nums ! i" using assms(2) by (auto simp: in_set_conv_nth)
  then have "dr_prio D (nums ! i) < dr_prio D (nums ! i)"
    using assms by (metis ordered_run_def sorted_wrt_iff_nth_less)
  then show False by simp
qed

lemma drain_inv:
  assumes run: "ordered_run D start nums" and peek: "prque_top_ok peek"
  shows "index_inv D start nums hs db A i s \<Longrightarrow> length (ix_queue s) \<le> fuel \<Longrightarrow>
    \<exists>i'. index_inv D start nums hs db A i' (drain fuel peek D s) \<and> (i' < length nums \<longrightarrow> nums ! i' \<notin> A)"
proof (induction fuel arbitrary: i s)
  case 0
  then have "A \<subseteq> set (take i nums)" by (auto simp: index_inv_def)
  then show ?case using 0 run_next_fresh [OF run, of i] by (intro exI [of _ i]) auto
next
  case (Suc fuel)
  let ?q = "ix_queue s" and ?k = "peek (ix_queue s)"
  have inv: "A \<subseteq> set nums" "i \<le> length nums" "ix_pos s = run_pos D start nums i" "distinct ?q"
    "set ?q = (\<lambda>n. (dr_prio D n, n, hs n)) ` (A - set (take i nums))"
    using Suc.prems(1) by (auto simp: index_inv_def)
  show ?case
  proof (cases "?q = []")
    case True
    then have "A \<subseteq> set (take i nums)" using inv by auto
    then show ?thesis using Suc.prems(1) True run_next_fresh [OF run, of i] by (intro exI [of _ i]) auto
  next
    case False
    then have k: "?k < length ?q" "\<And>x. x \<in> set ?q \<Longrightarrow> fst x \<le> fst (?q ! ?k)" using peek by (auto simp: prque_top_ok_def)
    then obtain m where m: "?q ! ?k = (dr_prio D m, m, hs m)" "m \<in> A - set (take i nums)" using inv(5) nth_mem [OF k(1)] by auto
    then have "set (take i nums) \<noteq> set nums" using inv(1) by auto
    then have i: "i < length nums" using inv(2) by (metis le_neq_implies_less take_all order_refl)
    have want: "dr_want D (ix_pos s) = nums ! i" using run i inv(3) by (simp add: ordered_run_def)
    note prio = run_prio [OF run i, of m]
    show ?thesis
    proof (cases "dr_prio D m = dr_prio D (nums ! i)")
      case False
      have "nums ! i \<notin> A"
      proof
        assume "nums ! i \<in> A"
        then have "(dr_prio D (nums ! i), nums ! i, hs (nums ! i)) \<in> set ?q" using inv(5) run_next_fresh [OF run i] by auto
        then show False using k(2) m(1) prio(1) m(2) inv(1) False by fastforce
      qed
      then show ?thesis using False m(1) want Suc.prems(1) by (intro exI [of _ i]) (simp add: Let_def)
    next
      case True
      then have mi: "m = nums ! i" using prio(2) m(2) inv(1) by auto
      let ?r = "take ?k ?q @ drop (Suc ?k) ?q"
      let ?s = "take_block D (nums ! i, hs (nums ! i)) (s\<lparr>ix_queue := ?r\<rparr>)"
      have "index_inv D start nums hs db A (Suc i) ?s"
        using take_block_inv [OF run Suc.prems(1) i, of ?r] remove_nth [OF k(1) inv(4)] m mi by simp
      moreover have "length (ix_queue ?s) \<le> fuel" using k(1) Suc.prems(2) by (simp add: take_block_def Let_def)
      moreover have "drain (Suc fuel) peek D s = drain fuel peek D ?s" using \<open>?q \<noteq> []\<close> m(1) mi want by (simp add: Let_def)
      ultimately show ?thesis using Suc.IH [of "Suc i" ?s] by simp
    qed
  qed
qed

lemma deliver_inv:
  assumes "ordered_run D start nums" "prque_top_ok peek" "index_inv D start nums hs db A i s" "n \<in> set nums - A"
  shows "\<exists>i'. index_inv D start nums hs db (insert n A) i' (deliver peek D (n, hs n) s) \<and> (i' < length nums \<longrightarrow> nums ! i' \<notin> insert n A)"
proof -
  let ?s = "s\<lparr>ix_queue := (dr_prio D n, n, hs n) # ix_queue s\<rparr>"
  have "index_inv D start nums hs db (insert n A) i ?s"
  proof -
    have "set (take i nums) \<subseteq> A" using assms(3) by (simp add: index_inv_def)
    then have "n \<notin> set (take i nums)" using assms(4) by auto
    moreover have "(dr_prio D n, n, hs n) \<notin> set (ix_queue s)" using assms(3,4) by (auto simp: index_inv_def)
    moreover have "set (take i nums) \<subseteq> insert n A" using \<open>set (take i nums) \<subseteq> A\<close> by auto
    ultimately show ?thesis using assms(3,4) by (simp add: index_inv_def insert_Diff_if)
  qed
  from drain_inv [OF assms(1,2) this order_refl] show ?thesis by (simp only: deliver_def Let_def fst_conv)
qed

lemma deliveries_inv:
  assumes "ordered_run D start nums" "prque_top_ok peek" "distinct ns" "set ns \<subseteq> set nums"
  shows "\<exists>i. index_inv D start nums hs db (set ns) i (fold (deliver peek D) (map (\<lambda>n. (n, hs n)) ns) (index_start start db)) \<and>
    (i < length nums \<longrightarrow> nums ! i \<notin> set ns)"
  using assms(3,4)
proof (induction ns rule: rev_induct)
  case Nil
  then show ?case by (intro exI [of _ 0]) (auto simp: index_inv_def durable_def index_start_def run_pos_def)
next
  case (snoc n ns)
  then obtain i where "index_inv D start nums hs db (set ns) i (fold (deliver peek D) (map (\<lambda>n. (n, hs n)) ns) (index_start start db))" by auto
  from deliver_inv [OF assms(1,2) this, of n] snoc.prems show ?case by auto
qed

section \<open>Indexing and unindexing\<close>

definition number_range :: "u64 \<Rightarrow> u64 \<Rightarrow> u64 list" where
  "number_range from to = map word_of_nat [unat from..<unat to]"

lemma number_range_nth: "i < unat to - unat from \<Longrightarrow> number_range from to ! i = from + word_of_nat i"
  by (simp add: number_range_def)

lemma length_number_range [simp]: "length (number_range from to) = unat to - unat from"
  by (simp add: number_range_def)

lemma number_range_bound:
  assumes "n \<in> set (number_range from to)" "to \<le> 2 ^ 63"
  shows "sint n = int (unat n)" "from \<le> n" "n < to"
proof -
  obtain i where i: "n = word_of_nat i" "unat from \<le> i" "i < unat to" using assms(1) by (auto simp: number_range_def)
  have "unat to \<le> 2 ^ 63" using assms(2) by (simp add: word_le_nat_alt)
  moreover from this i have u: "unat n = i" by (simp add: unat_of_nat)
  ultimately have "unat n < 2 ^ 63" using i by simp
  then have "uint n < 2 ^ 63" by (metis of_nat_less_iff of_nat_numeral of_nat_power uint_nat)
  then have "signed_take_bit 63 (uint n) = uint n" 
    using order_trans [OF _ uint_ge_0 [of n], of "- (2 ^ 63)"] by (intro signed_take_bit_int_eq_self) simp_all
  then show "sint n = int (unat n)" by (simp add: sint_uint)
  show "from \<le> n" "n < to" using i u by (simp_all add: word_le_nat_alt word_less_nat_alt)
qed

lemma sint_inj: "inj (sint :: u64 \<Rightarrow> int)"
  by (rule injI) (rule signed_word_eqI)

lemma number_range_sorted: "sorted_wrt (<) (number_range from to)"
proof -
  have "unat to < 2 ^ 64" using unsigned_less [of to, where 'a = nat] by simp
  then have "sorted_wrt (\<lambda>i j. (word_of_nat i :: u64) < word_of_nat j) [unat from..<unat to]"
    by (intro sorted_wrt_mono_rel [OF _ sorted_wrt_upt]) (auto simp: word_less_nat_alt unat_of_nat)
  then show ?thesis by (simp add: number_range_def sorted_wrt_map)
qed

lemma number_range_prio:
  assumes "to \<le> 2 ^ 63"
  shows "sorted_wrt (\<lambda>m n. sint m < sint n) (number_range from to)"
  using number_range_sorted
  by (rule sorted_wrt_mono_rel [rotated]) (use number_range_bound(1) [OF _ assms] in \<open>auto simp: word_less_def\<close>)

lemma unindex_run:
  assumes "from < to" "to \<le> 2 ^ 63"
  shows "ordered_run unindex_code from (number_range from to)"
proof -
  have "run_pos unindex_code from (number_range from to) i = number_range from to ! i" if "i < length (number_range from to)" for i
    using that by (cases i) (simp_all add: run_pos_def unindex_code_def number_range_nth)
  moreover have "inj (\<lambda>n :: u64. - sint n)" using sint_inj by (auto simp: inj_def)
  ultimately show ?thesis
    using number_range_prio [OF assms(2), of "from"] agree_lookup_ops(2) by (simp add: ordered_run_def unindex_code_def)
qed

lemma index_run:
  assumes "from < to" "to \<le> 2 ^ 63"
  shows "ordered_run (index_code vsize ideal) to (rev (number_range from to))"
proof -
  let ?N = "number_range from to" and ?D = "index_code vsize ideal"
  have nth: "rev ?N ! i = to - 1 - word_of_nat i" if "i < length ?N" for i
  proof -
    have "word_of_nat (unat to - unat from - 1 - i) = to - from - 1 - word_of_nat i"
      using that assms(1) by (simp add: of_nat_diff)
    then show ?thesis using that by (simp add: rev_nth number_range_nth)
  qed
  have "dr_want ?D (run_pos ?D to (rev ?N) i) = rev ?N ! i" if "i < length ?N" for i
    using that nth [of i] nth [of "i - 1"] by (cases i) (simp_all add: run_pos_def index_code_def)
  moreover have "sorted_wrt (\<lambda>m n. sint n < sint m) (rev ?N)" using number_range_prio [OF assms(2), of "from"] by (simp add: sorted_wrt_rev)
  ultimately show ?thesis using sint_inj agree_lookup_ops(1) by (simp add: ordered_run_def index_code_def)
qed

lemma run_complete:
  assumes "ordered_run D start nums" "prque_top_ok peek" "distinct ns" "set ns = set nums"
    and size: "\<And>j. vsize (run_ops D hs (drop j nums)) = 0 \<longleftrightarrow> run_ops D hs (drop j nums) = []"
    and s: "s = fold (deliver peek D) (map (\<lambda>n. (n, hs n)) ns) (index_start start db)"
  shows "agree (flush_index vsize s) (db_write (run_ops D hs nums) db)"
    "nums \<noteq> [] \<Longrightarrow> dr_ops D (last nums) (hs (last nums)) \<noteq> [] \<Longrightarrow>
      ReadTxIndexTail (flush_index vsize s) = Some (run_pos D start nums (length nums))"
proof -
  obtain i where i: "index_inv D start nums hs db (set ns) i s" "i < length nums \<longrightarrow> nums ! i \<notin> set ns"
    using deliveries_inv [OF assms(1-3), of hs db] assms(4) s by auto
  then have len: "i = length nums" using assms(4) by (auto simp: index_inv_def)
  then obtain j where j: "j \<le> length nums" "ix_batch s = run_ops D hs (drop j nums)" "agree (ix_db s) (db_write (run_ops D hs (take j nums)) db)"
    "if j = 0 then ix_db s = db else ReadTxIndexTail (ix_db s) = Some (run_pos D start nums j)" "ix_pos s = run_pos D start nums (length nums)"
    using i(1) by (auto simp: index_inv_def durable_def)
  have size: "vsize (ix_batch s) = 0 \<longleftrightarrow> ix_batch s = []" using size [of j] j(2) by simp
  have split: "db_write (run_ops D hs nums) db = db_write (ix_batch s) (db_write (run_ops D hs (take j nums)) db)"
    unfolding j(2) by (metis append_take_drop_id db_write_simps(4) run_ops_simps(2))
  have "agree (db_write (ix_batch s) (ix_db s)) (db_write (run_ops D hs nums) db)"
    unfolding split unfolding j(2) using agree_run_ops [OF assms(1) j(3)] .
  then show "agree (flush_index vsize s) (db_write (run_ops D hs nums) db)"
    using size by (cases "ix_batch s = []") (simp_all add: flush_index_def)
  assume ne: "nums \<noteq> []" "dr_ops D (last nums) (hs (last nums)) \<noteq> []"
  show "ReadTxIndexTail (flush_index vsize s) = Some (run_pos D start nums (length nums))"
  proof (cases "j = length nums")
    case True
    then show ?thesis using j ne(1) size by (auto simp: flush_index_def reads)
  next
    case False
    then have "drop j nums = butlast (drop j nums) @ [last nums]" using j(1) by (metis append_butlast_last_id drop_eq_Nil last_drop le_neq_implies_less not_le)
    then have "ix_batch s \<noteq> []" unfolding j(2) using ne(2) by (metis Nil_is_append_conv append_Nil2 run_ops_simps(1-3))
    then have "0 < vsize (ix_batch s)" using size by simp
    then show ?thesis using j(5) by (simp add: flush_index_def reads)
  qed
qed

lemma run_sizes:
  assumes "batch_size_ok vsize"
  shows "hs 0 = [] \<Longrightarrow> vsize (run_ops (index_code vs ideal) hs xs) = 0 \<longleftrightarrow> run_ops (index_code vs ideal) hs xs = []"
    "vsize (run_ops unindex_code hs xs) = 0 \<longleftrightarrow> run_ops unindex_code hs xs = []"
proof -
  have ne: "big_bytes (uint n) \<noteq> []" if "n \<noteq> 0" for n :: u64 using that by (simp add: big_bytes_u64)
  have put: "(\<forall>op \<in> set (WriteTxLookupEntries n hs'). \<exists>k. op = Put k []) \<longleftrightarrow> hs' = []" if "n \<noteq> 0" for n hs'
    using ne [OF that] by (cases hs') (auto simp: WriteTxLookupEntries_def writeTxLookupEntry_def)
  have del: "(\<forall>op \<in> set (DeleteTxLookupEntries hs'). \<exists>k. op = Put k []) \<longleftrightarrow> hs' = []" for hs'
    by (cases hs') (auto simp: DeleteTxLookupEntries_def DeleteTxLookupEntry_def)
  have nil: "WriteTxLookupEntries n hs' = [] \<longleftrightarrow> hs' = []" "DeleteTxLookupEntries hs' = [] \<longleftrightarrow> hs' = []" "WriteTxLookupEntries n [] = []" for n hs'
    by (cases hs'; auto simp: WriteTxLookupEntries_def writeTxLookupEntry_def DeleteTxLookupEntries_def DeleteTxLookupEntry_def)+
  show "vsize (run_ops unindex_code hs xs) = 0 \<longleftrightarrow> run_ops unindex_code hs xs = []"
    using assms del unfolding batch_size_ok_def by (induction xs) (simp_all add: ball_Un unindex_code_def nil)
  assume z: "hs 0 = []"
  have "(\<forall>op \<in> set (WriteTxLookupEntries n (hs n)). \<exists>k. op = Put k []) \<longleftrightarrow> hs n = []" for n
    using put [of n] z by (cases "n = 0") (simp_all add: nil)
  then show "vsize (run_ops (index_code vs ideal) hs xs) = 0 \<longleftrightarrow> run_ops (index_code vs ideal) hs xs = []"
    using assms unfolding batch_size_ok_def by (induction xs) (simp_all add: ball_Un index_code_def nil)
qed

lemma run_durable:
  assumes "ordered_run D start nums" "prque_top_ok peek" "distinct ns" "set ns \<subseteq> set nums"
    and "s = fold (deliver peek D) (map (\<lambda>n. (n, hs n)) ns) (index_start start db)"
  shows "\<exists>j \<le> length nums. set (take j nums) \<subseteq> set ns \<and> agree (ix_db s) (db_write (run_ops D hs (take j nums)) db) \<and>
    (if j = 0 then ix_db s = db else ReadTxIndexTail (ix_db s) = Some (run_pos D start nums j))"
proof -
  obtain i where "index_inv D start nums hs db (set ns) i s" using deliveries_inv [OF assms(1-4), of hs db] assms(5) by auto
  then obtain j where "i \<le> length nums" "set (take i nums) \<subseteq> set ns" "j \<le> i" "agree (ix_db s) (db_write (run_ops D hs (take j nums)) db)"
    "if j = 0 then ix_db s = db else ReadTxIndexTail (ix_db s) = Some (run_pos D start nums j)"
    by (auto simp: index_inv_def durable_def)
  then show ?thesis using set_take_subset_set_take [of j i nums] by (intro exI [of _ j]) auto
qed

text \<open>
  C39: Whatever order the hashed blocks arrive in, the index is that of writing the blocks of the range
  one after the other from the newest to the oldest, and unindexing removes the entries of all their
  transactions; the tail is the first number of the range if that block has transactions. The
  genesis block has none.
\<close>

theorem index_any_order:
  assumes "prque_top_ok peek" "batch_size_ok vsize" "from < to" "to \<le> 2 ^ 63" "mset ns = mset (number_range from to)" "hs 0 = []"
  shows "agree (indexTransactions peek vsize ideal from to (map (\<lambda>n. (n, hs n)) ns) db)
      (db_write (concat (map (\<lambda>n. WriteTxLookupEntries n (hs n)) (rev (number_range from to)))) db) \<and>
    agree (unindexTransactions peek vsize from to (map (\<lambda>n. (n, hs n)) ns) db)
      (db_write (DeleteTxLookupEntries (concat (map hs (number_range from to)))) db) \<and>
    (hs from = [] \<or> ReadTxIndexTail (indexTransactions peek vsize ideal from to (map (\<lambda>n. (n, hs n)) ns) db) = Some from)"
proof (intro conjI)
  let ?N = "number_range from to"
  have "distinct ?N" using number_range_sorted [of "from" to] by (simp add: strict_sorted_iff)
  then have ns: "distinct ns" "set ns = set ?N" using mset_eq_imp_distinct_iff [OF assms(5)] mset_eq_setD [OF assms(5)] by simp_all
  have nle: "\<not> to \<le> from" using assms(3) by simp
  have len: "0 < unat to - unat from" using assms(3) by (simp add: word_less_nat_alt)
  have ops: "run_ops (index_code vsize ideal) hs (rev ?N) = concat (map (\<lambda>n. WriteTxLookupEntries n (hs n)) (rev ?N))"
    by (simp add: run_ops_def index_code_def)
  note up = run_complete [OF index_run [OF assms(3,4), of vsize ideal] assms(1) ns(1) _ run_sizes(1) [OF assms(2), of hs, OF assms(6)] refl, of db]
  show "agree (indexTransactions peek vsize ideal from to (map (\<lambda>n. (n, hs n)) ns) db)
      (db_write (concat (map (\<lambda>n. WriteTxLookupEntries n (hs n)) (rev (number_range from to)))) db)"
    using up(1) nle ns(2) by (simp add: indexTransactions_def ops)
  have "run_ops unindex_code hs xs = DeleteTxLookupEntries (concat (map hs xs))" for xs
    by (induction xs) (simp_all add: unindex_code_def DeleteTxLookupEntries_def)
  then show "agree (unindexTransactions peek vsize from to (map (\<lambda>n. (n, hs n)) ns) db)
      (db_write (DeleteTxLookupEntries (concat (map hs (number_range from to)))) db)"
    using run_complete(1) [OF unindex_run [OF assms(3,4)] assms(1) ns(1,2) run_sizes(2) [OF assms(2)] refl, of hs db] nle
    by (simp add: unindexTransactions_def)
  have "?N \<noteq> []" using len length_number_range [of "from" to] by (metis less_irrefl list.size(3))
  moreover have "?N ! 0 = from" using number_range_nth [OF len] by simp
  ultimately have hd: "?N = from # tl ?N" by (metis hd_conv_nth list.collapse)
  then have last: "rev ?N \<noteq> []" "last (rev ?N) = from" by (metis rev_is_Nil_conv list.distinct(1), metis last_rev list.sel(1))
  then have pos: "run_pos (index_code vsize ideal) to (rev ?N) (length (rev ?N)) = from"
    using len by (simp add: run_pos_def index_code_def last_conv_nth)
  show "hs from = [] \<or> ReadTxIndexTail (indexTransactions peek vsize ideal from to (map (\<lambda>n. (n, hs n)) ns) db) = Some from"
  proof (cases "hs from")
    case (Cons h t)
    then have "dr_ops (index_code vsize ideal) from (hs from) \<noteq> []" by (simp add: index_code_def WriteTxLookupEntries_def writeTxLookupEntry_def)
    then show ?thesis using up(2) last nle ns(2) pos by (simp add: indexTransactions_def)
  qed simp
qed

definition sample_prque_top :: prque_top where
  "sample_prque_top q = length (takeWhile (\<lambda>x. fst x \<noteq> Max (fst ` set q)) q)"

lemma sample_prque_top_ok: "prque_top_ok sample_prque_top"
  unfolding prque_top_ok_def
proof (intro allI impI)
  fix q :: "(int \<times> blockTxHashes) list" assume "q \<noteq> []"
  then have "Max (fst ` set q) \<in> fst ` set q" by (intro Max_in) auto
  then obtain x where "x \<in> set q" "fst x = Max (fst ` set q)" by fastforce
  then have "\<exists>x \<in> set q. \<not> fst x \<noteq> Max (fst ` set q)" by blast
  then have "takeWhile (\<lambda>x. fst x \<noteq> Max (fst ` set q)) q \<noteq> q" unfolding takeWhile_eq_all_conv by blast
  then have i: "sample_prque_top q < length q" unfolding sample_prque_top_def by (metis length_takeWhile_le le_neq_implies_less takeWhile_eq_take take_all order_refl)
  then have "fst (q ! sample_prque_top q) = Max (fst ` set q)" 
    using nth_length_takeWhile [of "\<lambda>x. fst x \<noteq> Max (fst ` set q)" q] by (simp add: sample_prque_top_def)
  then show "sample_prque_top q < length q \<and> (\<forall>x \<in> set q. fst x \<le> fst (q ! sample_prque_top q))" using i by simp
qed

definition sample_vsize :: "db_op list \<Rightarrow> nat" where
  "sample_vsize ops = sum_list (map (\<lambda>op. case op of Put k v \<Rightarrow> length v | Delete k \<Rightarrow> 1) ops)"

lemma sample_vsize_ok: "batch_size_ok sample_vsize"
proof -
  have "(case op of Put k v \<Rightarrow> length v | Delete k \<Rightarrow> Suc 0) = 0 \<longleftrightarrow> (\<exists>k. op = Put k [])" for op by (cases op) auto
  then show ?thesis by (simp add: batch_size_ok_def sample_vsize_def)
qed

theorem index_any_order_witness:
  "ReadTxIndexTail (indexTransactions sample_prque_top sample_vsize 2 3 6 [(4, [11]), (3, [12]), (5, [])] []) = Some 3 \<and>
   agree (indexTransactions sample_prque_top sample_vsize 2 3 6 [(4, [11]), (3, [12]), (5, [])] [])
     (db_write (WriteTxLookupEntries 5 [] @ WriteTxLookupEntries 4 [11] @ WriteTxLookupEntries 3 [12]) [])"
proof -
  define hs :: "u64 \<Rightarrow> hash list" where "hs n = (if n = 4 then [11] else if n = 3 then [12] else [])" for n
  have range: "number_range 3 6 = [3, 4, 5]" by (simp add: number_range_def upt_rec)
  have ds: "map (\<lambda>n. (n, hs n)) [4, 3, 5] = [(4, [11]), (3, [12]), (5, [])]" by (simp add: hs_def)
  have "mset [4, 3, 5] = mset (number_range 3 6)" by (simp add: range)
  from index_any_order [OF sample_prque_top_ok sample_vsize_ok, of 3 6, OF _ _ this, of hs 2 "[]"] show ?thesis
    unfolding ds by (simp add: range hs_def)
qed

text \<open>
  C40: However the deliveries are cut off, the store on disk is always that of indexing down to its tail:
  a crash or an interruption loses no entry the tail promises.
\<close>

theorem index_crash_consistent:
  assumes "prque_top_ok peek" "from < to" "to \<le> 2 ^ 63" "distinct ns" "set ns \<subseteq> set (number_range from to)"
    and "s = fold (deliver peek (index_code vsize ideal)) (map (\<lambda>n. (n, hs n)) ns) (index_start to db)"
  shows "ix_db s = db \<or> (\<exists>t. ReadTxIndexTail (ix_db s) = Some t \<and> from \<le> t \<and> t < to \<and>
    agree (ix_db s) (db_write (concat (map (\<lambda>n. WriteTxLookupEntries n (hs n)) (rev (number_range t to)))) db))"
proof -
  let ?N = "number_range from to" and ?D = "index_code vsize ideal"
  have ft: "unat from < unat to" using assms(2) by (simp add: word_less_nat_alt)
  obtain j where j: "j \<le> length (rev ?N)" "agree (ix_db s) (db_write (run_ops ?D hs (take j (rev ?N))) db)"
    "if j = 0 then ix_db s = db else ReadTxIndexTail (ix_db s) = Some (run_pos ?D to (rev ?N) j)"
    using run_durable [OF index_run [OF assms(2,3), of vsize ideal] assms(1,4) _ assms(6)] assms(5) by auto
  show ?thesis
  proof (cases "j = 0")
    case False
    define t where "t = (word_of_nat (unat to - j) :: u64)"
    have jl: "j \<le> unat to - unat from" using j(1) by simp
    have "unat to < 2 ^ 64" using unsigned_less [of to, where 'a = nat] by simp
    then have ut: "unat t = unat to - j" unfolding t_def by (simp only: unat_of_nat) simp
    have take: "take j (rev ?N) = rev (number_range t to)" using jl ft by (simp add: take_rev number_range_def ut drop_map)
    have "rev ?N ! (j - 1) = t" using jl False ft by (simp add: rev_nth number_range_def t_def)
    then have "run_pos ?D to (rev ?N) j = t" using False by (simp add: run_pos_def index_code_def)
    moreover have "from \<le> t" "t < to" using ut jl False ft by (simp_all add: word_le_nat_alt word_less_nat_alt)
    moreover have "run_ops ?D hs xs = concat (map (\<lambda>n. WriteTxLookupEntries n (hs n)) xs)" for xs by (simp add: run_ops_def index_code_def)
    ultimately show ?thesis using j(2,3) False by (auto simp: take)
  qed (use j in simp)
qed

theorem index_crash_consistent_witness:
  "\<exists>t. ReadTxIndexTail (ix_db (fold (deliver sample_prque_top (index_code length 0)) [(5, [11 :: hash])] (index_start 6 []))) = Some t"
proof -
  let ?s = "fold (deliver sample_prque_top (index_code length 0)) [(5, [11 :: hash])] (index_start 6 [])"
  have "(?s :: index_state) = fold (deliver sample_prque_top (index_code length 0)) (map (\<lambda>n. (n, (\<lambda>_. [11 :: hash]) n)) [5]) (index_start 6 [])" by simp
  from index_crash_consistent [OF sample_prque_top_ok _ _ _ _ this, of 3]
  have "ix_db ?s = [] \<or> (\<exists>t. ReadTxIndexTail (ix_db ?s) = Some t)" by (auto simp: number_range_def upt_rec)
  moreover have "ix_db ?s \<noteq> []"
    by (simp add: deliver_def sample_prque_top_def index_start_def index_code_def take_block_def Let_def
        WriteTxLookupEntries_def writeTxLookupEntry_def WriteTxIndexTail_def)
  ultimately show ?thesis by blast
qed

end
