(* ===== verification/Header_Chain.thy ===== *)
theory Header_Chain
  imports Raw_Db_Order "HOL-Library.Monad_Syntax"
begin

text \<open>
  The header chain (\<open>core/headerchain.go\<close>): the chain of canonical headers in the database, the current
  header in memory, and two caches. Reading a header moves or adds entries of a cache, so every reader
  returns the header chain with it. A result of \<open>None\<close> where the code returns no option is a nil
  dereference, an index out of range or a loop that does not end.

  The caches are maps in order of use; which entries a full cache keeps is decided by \<open>ce_evict\<close>, from
  the limit and the keys, as the cache package is outside the repository. Random draws and the
  interrupt flag are arguments. A failing write ends the process and is left out, like logs and gauges.
\<close>

section \<open>Caches\<close>

record 'g chain_env =
  ce_codec :: "'g codec"
  ce_evict :: "nat \<Rightarrow> hash list \<Rightarrow> hash list"

type_synonym 'v lru = "(hash, 'v) gomap"

definition lru_Get :: "hash \<Rightarrow> 'v lru \<Rightarrow> 'v option \<times> 'v lru" where
  "lru_Get k c = (case mget c k of None \<Rightarrow> (None, c) | Some v \<Rightarrow> (Some v, (k, v) # mdel k c))"

definition lru_Add :: "(nat \<Rightarrow> hash list \<Rightarrow> hash list) \<Rightarrow> nat \<Rightarrow> hash \<Rightarrow> 'v \<Rightarrow> 'v lru \<Rightarrow> 'v lru" where
  "lru_Add evict limit k v c =
     (let c = (k, v) # mdel k c; kept = evict limit (map fst c) in filter (\<lambda>(k, v). k \<in> set kept) c)"

definition headerCacheLimit :: nat where "headerCacheLimit = 512"
definition numberCacheLimit :: nat where "numberCacheLimit = 2048"

section \<open>The state and its readers\<close>

record header_chain =
  hc_chainDb :: kvdb
  hc_genesisHeader :: "Header option"
  hc_currentHeader :: "Header option"
  hc_currentHeaderHash :: hash
  hc_headerCache :: "Header lru"
  hc_numberCache :: "u64 lru"

datatype WriteStatus = NonStatTy | CanonStatTy | SideStatTy

abbreviation ce_hash :: "'g chain_env \<Rightarrow> Header \<Rightarrow> hash" where
  "ce_hash E \<equiv> Header_Hash (cd_crypto (ce_codec E))"

abbreviation hd_num :: "Header \<Rightarrow> u64" where
  "hd_num header \<equiv> big_Uint64 (hd_Number header)"

definition GetBlockNumber :: "'g chain_env \<Rightarrow> hash \<Rightarrow> header_chain \<Rightarrow> u64 option \<times> header_chain" where
  "GetBlockNumber E h hc =
     (case lru_Get h (hc_numberCache hc) of
        (Some number, c) \<Rightarrow> (Some number, hc\<lparr>hc_numberCache := c\<rparr>)
      | (None, _) \<Rightarrow>
          (case ReadHeaderNumber (hc_chainDb hc) h of
             None \<Rightarrow> (None, hc)
           | Some number \<Rightarrow> (Some number, hc\<lparr>hc_numberCache := lru_Add (ce_evict E) numberCacheLimit h number (hc_numberCache hc)\<rparr>)))"

definition hc_GetHeader :: "'g chain_env \<Rightarrow> hash \<Rightarrow> u64 \<Rightarrow> header_chain \<Rightarrow> Header option \<times> header_chain" where
  "hc_GetHeader E h number hc =
     (case lru_Get h (hc_headerCache hc) of
        (Some header, c) \<Rightarrow> (Some header, hc\<lparr>hc_headerCache := c\<rparr>)
      | (None, _) \<Rightarrow>
          (case ReadHeader (ce_codec E) (hc_chainDb hc) h number of
             None \<Rightarrow> (None, hc)
           | Some header \<Rightarrow> (Some header, hc\<lparr>hc_headerCache := lru_Add (ce_evict E) headerCacheLimit h header (hc_headerCache hc)\<rparr>)))"

definition hc_GetHeaderByHash :: "'g chain_env \<Rightarrow> hash \<Rightarrow> header_chain \<Rightarrow> Header option \<times> header_chain" where
  "hc_GetHeaderByHash E h hc =
     (case GetBlockNumber E h hc of
        (None, hc) \<Rightarrow> (None, hc)
      | (Some number, hc) \<Rightarrow> hc_GetHeader E h number hc)"

definition hc_HasHeader :: "hash \<Rightarrow> u64 \<Rightarrow> header_chain \<Rightarrow> bool" where
  "hc_HasHeader h number hc \<longleftrightarrow>
     mget (hc_numberCache hc) h \<noteq> None \<or> mget (hc_headerCache hc) h \<noteq> None \<or> HasHeader (hc_chainDb hc) h number"

definition hc_GetHeaderByNumber :: "'g chain_env \<Rightarrow> u64 \<Rightarrow> header_chain \<Rightarrow> Header option \<times> header_chain" where
  "hc_GetHeaderByNumber E number hc =
     (let h = ReadCanonicalHash (hc_chainDb hc) number in if h = 0 then (None, hc) else hc_GetHeader E h number hc)"

definition GetCanonicalHash :: "u64 \<Rightarrow> header_chain \<Rightarrow> hash" where
  "GetCanonicalHash number hc = ReadCanonicalHash (hc_chainDb hc) number"

definition hc_CurrentHeader :: "header_chain \<Rightarrow> Header option" where
  "hc_CurrentHeader hc = hc_currentHeader hc"

definition hc_ShardID :: "header_chain \<Rightarrow> u64 option" where
  "hc_ShardID hc = map_option hd_ShardID (hc_CurrentHeader hc)"

definition SetCurrentHeader :: "'g chain_env \<Rightarrow> Header \<Rightarrow> header_chain \<Rightarrow> header_chain" where
  "SetCurrentHeader E head hc =
     hc\<lparr>hc_chainDb := db_write (WriteHeadHeaderHash (ce_hash E head)) (hc_chainDb hc),
        hc_currentHeader := Some head, hc_currentHeaderHash := ce_hash E head\<rparr>"

definition SetGenesis :: "Header \<Rightarrow> header_chain \<Rightarrow> header_chain" where
  "SetGenesis head hc = hc\<lparr>hc_genesisHeader := Some head\<rparr>"

text \<open>The constructor; nothing is the error \<open>ErrNoGenesis\<close>.\<close>

definition NewHeaderChain :: "'g chain_env \<Rightarrow> kvdb \<Rightarrow> header_chain option" where
  "NewHeaderChain E db =
     (let hc = \<lparr>hc_chainDb = db, hc_genesisHeader = None, hc_currentHeader = None, hc_currentHeaderHash = 0,
                hc_headerCache = [], hc_numberCache = []\<rparr>
      in case hc_GetHeaderByNumber E 0 hc of
           (None, _) \<Rightarrow> None
         | (Some genesis, hc) \<Rightarrow>
             let head = ReadHeadBlockHash db;
                 (chead, hc) = (if head = 0 then (None, hc) else hc_GetHeaderByHash E head hc);
                 current = (case chead of None \<Rightarrow> genesis | Some header \<Rightarrow> header)
             in Some (hc\<lparr>hc_genesisHeader := Some genesis, hc_currentHeader := Some current, hc_currentHeaderHash := ce_hash E current\<rparr>))"

section \<open>Writing a header\<close>

text \<open>The deletion of canonical hashes from \<open>i\<close> on, up to the first number without one.\<close>

partial_function (option) delete_above :: "kvdb \<Rightarrow> u64 \<Rightarrow> db_op list option" where
  "delete_above db i =
     (if ReadCanonicalHash db i = 0 then Some []
      else Option.bind (delete_above db (i + 1)) (\<lambda>ops. Some (DeleteCanonicalHash i @ ops)))"

text \<open>The loop that overwrites stale canonical hashes; its reads see the store, not the batch.\<close>

partial_function (option) overwrite_stale ::
  "'g chain_env \<Rightarrow> hash \<Rightarrow> u64 \<Rightarrow> Header option \<Rightarrow> header_chain \<Rightarrow> (db_op list \<times> header_chain) option" where
  "overwrite_stale E headHash headNumber headHeader hc =
     (if ReadCanonicalHash (hc_chainDb hc) headNumber = headHash then Some ([], hc)
      else case headHeader of
             None \<Rightarrow> None
           | Some header \<Rightarrow>
               let parentHash = hd_ParentHash header; parentNumber = hd_num header - 1
               in (case hc_GetHeader E parentHash parentNumber hc of
                     (parent, hc) \<Rightarrow>
                       Option.bind (overwrite_stale E parentHash parentNumber parent hc)
                         (\<lambda>(ops, hc). Some (WriteCanonicalHash headHash headNumber @ ops, hc))))"

definition write_canonical :: "'g chain_env \<Rightarrow> Header \<Rightarrow> header_chain \<Rightarrow> header_chain option" where
  "write_canonical E header hc =
     (let h = ce_hash E header; number = hd_num header
      in do {
           above \<leftarrow> delete_above (hc_chainDb hc) (number + 1);
           let (parent, hc) = hc_GetHeader E (hd_ParentHash header) (number - 1) hc;
           (stale, hc) \<leftarrow> overwrite_stale E (hd_ParentHash header) (number - 1) parent hc;
           let batch = above @ stale @ WriteCanonicalHash h number @ WriteHeadHeaderHash h;
           Some (hc\<lparr>hc_chainDb := db_write batch (hc_chainDb hc), hc_currentHeaderHash := h, hc_currentHeader := Some header\<rparr>)
         })"

text \<open>\<open>coin\<close> is the outcome of \<open>mrand.Float64() < 0.5\<close>.\<close>

definition hc_WriteHeader :: "'g chain_env \<Rightarrow> bool \<Rightarrow> Header \<Rightarrow> header_chain \<Rightarrow> (WriteStatus \<times> header_chain) option" where
  "hc_WriteHeader E coin header hc =
     do {
       current \<leftarrow> hc_CurrentHeader hc;
       let h = ce_hash E header;
       let number = hd_num header;
       let head = hd_num current;
       let hc = hc\<lparr>hc_chainDb := db_write (WriteHeader (ce_codec E) header) (hc_chainDb hc)\<rparr>;
       let reorg = (number > head \<or> number < head \<or> (number = head \<and> coin));
       hc \<leftarrow> (if reorg then write_canonical E header hc else Some hc);
       Some (if reorg then CanonStatTy else SideStatTy,
             hc\<lparr>hc_headerCache := lru_Add (ce_evict E) headerCacheLimit h header (hc_headerCache hc),
                hc_numberCache := lru_Add (ce_evict E) numberCacheLimit h number (hc_numberCache hc)\<rparr>)
     }"

section \<open>Importing a chain of headers\<close>

datatype chain_error = NonContiguous nat | Aborted | EngineError string | CallbackError string

fun contiguous_from :: "'g chain_env \<Rightarrow> nat \<Rightarrow> Header list \<Rightarrow> chain_error option" where
  "contiguous_from E i (a # b # rest) =
     (if hd_num b \<noteq> hd_num a + 1 \<or> hd_ParentHash b \<noteq> ce_hash E a then Some (NonContiguous i) else contiguous_from E (Suc i) (b # rest))"
| "contiguous_from E i _ = None"

text \<open>The headers whose seals are verified; \<open>rnd i\<close> is the random draw of round \<open>i\<close>.\<close>

fun seal_rounds :: "(nat \<Rightarrow> nat) \<Rightarrow> nat \<Rightarrow> nat \<Rightarrow> bool list \<Rightarrow> bool list" where
  "seal_rounds rnd checkFreq 0 seals = seals"
| "seal_rounds rnd checkFreq (Suc i) seals =
     (let seals = seal_rounds rnd checkFreq i seals; index = i * checkFreq + rnd i;
          index = (if length seals \<le> index then length seals - 1 else index)
      in seals[index := True])"

definition choose_seals :: "(nat \<Rightarrow> nat) \<Rightarrow> int \<Rightarrow> nat \<Rightarrow> bool list option" where
  "choose_seals rnd checkFreq n =
     (let seals = replicate n False
      in if checkFreq = 0 then Some seals
         else if n = 0 then None
         else Some ((if 0 < checkFreq then seal_rounds rnd (nat checkFreq) (n div nat checkFreq) seals else seals)[n - 1 := True]))"

fun await_results :: "(nat \<Rightarrow> bool) \<Rightarrow> nat \<Rightarrow> string option list \<Rightarrow> nat \<times> chain_error option" where
  "await_results interrupted i [] = (0, None)"
| "await_results interrupted i (r # rs) =
     (if interrupted i then (0, Some Aborted)
      else case r of Some e \<Rightarrow> (i, Some (EngineError e)) | None \<Rightarrow> await_results interrupted (Suc i) rs)"

text \<open>
  The engine is an interface; that of the repository (\<open>internal/chain/sharding.go\<close>) accepts every header.
\<close>

definition verifyHeader :: "Header \<Rightarrow> Header list \<Rightarrow> string option" where
  "verifyHeader header parents = None"

definition VerifyHeaders :: "Header list \<Rightarrow> bool list \<Rightarrow> string option list" where
  "VerifyHeaders headers seals = map (\<lambda>i. verifyHeader (headers ! i) (take i headers)) [0..<length headers]"

definition ValidateHeaderChain ::
  "'g chain_env \<Rightarrow> (Header list \<Rightarrow> bool list \<Rightarrow> string option list) \<Rightarrow> (nat \<Rightarrow> nat) \<Rightarrow> (nat \<Rightarrow> bool) \<Rightarrow> Header list \<Rightarrow> int
   \<Rightarrow> (nat \<times> chain_error option) option" where
  "ValidateHeaderChain E verifyHeaders rnd interrupted chain checkFreq =
     (case contiguous_from E 1 chain of
        Some e \<Rightarrow> Some (0, Some e)
      | None \<Rightarrow>
          (case choose_seals rnd checkFreq (length chain) of
             None \<Rightarrow> None
           | Some seals \<Rightarrow> Some (await_results interrupted 0 (verifyHeaders chain seals))))"

fun insert_headers ::
  "'g chain_env \<Rightarrow> (nat \<Rightarrow> Header \<Rightarrow> header_chain \<Rightarrow> (string option \<times> header_chain) option) \<Rightarrow> (nat \<Rightarrow> bool) \<Rightarrow> nat \<Rightarrow> Header list
   \<Rightarrow> header_chain \<Rightarrow> ((nat \<times> chain_error option) \<times> header_chain) option" where
  "insert_headers E writeHeader interrupted i [] hc = Some ((0, None), hc)"
| "insert_headers E writeHeader interrupted i (header # chain) hc =
     (if interrupted i then Some ((i, Some Aborted), hc)
      else if hc_HasHeader (ce_hash E header) (hd_num header) hc then insert_headers E writeHeader interrupted (Suc i) chain hc
      else case writeHeader i header hc of
             None \<Rightarrow> None
           | Some (Some e, hc) \<Rightarrow> Some ((i, Some (CallbackError e)), hc)
           | Some (None, hc) \<Rightarrow> insert_headers E writeHeader interrupted (Suc i) chain hc)"

text \<open>The report at the end reads the last header, so an empty chain panics.\<close>

definition hc_InsertHeaderChain ::
  "'g chain_env \<Rightarrow> (nat \<Rightarrow> Header \<Rightarrow> header_chain \<Rightarrow> (string option \<times> header_chain) option) \<Rightarrow> (nat \<Rightarrow> bool) \<Rightarrow> Header list
   \<Rightarrow> header_chain \<Rightarrow> ((nat \<times> chain_error option) \<times> header_chain) option" where
  "hc_InsertHeaderChain E writeHeader interrupted chain hc =
     (if chain = [] then None else insert_headers E writeHeader interrupted 0 chain hc)"

section \<open>Ancestors\<close>

fun hashes_loop :: "'g chain_env \<Rightarrow> nat \<Rightarrow> Header \<Rightarrow> header_chain \<Rightarrow> hash list \<times> header_chain" where
  "hashes_loop E 0 header hc = ([], hc)"
| "hashes_loop E (Suc n) header hc =
     (let nxt = hd_ParentHash header
      in case hc_GetHeader E nxt (hd_num header - 1) hc of
           (None, hc) \<Rightarrow> ([], hc)
         | (Some header, hc) \<Rightarrow>
             if hd_Number header = 0 then ([nxt], hc)
             else (case hashes_loop E n header hc of (hs, hc) \<Rightarrow> (nxt # hs, hc)))"

definition GetBlockHashesFromHash :: "'g chain_env \<Rightarrow> hash \<Rightarrow> u64 \<Rightarrow> header_chain \<Rightarrow> hash list \<times> header_chain" where
  "GetBlockHashesFromHash E h n hc =
     (case hc_GetHeaderByHash E h hc of
        (None, hc) \<Rightarrow> ([], hc)
      | (Some header, hc) \<Rightarrow> hashes_loop E (unat n) header hc)"

text \<open>
  The two reads of the canonical hash around that of the ancestor guard against a concurrent change;
  without one they agree. The result carries the counter \<open>maxNonCanonical\<close>.
\<close>

fun ancestor_loop :: "'g chain_env \<Rightarrow> nat \<Rightarrow> hash \<Rightarrow> u64 \<Rightarrow> u64 \<Rightarrow> header_chain \<Rightarrow> (hash \<times> u64 \<times> u64) \<times> header_chain" where
  "ancestor_loop E 0 h number budget hc = ((h, number, budget), hc)"
| "ancestor_loop E (Suc ancestor) h number budget hc =
     (if ReadCanonicalHash (hc_chainDb hc) number = h
      then ((ReadCanonicalHash (hc_chainDb hc) (number - word_of_nat (Suc ancestor)), number - word_of_nat (Suc ancestor), budget), hc)
      else if budget = 0 then ((0, 0, budget), hc)
      else case hc_GetHeader E h number hc of
             (None, hc) \<Rightarrow> ((0, 0, budget - 1), hc)
           | (Some header, hc) \<Rightarrow> ancestor_loop E ancestor (hd_ParentHash header) (number - 1) (budget - 1) hc)"

definition GetAncestor :: "'g chain_env \<Rightarrow> hash \<Rightarrow> u64 \<Rightarrow> u64 \<Rightarrow> u64 \<Rightarrow> header_chain \<Rightarrow> (hash \<times> u64 \<times> u64) \<times> header_chain" where
  "GetAncestor E h number ancestor maxNonCanonical hc =
     (if ancestor > number then ((0, 0, maxNonCanonical), hc)
      else if ancestor = 1
      then (case hc_GetHeader E h number hc of
              (Some header, hc) \<Rightarrow> ((hd_ParentHash header, number - 1, maxNonCanonical), hc)
            | (None, hc) \<Rightarrow> ((0, 0, maxNonCanonical), hc))
      else ancestor_loop E (unat ancestor) h number maxNonCanonical hc)"

section \<open>Rewinding\<close>

text \<open>
  The callbacks of the caller work on its state of type \<open>'s\<close>: \<open>updateFn\<close> returns the writes it adds to the
  batch, the head it moved to and whether to go on to it; \<open>delFn\<close> the deletions it adds.
\<close>

type_synonym 's update_fn = "Header \<Rightarrow> kvdb \<Rightarrow> 's \<Rightarrow> (db_op list \<times> u64 \<times> bool \<times> 's) option"
type_synonym 's del_fn = "hash \<Rightarrow> u64 \<Rightarrow> 's \<Rightarrow> db_op list \<times> 's"

text \<open>The numbers above the head that still have headers, from the highest down.\<close>

partial_function (option) leftover :: "kvdb \<Rightarrow> u64 \<Rightarrow> u64 list option" where
  "leftover db n =
     (if ReadAllHashes db n = [] then Some []
      else Option.bind (leftover db (n + 1)) (\<lambda>nums. Some (nums @ [n])))"

fun delete_hashes :: "'s del_fn option \<Rightarrow> u64 \<Rightarrow> hash list \<Rightarrow> 's \<Rightarrow> db_op list \<times> 's" where
  "delete_hashes delFn num [] s = ([], s)"
| "delete_hashes delFn num (h # hs) s =
     (let (ops, s) = (case delFn of None \<Rightarrow> ([], s) | Some f \<Rightarrow> f h num s);
          (more, s) = delete_hashes delFn num hs s
      in (ops @ DeleteHeader h num @ more, s))"

fun delete_numbers :: "'s del_fn option \<Rightarrow> kvdb \<Rightarrow> hash \<Rightarrow> u64 list \<Rightarrow> 's \<Rightarrow> db_op list \<times> 's" where
  "delete_numbers delFn db own [] s = ([], s)"
| "delete_numbers delFn db own (num # nums) s =
     (let hashes = ReadAllHashes db num;
          (ops, s) = delete_hashes delFn num (if hashes = [] then [own] else hashes) s;
          (more, s) = delete_numbers delFn db own nums s
      in (ops @ DeleteCanonicalHash num @ more, s))"

text \<open>One round of the loop for the header \<open>hdr\<close>: the new target, the deletions, and the state.\<close>

definition rewind_round ::
  "'g chain_env \<Rightarrow> 's update_fn option \<Rightarrow> 's del_fn option \<Rightarrow> bool \<Rightarrow> u64 \<Rightarrow> Header \<Rightarrow> header_chain \<Rightarrow> 's
   \<Rightarrow> (u64 \<times> db_op list \<times> header_chain \<times> 's) option" where
  "rewind_round E updateFn delFn origin head hdr hc s =
     (let num = hd_num hdr; (found, hc) = hc_GetHeader E (hd_ParentHash hdr) (num - 1) hc
      in do {
           parent \<leftarrow> (case found of Some p \<Rightarrow> Some p | None \<Rightarrow> hc_genesisHeader hc);
           (marks, head, s) \<leftarrow>
             (case updateFn of
                None \<Rightarrow> Some ([], head, s)
              | Some f \<Rightarrow> do {
                  (marks, newHead, force, s) \<leftarrow> f parent (hc_chainDb hc) s;
                  Some (marks, if force \<and> newHead < head then newHead else head, s)
                });
           let hc = hc\<lparr>hc_chainDb := db_write (marks @ WriteHeadHeaderHash (hd_ParentHash hdr)) (hc_chainDb hc),
                       hc_currentHeader := Some parent, hc_currentHeaderHash := hd_ParentHash hdr\<rparr>;
           above \<leftarrow> (if origin then leftover (hc_chainDb hc) (num + 1) else Some []);
           let (ops, s) = delete_numbers delFn (hc_chainDb hc) (ce_hash E hdr) (above @ [num]) s;
           Some (head, ops, hc, s)
         })"

partial_function (option) rewind ::
  "'g chain_env \<Rightarrow> 's update_fn option \<Rightarrow> 's del_fn option \<Rightarrow> bool \<Rightarrow> u64 \<Rightarrow> header_chain \<Rightarrow> 's
   \<Rightarrow> (db_op list \<times> header_chain \<times> 's) option" where
  "rewind E updateFn delFn origin head hc s =
     (case hc_CurrentHeader hc of
        None \<Rightarrow> None
      | Some hdr \<Rightarrow>
          if hd_num hdr \<le> head then Some ([], hc, s)
          else Option.bind (rewind_round E updateFn delFn origin head hdr hc s) (\<lambda>(head, ops, hc, s).
                 Option.bind (rewind E updateFn delFn False head hc s) (\<lambda>(more, hc, s). Some (ops @ more, hc, s))))"

definition hc_SetHead ::
  "'g chain_env \<Rightarrow> u64 \<Rightarrow> 's update_fn option \<Rightarrow> 's del_fn option \<Rightarrow> header_chain \<Rightarrow> 's \<Rightarrow> (header_chain \<times> 's) option" where
  "hc_SetHead E head updateFn delFn hc s =
     do {
       (batch, hc, s) \<leftarrow> rewind E updateFn delFn True head hc s;
       Some (hc\<lparr>hc_chainDb := db_write batch (hc_chainDb hc), hc_headerCache := [], hc_numberCache := []\<rparr>, s)
     }"

end
