(* ===== verification/Header_Chain_Props.thy ===== *)
theory Header_Chain_Props
  imports Header_Chain
begin

text \<open>
  The header chain keeps its markers right: the canonical hashes of the store are exactly the ancestors
  of the current header. \<open>headers_ok\<close> says that the stored headers are linked down to the genesis
  header, \<open>canonical_chain\<close> that the canonical hashes are the ancestors of a head, and \<open>hc_inv\<close> adds the
  heads in memory and the caches.
\<close>

section \<open>Invariants\<close>

definition headers_ok :: "'g codec \<Rightarrow> hash \<Rightarrow> kvdb \<Rightarrow> bool" where
  "headers_ok C g db \<longleftrightarrow> gomap_ok db \<and>
     (\<forall>h n hdr. ReadHeader C db h n = Some hdr \<longrightarrow>
        Header_Hash (cd_crypto C) hdr = h \<and> hd_Number hdr = uint n \<and> n \<noteq> - 1 \<and> h \<noteq> 0 \<and> ReadHeaderNumber db h = Some n \<and>
        (if n = 0 then h = g else ReadHeader C db (hd_ParentHash hdr) (n - 1) \<noteq> None)) \<and>
     (\<forall>h n. HasHeader db h n \<or> ReadHeaderNumber db h = Some n \<longrightarrow> ReadHeader C db h n \<noteq> None)"

text \<open>The ancestor \<open>k\<close> generations above the header \<open>h\<close> of number \<open>n\<close>, read from the store.\<close>

primrec ancestor :: "'g codec \<Rightarrow> kvdb \<Rightarrow> hash \<Rightarrow> nat \<Rightarrow> nat \<Rightarrow> hash" where
  "ancestor C db h n 0 = h"
| "ancestor C db h n (Suc k) =
     (case ReadHeader C db (ancestor C db h n k) (word_of_nat (n - k)) of None \<Rightarrow> 0 | Some hdr \<Rightarrow> hd_ParentHash hdr)"

definition canonical_chain :: "'g codec \<Rightarrow> kvdb \<Rightarrow> hash \<Rightarrow> nat \<Rightarrow> bool" where
  "canonical_chain C db h n \<longleftrightarrow>
     (\<forall>i < 2 ^ 64. ReadCanonicalHash db (word_of_nat i) = (if i \<le> n then ancestor C db h n (n - i) else 0))"

definition cache_ok :: "'g codec \<Rightarrow> header_chain \<Rightarrow> bool" where
  "cache_ok C hc \<longleftrightarrow>
     (\<forall>h hdr. mget (hc_headerCache hc) h = Some hdr \<longrightarrow> (\<exists>n. ReadHeader C (hc_chainDb hc) h n = Some hdr)) \<and>
     (\<forall>h n. mget (hc_numberCache hc) h = Some n \<longrightarrow> ReadHeaderNumber (hc_chainDb hc) h = Some n)"

definition hc_inv :: "'g chain_env \<Rightarrow> Header \<Rightarrow> header_chain \<Rightarrow> bool" where
  "hc_inv E genesis hc \<longleftrightarrow>
     headers_ok (ce_codec E) (ce_hash E genesis) (hc_chainDb hc) \<and> cache_ok (ce_codec E) hc \<and>
     hc_genesisHeader hc = Some genesis \<and>
     (\<exists>cur. hc_currentHeader hc = Some cur \<and> hc_currentHeaderHash hc = ce_hash E cur \<and>
        ReadHeader (ce_codec E) (hc_chainDb hc) (ce_hash E cur) (hd_num cur) = Some cur \<and>
        ReadHeadHeaderHash (hc_chainDb hc) = ce_hash E cur \<and>
        canonical_chain (ce_codec E) (hc_chainDb hc) (ce_hash E cur) (unat (hd_num cur)))"

section \<open>Reading through the caches\<close>

lemma lru_Get_simps: "fst (lru_Get k c) = mget c k" "mget (snd (lru_Get k c)) = mget c"
  by (auto simp: lru_Get_def fun_eq_iff split: option.splits)

lemma mget_filter_keys: "mget (filter (\<lambda>(k, v). k \<in> S) c) k = (if k \<in> S then mget c k else None)"
  by (induction c) auto

lemma mget_lru_Add: "mget (lru_Add evict limit k v c) k' = Some w \<Longrightarrow> (if k' = k then w = v else mget c k' = Some w)"
  unfolding lru_Add_def Let_def mget_filter_keys by (simp split: if_splits)

text \<open>\<open>cached C hc hc'\<close>: \<open>hc'\<close> is \<open>hc\<close> with other, still faithful, caches.\<close>

definition cached :: "'g codec \<Rightarrow> header_chain \<Rightarrow> header_chain \<Rightarrow> bool" where
  "cached C hc hc' \<longleftrightarrow> cache_ok C hc' \<and> hc' = hc\<lparr>hc_headerCache := hc_headerCache hc', hc_numberCache := hc_numberCache hc'\<rparr>"

lemma cached_simps:
  assumes "cached C hc hc'"
  shows "hc_chainDb hc' = hc_chainDb hc" "hc_genesisHeader hc' = hc_genesisHeader hc" "hc_currentHeader hc' = hc_currentHeader hc"
    "hc_currentHeaderHash hc' = hc_currentHeaderHash hc" "cache_ok C hc'"
proof -
  have "hc' = hc\<lparr>hc_headerCache := hc_headerCache hc', hc_numberCache := hc_numberCache hc'\<rparr>" using assms by (simp add: cached_def)
  then show "hc_chainDb hc' = hc_chainDb hc" "hc_genesisHeader hc' = hc_genesisHeader hc" "hc_currentHeader hc' = hc_currentHeader hc"
    "hc_currentHeaderHash hc' = hc_currentHeaderHash hc"
    by (metis header_chain.select_convs header_chain.surjective header_chain.update_convs(5,6))+
qed (use assms in \<open>simp add: cached_def\<close>)

lemma cached_refl: "cache_ok C hc \<Longrightarrow> cached C hc hc"
  by (simp add: cached_def)

lemma cached_trans: "cached C a b \<Longrightarrow> cached C b c \<Longrightarrow> cached C a c"
  unfolding cached_def by (metis header_chain.surjective header_chain.update_convs(5,6))

lemma hc_inv_cached: "hc_inv E genesis hc \<Longrightarrow> cached (ce_codec E) hc hc' \<Longrightarrow> hc_inv E genesis hc'"
  unfolding hc_inv_def by (simp add: cached_simps)

lemma GetBlockNumber_exact:
  assumes "cache_ok C hc" "C = ce_codec E"
  shows "\<exists>hc'. GetBlockNumber E h hc = (ReadHeaderNumber (hc_chainDb hc) h, hc') \<and> cached C hc hc'"
proof (cases "mget (hc_numberCache hc) h")
  case None
  then have "fst (lru_Get h (hc_numberCache hc)) = None" by (simp add: lru_Get_simps)
  then show ?thesis using assms
    by (cases "lru_Get h (hc_numberCache hc)")
      (auto simp: GetBlockNumber_def cached_def cache_ok_def dest!: mget_lru_Add split: option.splits if_splits)
next
  case (Some n)
  then have n: "ReadHeaderNumber (hc_chainDb hc) h = Some n" using assms(1) by (simp add: cache_ok_def)
  then show ?thesis using assms Some
    by (auto simp: GetBlockNumber_def lru_Get_def cached_def cache_ok_def split: if_splits)
qed

lemma GetHeader_cached:
  assumes "cache_ok C hc" "C = ce_codec E"
  shows "\<exists>hc'. hc_GetHeader E h n hc =
      (if mget (hc_headerCache hc) h = None then ReadHeader C (hc_chainDb hc) h n else mget (hc_headerCache hc) h, hc') \<and> cached C hc hc'"
proof (cases "mget (hc_headerCache hc) h")
  case None
  then have "fst (lru_Get h (hc_headerCache hc)) = None" by (simp add: lru_Get_simps)
  then show ?thesis using assms None
    by (cases "lru_Get h (hc_headerCache hc)")
      (auto simp: hc_GetHeader_def cached_def cache_ok_def dest!: mget_lru_Add split: option.splits if_splits)
next
  case (Some hdr)
  then have "\<exists>n. ReadHeader C (hc_chainDb hc) h n = Some hdr" using assms(1) by (simp add: cache_ok_def)
  then show ?thesis using assms Some
    by (auto simp: hc_GetHeader_def lru_Get_def cached_def cache_ok_def split: if_splits)
qed

lemma headers_okD:
  assumes "headers_ok C g db" "ReadHeader C db h n = Some hdr"
  shows "Header_Hash (cd_crypto C) hdr = h" "hd_Number hdr = uint n" "n \<noteq> - 1" "h \<noteq> 0" "ReadHeaderNumber db h = Some n"
    "hd_num hdr = n" "n = 0 \<Longrightarrow> h = g" "n \<noteq> 0 \<Longrightarrow> \<exists>p. ReadHeader C db (hd_ParentHash hdr) (n - 1) = Some p"
  using assms by (auto simp: headers_ok_def big_Uint64_def split: if_splits)

lemma ReadHeader_HasHeader: "ReadHeader C db h n \<noteq> None \<Longrightarrow> HasHeader db h n"
  by (auto simp: reads split: option.splits)

lemma HasHeader_iff: "headers_ok C g db \<Longrightarrow> HasHeader db h n \<longleftrightarrow> ReadHeader C db h n \<noteq> None"
  using ReadHeader_HasHeader unfolding headers_ok_def by blast

lemma header_unique:
  assumes "headers_ok C g db" "ReadHeader C db h n = Some hdr" "ReadHeader C db h m = Some hdr'"
  shows "m = n" "hdr' = hdr"
proof -
  show "m = n" using headers_okD(5) [OF assms(1,2)] headers_okD(5) [OF assms(1,3)] by simp
  then show "hdr' = hdr" using assms(2,3) by simp
qed

text \<open>A stored header is found through the caches, under its own number.\<close>

lemma GetHeader_stored:
  assumes "headers_ok C g (hc_chainDb hc)" "cache_ok C hc" "C = ce_codec E" "ReadHeader C (hc_chainDb hc) h n = Some hdr"
  obtains hc' where "hc_GetHeader E h n hc = (Some hdr, hc')" "cached C hc hc'"
proof -
  have "mget (hc_headerCache hc) h = None \<or> mget (hc_headerCache hc) h = Some hdr"
  proof (cases "mget (hc_headerCache hc) h")
    case (Some a)
    then obtain m where "ReadHeader C (hc_chainDb hc) h m = Some a" using assms(2) unfolding cache_ok_def by blast
    then show ?thesis using header_unique [OF assms(1,4)] Some by blast
  qed simp
  then show thesis using GetHeader_cached [OF assms(2,3), of h n] assms(4) that by (auto split: if_splits)
qed

lemma GetHeaderByHash_exact:
  assumes "headers_ok C g (hc_chainDb hc)" "cache_ok C hc" "C = ce_codec E"
  shows "\<exists>hc'. hc_GetHeaderByHash E h hc =
      (Option.bind (ReadHeaderNumber (hc_chainDb hc) h) (ReadHeader C (hc_chainDb hc) h), hc') \<and> cached C hc hc'"
proof -
  obtain hc1 where hc1: "GetBlockNumber E h hc = (ReadHeaderNumber (hc_chainDb hc) h, hc1)" "cached C hc hc1"
    using GetBlockNumber_exact [OF assms(2,3)] by blast
  show ?thesis
  proof (cases "ReadHeaderNumber (hc_chainDb hc) h")
    case (Some n)
    then obtain hdr where hdr: "ReadHeader C (hc_chainDb hc) h n = Some hdr" using assms(1) unfolding headers_ok_def by blast
    have "headers_ok C g (hc_chainDb hc1)" "ReadHeader C (hc_chainDb hc1) h n = Some hdr"
      using assms(1) hdr cached_simps(1) [OF hc1(2)] by simp_all
    from this(1) cached_simps(5) [OF hc1(2)] assms(3) this(2) obtain hc2 where
      "hc_GetHeader E h n hc1 = (Some hdr, hc2)" "cached C hc1 hc2" by (rule GetHeader_stored)
    then show ?thesis using hc1 Some hdr cached_trans by (auto simp: hc_GetHeaderByHash_def)
  qed (use hc1 in \<open>simp add: hc_GetHeaderByHash_def\<close>)
qed

section \<open>Ancestors\<close>

lemma num_inject: "m < 2 ^ 64 \<Longrightarrow> n < 2 ^ 64 \<Longrightarrow> (word_of_nat m :: u64) = word_of_nat n \<longleftrightarrow> m = n"
proof -
  assume "m < 2 ^ 64" "n < 2 ^ 64"
  then have "unat (word_of_nat m :: u64) = m" "unat (word_of_nat n :: u64) = n" by (simp_all add: unat_of_nat)
  then show ?thesis by metis
qed

lemma num_minus: "k \<le> n \<Longrightarrow> (word_of_nat (n - k) :: u64) = word_of_nat n - word_of_nat k"
  by (simp add: of_nat_diff)

lemma ancestor_stored:
  assumes "headers_ok C g db" "ReadHeader C db h (word_of_nat n) \<noteq> None" "n < 2 ^ 64" "k \<le> n"
  shows "\<exists>hdr. ReadHeader C db (ancestor C db h n k) (word_of_nat (n - k)) = Some hdr"
  using assms(4)
proof (induction k)
  case (Suc k)
  then obtain hdr where hdr: "ReadHeader C db (ancestor C db h n k) (word_of_nat (n - k)) = Some hdr" by auto
  have "(word_of_nat (n - k) :: u64) \<noteq> 0" using Suc.prems assms(3) num_inject [of "n - k" 0] by simp
  then show ?case using headers_okD(8) [OF assms(1) hdr] hdr Suc.prems by (simp add: of_nat_diff algebra_simps)
qed (use assms(2) in auto)

lemma ancestor_add:
  assumes "j + k \<le> n"
  shows "ancestor C db h n (j + k) = ancestor C db (ancestor C db h n j) (n - j) k"
  using assms by (induction k) (simp_all add: diff_diff_add)

text \<open>Ancestors only depend on the stored headers, and storing more keeps them.\<close>

lemma ancestor_mono:
  assumes "headers_ok C g db" "ReadHeader C db h (word_of_nat n) \<noteq> None" "n < 2 ^ 64" "k \<le> n"
    and sub: "\<And>h n hdr. ReadHeader C db h n = Some hdr \<Longrightarrow> ReadHeader C db' h n = Some hdr"
  shows "ancestor C db' h n k = ancestor C db h n k"
  using assms(4)
proof (induction k)
  case (Suc k)
  then obtain hdr where "ReadHeader C db (ancestor C db h n k) (word_of_nat (n - k)) = Some hdr"
    using ancestor_stored [OF assms(1-3), of k] by auto
  then show ?case using Suc sub by simp
qed simp

lemma ReadHeader_cong: "look db (HeaderK n h) = look db' (HeaderK n h) \<Longrightarrow> ReadHeader C db h n = ReadHeader C db' h n"
  by (simp add: reads)

lemma ancestor_root:
  assumes "headers_ok C g db" "ReadHeader C db h (word_of_nat n) \<noteq> None" "n < 2 ^ 64"
  shows "ancestor C db h n n = g"
  using ancestor_stored [OF assms, of n] headers_okD(7) [OF assms(1)] by auto

lemma canonicalD:
  assumes "canonical_chain C db h n" "i < 2 ^ 64"
  shows "ReadCanonicalHash db (word_of_nat i) = (if i \<le> n then ancestor C db h n (n - i) else 0)"
  using assms by (simp add: canonical_chain_def)

lemma canonical_nonzero:
  assumes "canonical_chain C db h n" "headers_ok C g db" "ReadHeader C db h (word_of_nat n) \<noteq> None" "n < 2 ^ 64" "i < 2 ^ 64"
  shows "ReadCanonicalHash db (word_of_nat i) = 0 \<longleftrightarrow> n < i"
proof (cases "i \<le> n")
  case True
  then show ?thesis using ancestor_stored [OF assms(2-4), of "n - i"] headers_okD(4) [OF assms(2)] canonicalD [OF assms(1,5)] by auto
qed (use canonicalD [OF assms(1,5)] in simp)

text \<open>A header on the canonical chain has its ancestors there.\<close>

lemma canonical_ancestors:
  assumes "canonical_chain C db h n" "m \<le> n" "n < 2 ^ 64" "ReadCanonicalHash db (word_of_nat m) = a" "k \<le> m"
  shows "ReadCanonicalHash db (word_of_nat (m - k)) = ancestor C db a m k"
proof -
  have "a = ancestor C db h n (n - m)" using canonicalD [OF assms(1), of m] assms by simp
  moreover have "ReadCanonicalHash db (word_of_nat (m - k)) = ancestor C db h n (n - m + k)"
  proof -
    have "m - k \<le> n" "n - (m - k) = n - m + k" "m - k < 2 ^ 64" using assms by auto
    then show ?thesis using canonicalD [OF assms(1), of "m - k"] by simp
  qed
  ultimately show ?thesis using ancestor_add [of "n - m" k n C db h] assms by simp
qed

section \<open>The loops over the markers\<close>

lemma delete_above_exact:
  assumes "\<And>i. i < 2 ^ 64 \<Longrightarrow> ReadCanonicalHash db (word_of_nat i) = 0 \<longleftrightarrow> n < i" "Suc n < 2 ^ 64" "m < 2 ^ 64"
  shows "delete_above db (word_of_nat m) = Some (concat (map (\<lambda>i. DeleteCanonicalHash (word_of_nat i)) [m..<Suc n]))"
  using assms(3)
proof (induction "Suc n - m" arbitrary: m)
  case 0
  then show ?case using assms(1) by (simp add: delete_above.simps)
next
  case (Suc d)
  then have "m \<le> n" by simp
  have "word_of_nat m + 1 = (word_of_nat (Suc m) :: u64)" by simp
  moreover have "delete_above db (word_of_nat (Suc m)) = Some (concat (map (\<lambda>i. DeleteCanonicalHash (word_of_nat i)) [Suc m..<Suc n]))"
    using Suc assms(2) by (intro Suc.hyps(1)) auto
  ultimately show ?case using assms(1) [of m] Suc.prems \<open>m \<le> n\<close>
    by (subst delete_above.simps) (simp add: upt_rec [of m] del: upt_Suc of_nat_Suc)
qed

lemma num_eq_iff: "n < 2 ^ 64 \<Longrightarrow> m = (word_of_nat n :: u64) \<longleftrightarrow> unat m = n"
  using num_inject [of "unat m" n] unsigned_less [of m, where 'a = nat] by auto

lemma look_delete_above:
  "look (db_write (concat (map (\<lambda>i. DeleteCanonicalHash (word_of_nat i)) is)) db) k =
     (case k of CanonicalK m \<Rightarrow> if m \<in> word_of_nat ` set is then None else look db k | _ \<Rightarrow> look db k)"
  by (induction "is" arbitrary: db) (auto split: db_key.splits)

lemma look_overwrite:
  assumes "n < 2 ^ 64" "k \<le> Suc n"
  shows "look (db_write (concat (map (\<lambda>j. WriteCanonicalHash (a j) (word_of_nat (n - j))) [0..<k])) db) x =
     (case x of CanonicalK m \<Rightarrow> if unat m \<le> n \<and> n - unat m < k then Some (be_bytes 32 (a (n - unat m))) else look db x | _ \<Rightarrow> look db x)"
  using assms(2)
proof (induction k)
  case (Suc k)
  let ?w = "\<lambda>k. look (db_write (concat (map (\<lambda>j. WriteCanonicalHash (a j) (word_of_nat (n - j))) [0..<k])) db)"
  have w: "?w (Suc k) x = (if x = CanonicalK (word_of_nat (n - k)) then Some (be_bytes 32 (a k)) else ?w k x)" by simp
  have key: "m = word_of_nat (n - k) \<longleftrightarrow> unat m = n - k" for m :: u64 using num_eq_iff [of "n - k" m] assms(1) by simp
  show ?case
  proof (cases x)
    case (CanonicalK m)
    have less: "unat m \<le> n \<and> n - unat m < Suc k \<longleftrightarrow> unat m = n - k \<or> unat m \<le> n \<and> n - unat m < k" using Suc.prems by auto
    have nk: "n - (n - k) = k" using Suc.prems by simp
    have ih: "?w k (CanonicalK m) = (if unat m \<le> n \<and> n - unat m < k then Some (be_bytes 32 (a (n - unat m))) else look db (CanonicalK m))"
      using Suc.IH Suc.prems unfolding CanonicalK by simp
    show ?thesis unfolding w unfolding CanonicalK db_key.case db_key.inject key less ih by (simp add: nk, blast)
  qed (unfold w, use Suc in simp_all)
qed (simp split: db_key.splits)

lemma overwrite_stale_exact:
  assumes "headers_ok C g (hc_chainDb hc)" "ReadCanonicalHash (hc_chainDb hc) 0 = g" "cache_ok C hc" "C = ce_codec E"
    and "ReadHeader C (hc_chainDb hc) h (word_of_nat n) = Some hdr" "n < 2 ^ 64"
  shows "\<exists>k \<le> n. \<exists>hc'. overwrite_stale E h (word_of_nat n) (Some hdr) hc =
      Some (concat (map (\<lambda>j. WriteCanonicalHash (ancestor C (hc_chainDb hc) h n j) (word_of_nat (n - j))) [0..<k]), hc') \<and>
    cached C hc hc' \<and> ReadCanonicalHash (hc_chainDb hc) (word_of_nat (n - k)) = ancestor C (hc_chainDb hc) h n k"
  using assms(1-3,5,6)
proof (induction n arbitrary: h hdr hc)
  case 0
  then have "h = g" using headers_okD(7) by fastforce
  then show ?case using 0 by (simp add: overwrite_stale.simps cached_refl)
next
  case (Suc n)
  let ?db = "hc_chainDb hc" and ?p = "hd_ParentHash hdr"
  show ?case
  proof (cases "ReadCanonicalHash ?db (word_of_nat (Suc n)) = h")
    case True
    then show ?thesis using Suc.prems by (intro exI [of _ 0]) (simp add: overwrite_stale.simps cached_refl)
  next
    case False
    have num: "hd_num hdr - 1 = word_of_nat n" using headers_okD(6) [OF Suc.prems(1,4)] by simp
    have "(word_of_nat (Suc n) :: u64) \<noteq> 0" using num_inject [of "Suc n" 0] Suc.prems(5) by simp
    then obtain pr where pr: "ReadHeader C ?db ?p (word_of_nat n) = Some pr" using headers_okD(8) [OF Suc.prems(1,4)] by auto
    obtain hc1 where hc1: "hc_GetHeader E ?p (word_of_nat n) hc = (Some pr, hc1)" "cached C hc hc1"
      using Suc.prems(1,3) assms(4) pr by (rule GetHeader_stored)
    note db1 = cached_simps(1) [OF hc1(2)]
    obtain k hc2 where k: "k \<le> n" "overwrite_stale E ?p (word_of_nat n) (Some pr) hc1 =
        Some (concat (map (\<lambda>j. WriteCanonicalHash (ancestor C ?db ?p n j) (word_of_nat (n - j))) [0..<k]), hc2)" "cached C hc1 hc2"
        "ReadCanonicalHash ?db (word_of_nat (n - k)) = ancestor C ?db ?p n k"
      using Suc.IH [of hc1 ?p pr] Suc.prems(1,2,5) pr cached_simps(5) [OF hc1(2)] db1 by auto
    have anc: "ancestor C ?db h (Suc n) (Suc j) = ancestor C ?db ?p n j" if "j \<le> n" for j
      using ancestor_add [of 1 j "Suc n" C ?db h] that Suc.prems(4) by simp
    have "overwrite_stale E h (word_of_nat (Suc n)) (Some hdr) hc =
        Some (WriteCanonicalHash h (word_of_nat (Suc n)) @ concat (map (\<lambda>j. WriteCanonicalHash (ancestor C ?db ?p n j) (word_of_nat (n - j))) [0..<k]), hc2)"
      using False hc1(1) k(2) num by (subst overwrite_stale.simps) (simp add: Let_def del: of_nat_Suc)
    also have "WriteCanonicalHash h (word_of_nat (Suc n)) @ concat (map (\<lambda>j. WriteCanonicalHash (ancestor C ?db ?p n j) (word_of_nat (n - j))) [0..<k]) =
        concat (map (\<lambda>j. WriteCanonicalHash (ancestor C ?db h (Suc n) j) (word_of_nat (Suc n - j))) [0..<Suc k])"
    proof -
      have "map (\<lambda>j. WriteCanonicalHash (ancestor C ?db ?p n j) (word_of_nat (n - j))) [0..<k] =
          map (\<lambda>j. WriteCanonicalHash (ancestor C ?db h (Suc n) (Suc j)) (word_of_nat (Suc n - Suc j))) [0..<k]"
        using k(1) anc by (intro map_cong) (simp_all del: ancestor.simps)
      moreover have "[0..<Suc k] = 0 # map Suc [0..<k]" by (simp add: upt_conv_Cons map_Suc_upt del: upt_Suc)
      ultimately show ?thesis by (simp only: list.map map_map comp_def concat.simps ancestor.simps(1) diff_zero)
    qed
    finally have "overwrite_stale E h (word_of_nat (Suc n)) (Some hdr) hc =
        Some (concat (map (\<lambda>j. WriteCanonicalHash (ancestor C ?db h (Suc n) j) (word_of_nat (Suc n - j))) [0..<Suc k]), hc2)" .
    moreover have "ReadCanonicalHash ?db (word_of_nat (Suc n - Suc k)) = ancestor C ?db h (Suc n) (Suc k)"
      using k(4) anc [OF k(1)] by (simp del: ancestor.simps)
    moreover have "Suc k \<le> Suc n" using k(1) by simp
    ultimately show ?thesis using cached_trans [OF hc1(2) k(3)] by blast
  qed
qed

section \<open>Frames\<close>

text \<open>Stores with the same headers: all the invariants but the canonical hashes carry over.\<close>

definition same_headers :: "kvdb \<Rightarrow> kvdb \<Rightarrow> bool" where
  "same_headers db db' \<longleftrightarrow> gomap_ok db' \<and> (\<forall>n h. look db' (HeaderK n h) = look db (HeaderK n h)) \<and> (\<forall>h. look db' (NumberK h) = look db (NumberK h))"

lemma same_headersD:
  assumes "same_headers db db'"
  shows "ReadHeader C db' = ReadHeader C db" "ReadHeaderNumber db' = ReadHeaderNumber db" "HasHeader db' = HasHeader db"
    "headers_ok C g db \<Longrightarrow> headers_ok C g db'" "ancestor C db' h n k = ancestor C db h n k"
proof -
  show r: "ReadHeader C db' = ReadHeader C db" "ReadHeaderNumber db' = ReadHeaderNumber db" "HasHeader db' = HasHeader db"
    using assms by (simp_all add: same_headers_def reads fun_eq_iff)
  show "headers_ok C g db \<Longrightarrow> headers_ok C g db'" using assms unfolding headers_ok_def r by (simp add: same_headers_def)
  show "ancestor C db' h n k = ancestor C db h n k" by (induction k) (simp_all add: r)
qed

lemma cache_ok_same: "same_headers (hc_chainDb hc) (hc_chainDb hc') \<Longrightarrow> cache_ok C hc \<Longrightarrow>
    hc_headerCache hc' = hc_headerCache hc \<Longrightarrow> hc_numberCache hc' = hc_numberCache hc \<Longrightarrow> cache_ok C hc'"
  unfolding cache_ok_def by (simp add: same_headersD)

text \<open>A header that can be stored: encodable, with a stored parent, and no other header of its hash.\<close>

definition linkable :: "'g chain_env \<Rightarrow> kvdb \<Rightarrow> Header \<Rightarrow> bool" where
  "linkable E db header \<longleftrightarrow>
     cd_header (ce_codec E) (cr_rlp (cd_crypto (ce_codec E)) (Header_rlp header)) = Some header \<and>
     cr_rlp (cd_crypto (ce_codec E)) (Header_rlp header) \<noteq> [] \<and> ce_hash E header \<noteq> 0 \<and>
     0 < hd_Number header \<and> hd_Number header < 2 ^ 64 - 1 \<and>
     ReadHeader (ce_codec E) db (hd_ParentHash header) (hd_num header - 1) \<noteq> None \<and>
     (\<forall>m hdr. ReadHeader (ce_codec E) db (ce_hash E header) m = Some hdr \<longrightarrow> hdr = header)"

lemma number_range64:
  assumes "0 < x" "x < 2 ^ 64 - 1"
  shows "uint (big_Uint64 x) = x" "big_Uint64 x \<noteq> 0" "big_Uint64 x \<noteq> - 1"
proof -
  show u: "uint (big_Uint64 x) = x" using assms by (intro big_Uint64_small) auto
  then show "big_Uint64 x \<noteq> 0" using assms(1) by auto
  show "big_Uint64 x \<noteq> - 1"
  proof
    assume "big_Uint64 x = - 1"
    then have "x = uint (- 1 :: u64)" using u by simp
    then show False using assms(2) by (simp add: unsigned_minus_1_eq_mask mask_eq_exp_minus_1)
  qed
qed

lemma store_header:
  assumes "headers_ok (ce_codec E) g db" "linkable E db header" "db' = db_write (WriteHeader (ce_codec E) header) db"
  shows "ReadHeader (ce_codec E) db' h n =
      (if h = ce_hash E header \<and> n = hd_num header then Some header else ReadHeader (ce_codec E) db h n)"
    "ReadHeaderNumber db' h = (if h = ce_hash E header then Some (hd_num header) else ReadHeaderNumber db h)"
    "ReadHeader (ce_codec E) db h n = Some hdr \<Longrightarrow> ReadHeader (ce_codec E) db' h n = Some hdr"
    "headers_ok (ce_codec E) g db'" "ReadCanonicalHash db' n = ReadCanonicalHash db n" "ReadHeadHeaderHash db' = ReadHeadHeaderHash db"
proof -
  let ?C = "ce_codec E" and ?h = "ce_hash E header" and ?n = "hd_num header"
  note [simp] = look_WriteHeader
  have rd: "ReadHeader ?C db' h n = (if h = ?h \<and> n = ?n then Some header else ReadHeader ?C db h n)" for h n
    using assms(2) unfolding assms(3) linkable_def by (auto simp: reads)
  have rn: "ReadHeaderNumber db' h = (if h = ?h then Some ?n else ReadHeaderNumber db h)" for h
    unfolding assms(3) by (auto simp: reads)
  have hh: "HasHeader db' h n = (h = ?h \<and> n = ?n \<or> HasHeader db h n)" for h n unfolding assms(3) by (auto simp: reads)
  note num = number_range64 [of "hd_Number header"]
  have at: "m = ?n" if "ReadHeader ?C db ?h m = Some hdr" for m hdr
    using that assms(2) headers_okD(6) [OF assms(1) that] by (auto simp: linkable_def)
  have sub: "ReadHeader ?C db' h n = Some hdr" if "ReadHeader ?C db h n = Some hdr" for h n hdr
    using that assms(2) unfolding rd by (auto simp: linkable_def)
  have ex: "ReadHeader ?C db' h n \<noteq> None" if "ReadHeader ?C db h n \<noteq> None" for h n using that sub by blast
  show "ReadHeader ?C db' h n = (if h = ?h \<and> n = ?n then Some header else ReadHeader ?C db h n)"
    "ReadHeaderNumber db' h = (if h = ?h then Some ?n else ReadHeaderNumber db h)" by (rule rd, rule rn)
  show "ReadHeader ?C db h n = Some hdr \<Longrightarrow> ReadHeader ?C db' h n = Some hdr" by (rule sub)
  show "ReadCanonicalHash db' n = ReadCanonicalHash db n" "ReadHeadHeaderHash db' = ReadHeadHeaderHash db"
    unfolding assms(3) by (simp_all add: reads)
  show "headers_ok ?C g db'"
    unfolding headers_ok_def
  proof (intro conjI allI impI)
    show "gomap_ok db'" using assms(1) unfolding assms(3) by (simp add: headers_ok_def)
    fix h n
    show "ReadHeader ?C db' h n \<noteq> None" if "HasHeader db' h n \<or> ReadHeaderNumber db' h = Some n"
      using that assms(1) unfolding rd rn hh headers_ok_def by (auto split: if_splits)
    fix hdr assume *: "ReadHeader ?C db' h n = Some hdr"
    have **: "h = ?h \<and> n = ?n \<and> hdr = header \<or> h \<noteq> ?h \<and> ReadHeader ?C db h n = Some hdr"
      using * at unfolding rd by (auto split: if_splits)
    have link: "ReadHeader ?C db (hd_ParentHash header) (?n - 1) \<noteq> None" "0 < hd_Number header" "hd_Number header < 2 ^ 64 - 1" "?h \<noteq> 0"
      using assms(2) by (simp_all add: linkable_def)
    from ** have "Header_Hash (cd_crypto ?C) hdr = h \<and> hd_Number hdr = uint n \<and> n \<noteq> - 1 \<and> h \<noteq> 0 \<and> ReadHeaderNumber db' h = Some n"
    proof
      assume "h = ?h \<and> n = ?n \<and> hdr = header"
      then show ?thesis using num [OF link(2,3)] link(4) by (simp add: rn)
    next
      assume old: "h \<noteq> ?h \<and> ReadHeader ?C db h n = Some hdr"
      from headers_okD(1-5) [OF assms(1) old [THEN conjunct2]] old show ?thesis by (simp add: rn)
    qed
    then show "Header_Hash (cd_crypto ?C) hdr = h" "hd_Number hdr = uint n" "n \<noteq> - 1" "h \<noteq> 0" "ReadHeaderNumber db' h = Some n"
      by simp_all
    from ** show "if n = 0 then h = g else ReadHeader ?C db' (hd_ParentHash hdr) (n - 1) \<noteq> None"
    proof
      assume "h \<noteq> ?h \<and> ReadHeader ?C db h n = Some hdr"
      then show ?thesis using headers_okD(7,8) [OF assms(1), of h n hdr] ex by (cases "n = 0") fastforce+
    qed (use num(2) link ex in auto)
  qed
qed

section \<open>Writing a header\<close>

text \<open>The batch of markers for the header \<open>h\<close> of number \<open>Suc n\<close> whose ancestor \<open>k\<close> generations above its parent is canonical.\<close>

definition marker_batch :: "'g codec \<Rightarrow> kvdb \<Rightarrow> hash \<Rightarrow> hash \<Rightarrow> nat \<Rightarrow> nat \<Rightarrow> nat \<Rightarrow> db_op list" where
  "marker_batch C db h p n hi k =
     concat (map (\<lambda>i. DeleteCanonicalHash (word_of_nat i)) [Suc (Suc n)..<Suc hi]) @
     concat (map (\<lambda>j. WriteCanonicalHash (ancestor C db p n j) (word_of_nat (n - j))) [0..<k]) @
     WriteCanonicalHash h (word_of_nat (Suc n)) @ WriteHeadHeaderHash h"

lemma look_marker_batch:
  assumes "Suc n < 2 ^ 64" "k \<le> n" "hi < 2 ^ 64"
  shows "look (db_write (marker_batch C db h p n hi k) db) x =
    (case x of
       CanonicalK m \<Rightarrow>
         if unat m = Suc n then Some (be_bytes 32 h)
         else if unat m \<le> n \<and> n - unat m < k then Some (be_bytes 32 (ancestor C db p n (n - unat m)))
         else if Suc n < unat m \<and> unat m \<le> hi then None else look db x
     | HeadHeaderK \<Rightarrow> Some (be_bytes 32 h)
     | _ \<Rightarrow> look db x)"
proof (cases x)
  case (CanonicalK m)
  have lt: "n < 2 ^ 64" "k \<le> Suc n" using assms by simp_all
  have a: "m = word_of_nat (Suc n) \<longleftrightarrow> unat m = Suc n" using num_eq_iff [OF assms(1)] .
  have b: "m \<in> word_of_nat ` set [Suc (Suc n)..<Suc hi] \<longleftrightarrow> Suc n < unat m \<and> unat m \<le> hi"
  proof
    assume "m \<in> word_of_nat ` set [Suc (Suc n)..<Suc hi]"
    then obtain i where "m = word_of_nat i" "Suc n < i" "i \<le> hi" by auto
    then show "Suc n < unat m \<and> unat m \<le> hi" using num_eq_iff [of i m] assms(3) by simp
  next
    assume "Suc n < unat m \<and> unat m \<le> hi"
    then have "unat m \<in> set [Suc (Suc n)..<Suc hi]" by (simp add: less_Suc_eq_le del: upt_Suc)
    then show "m \<in> word_of_nat ` set [Suc (Suc n)..<Suc hi]" by (rule rev_image_eqI) simp
  qed
  show ?thesis
    unfolding CanonicalK marker_batch_def db_write_simps look_writes fun_upd_apply db_key.inject db_key.distinct a
      look_overwrite [OF lt] look_delete_above b db_key.case if_False by simp
qed (use assms(1,2) in \<open>simp_all add: marker_batch_def look_overwrite [of n k] look_delete_above del: upt_Suc\<close>)

lemma canonical_after_markers:
  assumes "headers_ok C g db" "canonical_chain C db h0 hi" "ReadHeader C db h0 (word_of_nat hi) \<noteq> None" "hi < 2 ^ 64"
    and "ReadHeader C db h (word_of_nat (Suc n)) = Some header" "hd_ParentHash header = p" "Suc n < 2 ^ 64"
    and "k \<le> n" "ReadCanonicalHash db (word_of_nat (n - k)) = ancestor C db p n k"
    and "db' = db_write (marker_batch C db h p n hi k) db"
  shows "same_headers db db'" "canonical_chain C db' h (Suc n)" "ReadHeadHeaderHash db' = h"
proof -
  note l = look_marker_batch [OF assms(7,8,4), of C db h p, folded assms(10)]
  have ok: "gomap_ok db" using assms(1) by (simp add: headers_ok_def)
  show sh: "same_headers db db'" unfolding same_headers_def by (simp add: l) (simp add: assms(10) ok)
  show "ReadHeadHeaderHash db' = h" by (simp add: reads l)
  have "(word_of_nat (Suc n) :: u64) \<noteq> 0" using num_inject [of "Suc n" 0] assms(7) by simp
  then have p: "ReadHeader C db p (word_of_nat n) \<noteq> None" using headers_okD(8) [OF assms(1,5)] assms(6) by auto
  have n: "n < 2 ^ 64" using assms(7) by simp
  have anc: "ancestor C db h (Suc n) (Suc j) = ancestor C db p n j" if "j \<le> n" for j
    using ancestor_add [of 1 j "Suc n" C db h] that assms(5,6) by simp
  have "ancestor C db p n k \<noteq> 0" using ancestor_stored [OF assms(1) p n assms(8)] headers_okD(4) [OF assms(1)] by blast
  moreover have "n - k < 2 ^ 64" using n by simp
  ultimately have hi: "n - k \<le> hi" using canonical_nonzero [OF assms(2,1,3,4), of "n - k"] assms(9) by (simp add: not_less)
  have low: "ReadCanonicalHash db (word_of_nat i) = ancestor C db p n (n - i)" if "i \<le> n - k" for i
  proof -
    have "n - k - (n - k - i) = i" "k + (n - k - i) = n - i" using that assms(8) by simp_all
    then show ?thesis using canonical_ancestors [OF assms(2) hi assms(4,9), of "n - k - i"] ancestor_add [of k "n - k - i" n C db p] assms(8) by simp
  qed
  show "canonical_chain C db' h (Suc n)"
    unfolding canonical_chain_def same_headersD(5) [OF sh]
  proof (intro allI impI)
    fix i :: nat assume i: "i < 2 ^ 64"
    have u: "unat (word_of_nat i :: u64) = i" using num_eq_iff [OF i] by blast
    have c: "ReadCanonicalHash db' (word_of_nat i) =
      hash_record (if i = Suc n then Some (be_bytes 32 h) else if i \<le> n \<and> n - i < k then Some (be_bytes 32 (ancestor C db p n (n - i)))
        else if Suc n < i \<and> i \<le> hi then None else look db (CanonicalK (word_of_nat i)))"
      unfolding reads l by (simp add: u)
    have old: "hash_record (look db (CanonicalK (word_of_nat i))) = ReadCanonicalHash db (word_of_nat i)" by (simp add: reads)
    consider "i = Suc n" | "i \<le> n" "n - i < k" | "i \<le> n - k" | "Suc n < i" using assms(8) by linarith
    then show "ReadCanonicalHash db' (word_of_nat i) = (if i \<le> Suc n then ancestor C db h (Suc n) (Suc n - i) else 0)"
    proof cases
      case 2
      then have "Suc n - i = Suc (n - i)" by simp
      then show ?thesis unfolding c using 2 anc [of "n - i"] by (simp del: ancestor.simps)
    next
      case 3
      then have "Suc n - i = Suc (n - i)" "\<not> n - i < k" "i \<le> n" using assms(8) by auto
      then show ?thesis unfolding c using 3 anc [of "n - i"] old low [OF 3] by (simp del: ancestor.simps)
    next
      case 4
      then show ?thesis unfolding c using canonical_nonzero [OF assms(2,1,3,4) i] old by auto
    qed (unfold c, simp)
  qed
qed

lemma stored_number_bound:
  assumes "headers_ok C g db" "ReadHeader C db h n \<noteq> None"
  shows "Suc (unat n) < 2 ^ 64"
proof -
  have "n \<noteq> - 1" using assms headers_okD(3) by blast
  then have "unat n \<noteq> unat (- 1 :: u64)" by (metis unsigned_word_eqI)
  moreover have "unat (- 1 :: u64) = 2 ^ 64 - 1" by (simp add: unsigned_minus_1_eq_mask mask_eq_exp_minus_1)
  moreover have "unat n < 2 ^ 64" using unsigned_less [of n, where 'a = nat] by simp
  ultimately show ?thesis by simp
qed

lemma write_canonical_ok:
  assumes "headers_ok C g (hc_chainDb hc)" "cache_ok C hc" "C = ce_codec E"
    and "canonical_chain C (hc_chainDb hc) h0 (unat tn)" "ReadHeader C (hc_chainDb hc) h0 tn \<noteq> None"
    and "ReadHeader C (hc_chainDb hc) (ce_hash E header) (hd_num header) = Some header" "hd_num header \<noteq> 0"
  shows "\<exists>hc'. write_canonical E header hc = Some hc' \<and> same_headers (hc_chainDb hc) (hc_chainDb hc') \<and> cache_ok C hc' \<and>
    canonical_chain C (hc_chainDb hc') (ce_hash E header) (unat (hd_num header)) \<and> ReadHeadHeaderHash (hc_chainDb hc') = ce_hash E header \<and>
    hc_currentHeader hc' = Some header \<and> hc_currentHeaderHash hc' = ce_hash E header \<and> hc_genesisHeader hc' = hc_genesisHeader hc"
proof -
  let ?db = "hc_chainDb hc" and ?h = "ce_hash E header" and ?p = "hd_ParentHash header"
  define hi where "hi = unat tn"
  obtain n where n: "unat (hd_num header) = Suc n" using assms(7) by (metis not0_implies_Suc unat_eq_zero)
  then have num: "hd_num header = word_of_nat (Suc n)" using num_eq_iff [of "Suc n" "hd_num header"] unsigned_less [of "hd_num header", where 'a = nat] by simp
  have hi: "Suc hi < 2 ^ 64" "tn = word_of_nat hi" using stored_number_bound [OF assms(1,5)] by (simp_all add: hi_def)
  have sn: "Suc (Suc n) < 2 ^ 64" using stored_number_bound [OF assms(1), of ?h "hd_num header"] assms(6) n by simp
  note canon = assms(4) [folded hi_def] and stored = assms(5) [unfolded hi(2)]
  have del: "delete_above ?db (word_of_nat (Suc (Suc n))) = Some (concat (map (\<lambda>i. DeleteCanonicalHash (word_of_nat i)) [Suc (Suc n)..<Suc hi]))"
    using canonical_nonzero [OF canon assms(1) stored] hi(1) sn by (intro delete_above_exact) auto
  have zero: "ReadCanonicalHash ?db 0 = g" using canonicalD [OF canon, of 0] ancestor_root [OF assms(1) stored] hi(1) by simp
  obtain pr where pr: "ReadHeader C ?db ?p (word_of_nat n) = Some pr"
    using headers_okD(8) [OF assms(1,6,7)] num by auto
  obtain hc1 where hc1: "hc_GetHeader E ?p (word_of_nat n) hc = (Some pr, hc1)" "cached C hc hc1"
    using assms(1-3) pr by (rule GetHeader_stored)
  note db1 = cached_simps [OF hc1(2)]
  obtain k hc2 where k: "k \<le> n" "overwrite_stale E ?p (word_of_nat n) (Some pr) hc1 =
      Some (concat (map (\<lambda>j. WriteCanonicalHash (ancestor C ?db ?p n j) (word_of_nat (n - j))) [0..<k]), hc2)" "cached C hc1 hc2"
      "ReadCanonicalHash ?db (word_of_nat (n - k)) = ancestor C ?db ?p n k"
    using overwrite_stale_exact [of C g hc1 E ?p n pr] assms(1,3) zero pr sn db1 by auto
  note db2 = cached_simps [OF k(3)]
  define db' where "db' = db_write (marker_batch C ?db ?h ?p n hi k) ?db"
  let ?hc = "hc2\<lparr>hc_chainDb := db', hc_currentHeaderHash := ?h, hc_currentHeader := Some header\<rparr>"
  have nums: "hd_num header + 1 = word_of_nat (Suc (Suc n))" "hd_num header - 1 = word_of_nat n" using num by simp_all
  have res: "write_canonical E header hc = Some ?hc"
    unfolding write_canonical_def Let_def nums del hc1(1) prod.case bind.bind_lunit k(2) db'_def marker_batch_def
    using num db1(1) db2(1) by simp
  have "hi < 2 ^ 64" "Suc n < 2 ^ 64" "ReadHeader C ?db ?h (word_of_nat (Suc n)) = Some header" using hi(1) sn assms(6) num by simp_all
  note m = canonical_after_markers [OF assms(1) canon stored this(1,3) refl this(2) k(1,4) db'_def]
  have "cache_ok C ?hc" using cache_ok_same [of hc2 ?hc C] db2(1,5) db1(1) m(1) by simp
  then show ?thesis using res m n db1 db2 by simp
qed

text \<open>Storing a header keeps the caches and the canonical chain.\<close>

lemma store_header_frame:
  assumes "headers_ok C g (hc_chainDb hc)" "linkable E (hc_chainDb hc) header" "C = ce_codec E" "cache_ok C hc"
    and "canonical_chain C (hc_chainDb hc) h (unat n)" "ReadHeader C (hc_chainDb hc) h n \<noteq> None"
    and "db' = db_write (WriteHeader C header) (hc_chainDb hc)"
  shows "cache_ok C (hc\<lparr>hc_chainDb := db'\<rparr>)" "canonical_chain C db' h (unat n)"
proof -
  let ?db = "hc_chainDb hc"
  note w = store_header [OF assms(1,2) [unfolded assms(3)], OF assms(7) [unfolded assms(3)], folded assms(3)]
  have num: "ReadHeaderNumber db' h = Some m" if m: "ReadHeaderNumber ?db h = Some m" for h m
  proof -
    obtain hdr where hdr: "ReadHeader C ?db h m = Some hdr" using assms(1) m unfolding headers_ok_def by blast
    have "hdr = header" if "h = ce_hash E header" using assms(2) hdr that unfolding linkable_def assms(3) by blast
    then show ?thesis using headers_okD(6) [OF assms(1) hdr] m w(2) [of h] by (cases "h = ce_hash E header") (simp_all add: assms(3))
  qed
  show "cache_ok C (hc\<lparr>hc_chainDb := db'\<rparr>)" using assms(4) w(3) num unfolding cache_ok_def by simp blast
  have "unat n < 2 ^ 64" using unsigned_less [of n, where 'a = nat] by simp
  then have "ancestor C db' h (unat n) k = ancestor C ?db h (unat n) k" if "k \<le> unat n" for k
    using ancestor_mono [OF assms(1), of h "unat n" k db'] assms(6) that w(3) by simp
  then show "canonical_chain C db' h (unat n)" using assms(5) unfolding canonical_chain_def w(5) by simp
qed

lemma cache_ok_add:
  assumes "cache_ok C hc" "ReadHeader C (hc_chainDb hc) h n = Some header" "ReadHeaderNumber (hc_chainDb hc) h = Some n"
  shows "cache_ok C (hc\<lparr>hc_headerCache := lru_Add ev l h header (hc_headerCache hc), hc_numberCache := lru_Add ev l' h n (hc_numberCache hc)\<rparr>)"
  using assms unfolding cache_ok_def by (auto dest!: mget_lru_Add split: if_splits)

lemma hc_WriteHeader_ok:
  assumes "hc_inv E genesis hc" "linkable E (hc_chainDb hc) header" "hc_currentHeader hc = Some cur"
  shows "\<exists>hc'. hc_WriteHeader E coin header hc = Some (if hd_num header \<noteq> hd_num cur \<or> coin then CanonStatTy else SideStatTy, hc') \<and>
    hc_inv E genesis hc' \<and> hc_currentHeader hc' = Some (if hd_num header \<noteq> hd_num cur \<or> coin then header else cur) \<and>
    (\<forall>h n. ReadHeader (ce_codec E) (hc_chainDb hc') h n =
      (if h = ce_hash E header \<and> n = hd_num header then Some header else ReadHeader (ce_codec E) (hc_chainDb hc) h n))"
proof -
  let ?C = "ce_codec E" and ?g = "ce_hash E genesis" and ?h = "ce_hash E header" and ?n = "hd_num header"
  define hc1 where "hc1 = hc\<lparr>hc_chainDb := db_write (WriteHeader ?C header) (hc_chainDb hc)\<rparr>"
  have inv: "headers_ok ?C ?g (hc_chainDb hc)" "cache_ok ?C hc" "hc_genesisHeader hc = Some genesis" "hc_currentHeaderHash hc = ce_hash E cur"
    "ReadHeader ?C (hc_chainDb hc) (ce_hash E cur) (hd_num cur) = Some cur" "ReadHeadHeaderHash (hc_chainDb hc) = ce_hash E cur"
    "canonical_chain ?C (hc_chainDb hc) (ce_hash E cur) (unat (hd_num cur))"
    using assms(1,3) by (auto simp: hc_inv_def)
  have db1: "hc_chainDb hc1 = db_write (WriteHeader ?C header) (hc_chainDb hc)" by (simp add: hc1_def)
  note w = store_header [OF inv(1) assms(2) db1]
  have old: "ReadHeader ?C (hc_chainDb hc) (ce_hash E cur) (hd_num cur) \<noteq> None" using inv(5) by simp
  note f = store_header_frame [OF inv(1) assms(2) refl inv(2,7) old db1]
  have cache1: "cache_ok ?C hc1" using f(1) by (simp add: hc1_def)
  have cur1: "ReadHeader ?C (hc_chainDb hc1) (ce_hash E cur) (hd_num cur) = Some cur" using w(3) inv(5) by blast
  have new: "ReadHeader ?C (hc_chainDb hc1) ?h ?n = Some header" "?n \<noteq> 0"
    using w(1) [of ?h ?n] assms(2) number_range64(2) by (auto simp: linkable_def)
  define reorg where "reorg \<longleftrightarrow> ?n \<noteq> hd_num cur \<or> coin"
  obtain hc2 where hc2: "(if reorg then write_canonical E header hc1 else Some hc1) = Some hc2" "hc_inv E genesis hc2"
    "hc_currentHeader hc2 = Some (if reorg then header else cur)" "ReadHeader ?C (hc_chainDb hc2) = ReadHeader ?C (hc_chainDb hc1)"
  proof (cases reorg)
    case True
    obtain hc2 where hc2: "write_canonical E header hc1 = Some hc2" "same_headers (hc_chainDb hc1) (hc_chainDb hc2)" "cache_ok ?C hc2"
      "canonical_chain ?C (hc_chainDb hc2) ?h (unat ?n)" "ReadHeadHeaderHash (hc_chainDb hc2) = ?h"
      "hc_currentHeader hc2 = Some header" "hc_currentHeaderHash hc2 = ?h" "hc_genesisHeader hc2 = Some genesis"
      using write_canonical_ok [OF w(4) cache1 refl f(2) _ new] cur1 inv(3) by (auto simp: hc1_def)
    then have "hc_inv E genesis hc2" using same_headersD(1,4) [OF hc2(2), of ?C] w(4) new(1) by (simp add: hc_inv_def)
    then show thesis using that [of hc2] True hc2(1,6) same_headersD(1) [OF hc2(2), of ?C] by simp
  next
    case False
    have "hc_inv E genesis hc1" using w(4,6) cache1 inv f(2) cur1 assms(3) by (simp add: hc_inv_def hc1_def)
    then show thesis using that [of hc1] False assms(3) by (simp add: hc1_def)
  qed
  let ?hc = "hc2\<lparr>hc_headerCache := lru_Add (ce_evict E) headerCacheLimit ?h header (hc_headerCache hc2),
    hc_numberCache := lru_Add (ce_evict E) numberCacheLimit ?h ?n (hc_numberCache hc2)\<rparr>"
  have new2: "ReadHeader ?C (hc_chainDb hc2) ?h ?n = Some header" using hc2(4) new(1) by simp
  have ok2: "headers_ok ?C ?g (hc_chainDb hc2)" "cache_ok ?C hc2" using hc2(2) by (simp_all add: hc_inv_def)
  have "cached ?C hc2 ?hc" using cache_ok_add [OF ok2(2) new2 headers_okD(5) [OF ok2(1) new2]] by (simp add: cached_def)
  then have "hc_inv E genesis ?hc" using hc_inv_cached [OF hc2(2)] by blast
  moreover have "?n > hd_num cur \<or> ?n < hd_num cur \<or> (?n = hd_num cur \<and> coin) \<longleftrightarrow> reorg" unfolding reorg_def by (metis linorder_neq_iff)
  then have "hc_WriteHeader E coin header hc = Some (if reorg then CanonStatTy else SideStatTy, ?hc)"
    using hc2(1) assms(3) unfolding hc_WriteHeader_def hc_CurrentHeader_def Let_def by (cases reorg) (auto simp: hc1_def)
  ultimately show ?thesis using hc2(3,4) w(1) unfolding reorg_def by simp
qed

text \<open>
  C31: Writing a header whose parent is stored always returns, and it keeps the header chain consistent:
  afterwards the canonical hashes are again exactly the ancestors of the current header. The header
  becomes current unless it has the number of the current header and loses the draw, also when its
  number is lower.
\<close>

theorem write_header_canonical:
  assumes "hc_inv E genesis hc" "linkable E (hc_chainDb hc) header" "hc_currentHeader hc = Some cur"
  shows "\<exists>hc'. hc_WriteHeader E coin header hc = Some (if hd_num header \<noteq> hd_num cur \<or> coin then CanonStatTy else SideStatTy, hc') \<and>
    hc_inv E genesis hc' \<and> hc_currentHeader hc' = Some (if hd_num header \<noteq> hd_num cur \<or> coin then header else cur) \<and>
    (\<forall>h n. ReadHeader (ce_codec E) (hc_chainDb hc') h n =
      (if h = ce_hash E header \<and> n = hd_num header then Some header else ReadHeader (ce_codec E) (hc_chainDb hc) h n))"
  using hc_WriteHeader_ok [OF assms] .

section \<open>Ancestors through the canonical chain\<close>

lemma canonical_jump:
  assumes "headers_ok C g db" "canonical_chain C db a0 (unat tn)" "ReadHeader C db a0 tn \<noteq> None" "ReadHeader C db h m \<noteq> None"
    and "ReadCanonicalHash db m = h" "j \<le> unat m"
  shows "ReadCanonicalHash db (m - word_of_nat j) = ancestor C db h (unat m) j"
proof -
  have b: "unat m < 2 ^ 64" "unat tn < 2 ^ 64" "ReadHeader C db a0 (word_of_nat (unat tn)) \<noteq> None"
    using assms(3) unsigned_less [of tn, where 'a = nat] unsigned_less [of m, where 'a = nat] by simp_all
  have "h \<noteq> 0" using assms(4) headers_okD(4) [OF assms(1)] by blast
  then have "unat m \<le> unat tn" using canonical_nonzero [OF assms(2,1) b(3,2,1)] assms(5) by (simp add: not_less)
  then have "ReadCanonicalHash db (word_of_nat (unat m - j)) = ancestor C db h (unat m) j"
    using canonical_ancestors [OF assms(2) _ b(2), of "unat m" h j] assms(5,6) by simp
  then show ?thesis using num_minus [OF assms(6)] by simp
qed

lemma ancestor_loop_exact:
  assumes "headers_ok C g (hc_chainDb hc)" "C = ce_codec E"
    and "canonical_chain C (hc_chainDb hc) a0 (unat tn)" "ReadHeader C (hc_chainDb hc) a0 tn \<noteq> None"
    and "cache_ok C hc" "ReadHeader C (hc_chainDb hc) h m \<noteq> None" "j \<le> unat m"
  shows "\<exists>r hc'. ancestor_loop E j h m budget hc = (r, hc') \<and> cached C hc hc' \<and>
    ((\<exists>b. r = (ancestor C (hc_chainDb hc) h (unat m) j, m - word_of_nat j, b)) \<or> unat budget < j \<and> r = (0, 0, 0))"
  using assms(1,3-7)
proof (induction j arbitrary: h m budget hc)
  case 0
  then show ?case by (simp add: cached_refl)
next
  case (Suc j)
  let ?db = "hc_chainDb hc"
  show ?case
  proof (cases "ReadCanonicalHash ?db m = h")
    case True
    from canonical_jump [OF Suc.prems(1-3,5) this Suc.prems(6)] show ?thesis
      using True Suc.prems(4) cached_refl by (auto simp del: ancestor.simps of_nat_Suc)
  next
    case False
    show ?thesis
    proof (cases "budget = 0")
      case True
      then show ?thesis using False Suc.prems(4) cached_refl by simp
    next
      case budget: False
      obtain hdr where hdr: "ReadHeader C ?db h m = Some hdr" using Suc.prems(5) by blast
      obtain hc1 where hc1: "hc_GetHeader E h m hc = (Some hdr, hc1)" "cached C hc hc1"
        using Suc.prems(1,4) assms(2) hdr by (rule GetHeader_stored)
      note db1 = cached_simps(1,5) [OF hc1(2)]
      have "m \<noteq> 0" using Suc.prems(6) by auto
      then have um: "unat (m - 1) = unat m - 1" "ReadHeader C ?db (hd_ParentHash hdr) (m - 1) \<noteq> None"
        using headers_okD(8) [OF Suc.prems(1) hdr] by (auto simp: unat_minus_one)
      have ub: "unat (budget - 1) = unat budget - 1" "0 < unat budget" using budget by (simp_all add: unat_minus_one unat_gt_0)
      obtain r hc2 where r: "ancestor_loop E j (hd_ParentHash hdr) (m - 1) (budget - 1) hc1 = (r, hc2)" "cached C hc1 hc2"
        "(\<exists>b. r = (ancestor C ?db (hd_ParentHash hdr) (unat m - 1) j, m - 1 - word_of_nat j, b)) \<or> unat (budget - 1) < j \<and> r = (0, 0, 0)"
      proof -
        have "headers_ok C g (hc_chainDb hc1)" "canonical_chain C (hc_chainDb hc1) a0 (unat tn)" "ReadHeader C (hc_chainDb hc1) a0 tn \<noteq> None"
          "ReadHeader C (hc_chainDb hc1) (hd_ParentHash hdr) (m - 1) \<noteq> None" "j \<le> unat (m - 1)"
          using Suc.prems um db1(1) by simp_all
        from Suc.IH [OF this(1-3) db1(2) this(4,5), of "budget - 1"] show thesis using that unfolding db1(1) um(1) by blast
      qed
      have "ancestor C ?db h (unat m) (Suc j) = ancestor C ?db (hd_ParentHash hdr) (unat m - 1) j"
        using ancestor_add [of 1 j "unat m" C ?db h] Suc.prems(6) hdr by simp
      moreover have "m - 1 - word_of_nat j = m - word_of_nat (Suc j)" by simp
      moreover have "ancestor_loop E (Suc j) h m budget hc = (r, hc2)" using False budget hc1(1) r(1) by simp
      ultimately show ?thesis using r(2,3) cached_trans [OF hc1(2) r(2)] ub by (auto simp del: ancestor.simps)
    qed
  qed
qed


section \<open>Rewinding\<close>

text \<open>\<open>deletes db N ops\<close>: the operations delete the headers and markers of the numbers \<open>N\<close>, for the headers of \<open>db\<close>.\<close>

definition deletes :: "kvdb \<Rightarrow> u64 set \<Rightarrow> db_op list \<Rightarrow> bool" where
  "deletes db N ops \<longleftrightarrow>
     (\<forall>db' x. look (db_write ops db') x =
        (case x of
           HeaderK n h \<Rightarrow> if n \<in> N \<and> HasHeader db h n then None else look db' x
         | NumberK h \<Rightarrow> if \<exists>n \<in> N. HasHeader db h n then None else look db' x
         | CanonicalK n \<Rightarrow> if n \<in> N then None else look db' x
         | _ \<Rightarrow> look db' x))"

lemma deletes_cong: "HasHeader db' = HasHeader db \<Longrightarrow> deletes db' = deletes db"
  by (rule ext)+ (simp only: deletes_def)

lemma deletes_Nil: "deletes db {} []"
  by (auto simp: deletes_def split: db_key.splits)

lemma deletes_append:
  assumes "deletes db N a" "deletes db M b"
  shows "deletes db (N \<union> M) (a @ b)"
  unfolding deletes_def
proof (intro allI)
  fix db' x
  have a: "\<And>db' x. look (db_write a db') x = (case x of HeaderK n h \<Rightarrow> if n \<in> N \<and> HasHeader db h n then None else look db' x
         | NumberK h \<Rightarrow> if \<exists>n \<in> N. HasHeader db h n then None else look db' x
         | CanonicalK n \<Rightarrow> if n \<in> N then None else look db' x | _ \<Rightarrow> look db' x)" using assms(1) unfolding deletes_def by blast
  have b: "\<And>db' x. look (db_write b db') x = (case x of HeaderK n h \<Rightarrow> if n \<in> M \<and> HasHeader db h n then None else look db' x
         | NumberK h \<Rightarrow> if \<exists>n \<in> M. HasHeader db h n then None else look db' x
         | CanonicalK n \<Rightarrow> if n \<in> M then None else look db' x | _ \<Rightarrow> look db' x)" using assms(2) unfolding deletes_def by blast
  show "look (db_write (a @ b) db') x = (case x of HeaderK n h \<Rightarrow> if n \<in> N \<union> M \<and> HasHeader db h n then None else look db' x
         | NumberK h \<Rightarrow> if \<exists>n \<in> N \<union> M. HasHeader db h n then None else look db' x
         | CanonicalK n \<Rightarrow> if n \<in> N \<union> M then None else look db' x | _ \<Rightarrow> look db' x)"
    unfolding db_write_simps b by (cases x) (simp_all add: a bex_Un)
qed

lemma delete_hashes_None:
  "delete_hashes None num hs s = (concat (map (\<lambda>h. DeleteHeader h num) hs), s)"
  by (induction hs) simp_all

lemma look_delete_headers:
  "look (db_write (concat (map (\<lambda>h. DeleteHeader h num) hs)) db) x =
     (case x of HeaderK n h \<Rightarrow> if n = num \<and> h \<in> set hs then None else look db x
      | NumberK h \<Rightarrow> if h \<in> set hs then None else look db x | _ \<Rightarrow> look db x)"
proof (induction hs arbitrary: db)
  case (Cons a hs)
  then show ?case by (cases x) auto
qed (simp split: db_key.splits)

lemma delete_numbers_None:
  assumes "gomap_ok db" "\<And>n. n \<in> set nums \<Longrightarrow> \<exists>h. HasHeader db h n"
  shows "\<exists>ops. delete_numbers None db own nums s = (ops, s) \<and> deletes db (set nums) ops"
  using assms(2)
proof (induction nums)
  case (Cons num nums)
  let ?hs = "ReadAllHashes db num"
  have hs: "set ?hs = {h. HasHeader db h num}" using ReadAllHashes_exact [OF assms(1)] by blast
  then have "?hs \<noteq> []" using Cons.prems [of num] by auto
  moreover obtain ops where ops: "delete_numbers None db own nums s = (ops, s)" "deletes db (set nums) ops" using Cons by auto
  moreover have "deletes db {num} (concat (map (\<lambda>h. DeleteHeader h num) ?hs) @ DeleteCanonicalHash num)"
    unfolding deletes_def by (auto simp: look_delete_headers hs split: db_key.splits)
  from deletes_append [OF this ops(2)]
  have "deletes db (set (num # nums)) (concat (map (\<lambda>h. DeleteHeader h num) ?hs) @ DeleteCanonicalHash num @ ops)" by simp
  ultimately show ?case by (simp add: delete_hashes_None)
qed (simp add: deletes_Nil)

text \<open>Headers are stored without gaps, so the numbers above the head that have headers are found.\<close>

lemma headers_gapless:
  assumes "headers_ok C g db" "HasHeader db h m" "n \<le> m"
  shows "\<exists>h. HasHeader db h n"
proof -
  have "ReadHeader C db h (word_of_nat (unat m)) \<noteq> None" using assms(1,2) unfolding headers_ok_def by simp
  moreover have "unat m < 2 ^ 64" "unat m - (unat m - unat n) = unat n"
    using unsigned_less [of m, where 'a = nat] assms(3) by (simp_all add: word_le_nat_alt)
  ultimately have "\<exists>hdr. ReadHeader C db (ancestor C db h (unat m) (unat m - unat n)) n = Some hdr"
    using ancestor_stored [OF assms(1), of h "unat m" "unat m - unat n"] by simp
  then show ?thesis by (auto simp: reads split: option.splits)
qed

lemma leftover_exact:
  assumes "headers_ok C g db"
  shows "\<exists>nums. leftover db n = Some nums \<and> set nums = {m. n \<le> m \<and> (\<exists>h. HasHeader db h m)}"
proof (induction "2 ^ 64 - unat n" arbitrary: n rule: less_induct)
  case less
  have ok: "gomap_ok db" using assms by (simp add: headers_ok_def)
  show ?case
  proof (cases "ReadAllHashes db n = []")
    case True
    then have "\<not> HasHeader db h n" for h using ReadAllHashes_exact(1) [OF ok, of n] by auto
    then have "{m. n \<le> m \<and> (\<exists>h. HasHeader db h m)} = {}" using headers_gapless [OF assms] by blast
    then show ?thesis using True by (simp add: leftover.simps)
  next
    case False
    then obtain h where h: "HasHeader db h n" using ReadAllHashes_exact(1) [OF ok, of n] by (cases "ReadAllHashes db n") auto
    then have "ReadHeader C db h n \<noteq> None" using assms unfolding headers_ok_def by blast
    from stored_number_bound [OF assms this] have b: "Suc (unat n) < 2 ^ 64" .
    then have u: "unat (n + 1) = Suc (unat n)" by (simp add: unat_word_ariths)
    obtain nums where nums: "leftover db (n + 1) = Some nums" "set nums = {m. n + 1 \<le> m \<and> (\<exists>h. HasHeader db h m)}"
    proof -
      have "2 ^ 64 - unat (n + 1) < 2 ^ 64 - unat n" using u b by linarith
      from less [OF this] show thesis using that by blast
    qed
    have "n \<le> m \<longleftrightarrow> m = n \<or> n + 1 \<le> m" for m
      using u unsigned_word_eqI [of m n, where ?'a = nat] by (auto simp: word_le_nat_alt le_less Suc_le_eq)
    then have "set (nums @ [n]) = {m. n \<le> m \<and> (\<exists>h. HasHeader db h m)}" using nums(2) h by auto
    moreover have "leftover db n = Some (nums @ [n])" using False nums(1) by (simp add: leftover.simps [of db n])
    ultimately show ?thesis by blast
  qed
qed

text \<open>
  During the rewind the store only changes its head header; the current header has number \<open>n\<close> and is canonical.
\<close>

definition rewinding :: "'g chain_env \<Rightarrow> Header \<Rightarrow> kvdb \<Rightarrow> u64 \<Rightarrow> header_chain \<Rightarrow> bool" where
  "rewinding E genesis db n hc \<longleftrightarrow>
     gomap_ok (hc_chainDb hc) \<and> (\<forall>x. x \<noteq> HeadHeaderK \<longrightarrow> look (hc_chainDb hc) x = look db x) \<and> cache_ok (ce_codec E) hc \<and>
     hc_genesisHeader hc = Some genesis \<and>
     (\<exists>cur. hc_currentHeader hc = Some cur \<and> hc_currentHeaderHash hc = ce_hash E cur \<and> hd_num cur = n \<and>
        ReadHeader (ce_codec E) db (ce_hash E cur) n = Some cur \<and> ReadHeadHeaderHash (hc_chainDb hc) = ce_hash E cur \<and>
        ReadCanonicalHash db n = ce_hash E cur)"

lemma rewinding_same: "rewinding E genesis db n hc \<Longrightarrow> same_headers db (hc_chainDb hc)"
  by (simp add: rewinding_def same_headers_def)

lemma rewind_round_ok:
  assumes "headers_ok (ce_codec E) (ce_hash E genesis) db" "canonical_chain (ce_codec E) db a0 (unat tn)" "ReadHeader (ce_codec E) db a0 tn \<noteq> None"
    and "rewinding E genesis db n hc" "n \<noteq> 0" "hc_currentHeader hc = Some cur"
    and "nums = (if origin then {m. n + 1 \<le> m \<and> (\<exists>h. HasHeader db h m)} else {})"
  shows "\<exists>ops hc'. rewind_round E None None origin head cur hc s = Some (head, ops, hc', s) \<and> rewinding E genesis db (n - 1) hc' \<and>
    deletes db (insert n nums) ops"
proof -
  let ?C = "ce_codec E" and ?db = "hc_chainDb hc" and ?p = "hd_ParentHash cur"
  note same = same_headersD(1,4) [OF rewinding_same [OF assms(4)], of ?C] same_headersD(2) [OF rewinding_same [OF assms(4)]]
  have cur: "hd_num cur = n" "ReadHeader ?C db (ce_hash E cur) n = Some cur" "ReadCanonicalHash db n = ce_hash E cur" "cache_ok ?C hc"
    using assms(4,6) by (auto simp: rewinding_def)
  obtain pr where pr: "ReadHeader ?C db ?p (n - 1) = Some pr" using headers_okD(8) [OF assms(1) cur(2) assms(5)] by blast
  have "headers_ok ?C (ce_hash E genesis) ?db" "ReadHeader ?C ?db ?p (n - 1) = Some pr" using same(1,2) assms(1) pr by simp_all
  from this(1) cur(4) refl this(2) obtain hc1 where hc1: "hc_GetHeader E ?p (n - 1) hc = (Some pr, hc1)" "cached ?C hc hc1"
    by (rule GetHeader_stored)
  note c1 = cached_simps [OF hc1(2)]
  define hc2 where "hc2 = hc1\<lparr>hc_chainDb := db_write (WriteHeadHeaderHash ?p) ?db, hc_currentHeader := Some pr, hc_currentHeaderHash := ?p\<rparr>"
  have look2: "x \<noteq> HeadHeaderK \<Longrightarrow> look (hc_chainDb hc2) x = look db x" for x using assms(4) by (simp add: hc2_def rewinding_def)
  have ok2: "gomap_ok (hc_chainDb hc2)" using assms(4) by (simp add: hc2_def rewinding_def)
  then have same2: "same_headers db (hc_chainDb hc2)" using look2 by (simp add: same_headers_def)
  note r2 = same_headersD(1,4) [OF same2, of ?C] same_headersD(2,3) [OF same2]
  have hp: "ce_hash E pr = ?p" "hd_num pr = n - 1" using headers_okD(1,6) [OF assms(1) pr] by simp_all
  have "1 \<le> unat n" using assms(5) by (simp add: unat_gt_0 Suc_le_eq)
  then have canon: "ReadCanonicalHash db (n - 1) = ?p"
    using canonical_jump [OF assms(1-3) _ cur(3), of 1] cur(2) by simp
  have "cache_ok ?C hc2" using c1(1,5) same(1,3) r2(1,3) unfolding cache_ok_def by (simp add: hc2_def)
  then have rw: "rewinding E genesis db (n - 1) hc2"
    using ok2 look2 c1 pr hp canon assms(4) by (simp add: rewinding_def) (simp add: hc2_def reads)
  have "\<exists>above. (if origin then leftover (hc_chainDb hc2) (n + 1) else Some []) = Some above \<and> set above = nums"
    using leftover_exact [OF r2(2) [OF assms(1)], of "n + 1"] assms(7) r2(4) by simp
  then obtain above where above: "(if origin then leftover (hc_chainDb hc2) (n + 1) else Some []) = Some above" "set above = nums" by blast
  have "\<exists>ops. delete_numbers None (hc_chainDb hc2) (ce_hash E cur) (above @ [n]) s = (ops, s) \<and> deletes (hc_chainDb hc2) (set (above @ [n])) ops"
    by (rule delete_numbers_None [OF ok2])
      (use above(2) assms(7) cur(2) in \<open>unfold r2(4), auto simp: reads split: if_splits option.splits\<close>)
  then obtain ops where ops: "delete_numbers None (hc_chainDb hc2) (ce_hash E cur) (above @ [n]) s = (ops, s)"
    "deletes (hc_chainDb hc2) (set (above @ [n])) ops" by (elim exE conjE)
  have hc2: "hc1\<lparr>hc_chainDb := db_write ([] @ WriteHeadHeaderHash ?p) (hc_chainDb hc1), hc_currentHeader := Some pr, hc_currentHeaderHash := ?p\<rparr> = hc2"
    by (simp add: hc2_def c1(1))
  have "rewind_round E None None origin head cur hc s = Some (head, ops, hc2, s)"
    by (simp only: rewind_round_def Let_def cur(1) hc1(1) prod.case option.case bind.bind_lunit hc2 above(1) ops(1))
  moreover have "set (above @ [n]) = insert n nums" using above(2) by simp
  then have "deletes db (insert n nums) ops" using ops(2) by (simp only: deletes_cong [OF r2(4)])
  ultimately show ?thesis using rw by blast
qed

lemma rewind_on:
  assumes "headers_ok (ce_codec E) (ce_hash E genesis) db" "canonical_chain (ce_codec E) db a0 (unat tn)" "ReadHeader (ce_codec E) db a0 tn \<noteq> None"
    and "rewinding E genesis db n hc" "head \<le> n"
  shows "\<exists>ops hc'. rewind E None None False head hc s = Some (ops, hc', s) \<and> rewinding E genesis db head hc' \<and> deletes db {m. head < m \<and> m \<le> n} ops"
  using assms(4,5)
proof (induction "unat n" arbitrary: n hc rule: less_induct)
  case less
  obtain cur where cur: "hc_currentHeader hc = Some cur" "hd_num cur = n" using less.prems(1) by (auto simp: rewinding_def)
  show ?case
  proof (cases "n = head")
    case True
    then have "rewind E None None False head hc s = Some ([], hc, s)" "{m. head < m \<and> m \<le> n} = {}"
      using cur by (auto simp: rewind.simps hc_CurrentHeader_def)
    then show ?thesis using less.prems(1) True deletes_Nil [of db] by metis
  next
    case False
    then have gt: "head < n" using less.prems(2) by simp
    then have "n \<noteq> 0" by auto
    obtain ops hc1 where r: "rewind_round E None None False head cur hc s = Some (head, ops, hc1, s)" "rewinding E genesis db (n - 1) hc1" "deletes db {n} ops"
      using rewind_round_ok [OF assms(1-3) less.prems(1) \<open>n \<noteq> 0\<close> cur(1) refl, of False head s] by auto
    have u: "unat (n - 1) = unat n - 1" "0 < unat n" using \<open>n \<noteq> 0\<close> by (simp_all add: unat_minus_one unat_gt_0)
    have "head \<le> n - 1" using gt u by (simp add: word_le_nat_alt word_less_nat_alt)
    moreover have "unat (n - 1) < unat n" using u by simp
    ultimately obtain more hc2 where m: "rewind E None None False head hc1 s = Some (more, hc2, s)" "rewinding E genesis db head hc2"
      "deletes db {m. head < m \<and> m \<le> n - 1} more" using less.hyps [of "n - 1" hc1] r(2) by auto
    have "m \<le> n \<longleftrightarrow> m = n \<or> m \<le> n - 1" for m
      using u unsigned_word_eqI [of m n, where ?'a = nat] by (auto simp: word_le_nat_alt)
    then have "{n} \<union> {m. head < m \<and> m \<le> n - 1} = {m. head < m \<and> m \<le> n}" using gt by auto
    moreover have "rewind E None None False head hc s = Some (ops @ more, hc2, s)"
      using cur gt r(1) m(1) by (simp add: rewind.simps [of E None None False head hc s] hc_CurrentHeader_def not_le [symmetric])
    ultimately show ?thesis using deletes_append [OF r(3) m(3)] m(2) by metis
  qed
qed

lemma ancestor_below:
  assumes "\<And>h m. m \<le> n \<Longrightarrow> ReadHeader C db' h (word_of_nat m) = ReadHeader C db h (word_of_nat m)"
  shows "k \<le> n \<Longrightarrow> ancestor C db' h n k = ancestor C db h n k"
proof (induction k)
  case (Suc k)
  have "ReadHeader C db' (ancestor C db h n k) (word_of_nat (n - k)) = ReadHeader C db (ancestor C db h n k) (word_of_nat (n - k))"
    by (rule assms) simp
  then show ?case using Suc by simp
qed simp

text \<open>\<open>rewound db head tn db'\<close>: \<open>db'\<close> is \<open>db\<close> without the headers above \<open>head\<close>, when \<open>tn\<close> was the number of the head.\<close>

definition rewound :: "'g codec \<Rightarrow> kvdb \<Rightarrow> u64 \<Rightarrow> u64 \<Rightarrow> kvdb \<Rightarrow> bool" where
  "rewound C db head tn db' \<longleftrightarrow> gomap_ok db' \<and>
     (\<forall>h m. HasHeader db' h m \<longleftrightarrow> m \<le> head \<and> HasHeader db h m) \<and>
     (\<forall>h m. ReadHeader C db' h m = (if m \<le> head then ReadHeader C db h m else None)) \<and>
     (\<forall>h. ReadHeaderNumber db' h = (if \<exists>m. head < m \<and> HasHeader db h m then None else ReadHeaderNumber db h)) \<and>
     (\<forall>m. ReadCanonicalHash db' m = (if head < m \<and> (m \<le> tn \<or> (\<exists>h. HasHeader db h m)) then 0 else ReadCanonicalHash db m))"

lemma rewound_deletes:
  assumes "deletes db {m. head < m \<and> (m \<le> tn \<or> (\<exists>h. HasHeader db h m))} ops"
    and "gomap_ok dbt" "\<And>x. x \<noteq> HeadHeaderK \<Longrightarrow> look dbt x = look db x" "db' = db_write ops dbt"
  shows "rewound C db head tn db'" "ReadHeadHeaderHash db' = ReadHeadHeaderHash dbt"
proof -
  let ?N = "{m. head < m \<and> (m \<le> tn \<or> (\<exists>h. HasHeader db h m))}"
  have l: "look db' x = (case x of HeaderK n h \<Rightarrow> if n \<in> ?N \<and> HasHeader db h n then None else look dbt x
         | NumberK h \<Rightarrow> if \<exists>n \<in> ?N. HasHeader db h n then None else look dbt x
         | CanonicalK n \<Rightarrow> if n \<in> ?N then None else look dbt x | _ \<Rightarrow> look dbt x)" for x
    using assms(1) unfolding deletes_def assms(4) by blast
  have "HasHeader db' h m \<longleftrightarrow> m \<le> head \<and> HasHeader db h m" for h m
    by (auto simp: reads l assms(3) not_le [symmetric])
  moreover have "ReadHeader C db' h m = (if m \<le> head then ReadHeader C db h m else None)" for h m
    by (auto simp: reads l assms(3) not_le [symmetric] split: option.splits)
  moreover have "ReadHeaderNumber db' h = (if \<exists>m. head < m \<and> HasHeader db h m then None else ReadHeaderNumber db h)" for h
    by (auto simp: reads l assms(3))
  moreover have "ReadCanonicalHash db' m = (if m \<in> ?N then 0 else ReadCanonicalHash db m)" for m by (auto simp: reads l assms(3))
  ultimately show "rewound C db head tn db'" using assms(2,4) by (simp add: rewound_def)
  show "ReadHeadHeaderHash db' = ReadHeadHeaderHash dbt" by (simp add: reads l)
qed

lemma rewound_headers_ok:
  assumes "headers_ok C g db" "rewound C db head tn db'"
  shows "headers_ok C g db'"
  unfolding headers_ok_def
proof (intro conjI allI impI)
  have hh: "HasHeader db' h m \<longleftrightarrow> m \<le> head \<and> HasHeader db h m"
    and rh: "ReadHeader C db' h m = (if m \<le> head then ReadHeader C db h m else None)"
    and rn: "ReadHeaderNumber db' h = (if \<exists>m. head < m \<and> HasHeader db h m then None else ReadHeaderNumber db h)" for h m
    using assms(2) unfolding rewound_def by blast+
  have has: "HasHeader db h m \<longleftrightarrow> ReadHeader C db h m \<noteq> None" for h m
    using HasHeader_iff [OF assms(1)] .
  show "gomap_ok db'" using assms(2) by (simp add: rewound_def)
  fix h n
  show "ReadHeader C db' h n \<noteq> None" if "HasHeader db' h n \<or> ReadHeaderNumber db' h = Some n"
  proof -
    have "ReadHeader C db h n \<noteq> None" using that assms(1) unfolding hh rn headers_ok_def by (auto split: if_splits)
    moreover have "n \<le> head" using that calculation unfolding hh rn has by (metis not_le option.distinct(1))
    ultimately show ?thesis by (simp add: rh)
  qed
  fix hdr assume "ReadHeader C db' h n = Some hdr"
  then have n: "n \<le> head" "ReadHeader C db h n = Some hdr" by (simp_all add: rh split: if_splits)
  note d = headers_okD [OF assms(1) n(2)]
  show "Header_Hash (cd_crypto C) hdr = h" "hd_Number hdr = uint n" "n \<noteq> - 1" "h \<noteq> 0" by (rule d)+
  have "\<not> (head < m \<and> HasHeader db h m)" for m using header_unique(1) [OF assms(1) n(2), of m] n(1) unfolding has by fastforce
  then show "ReadHeaderNumber db' h = Some n" using d(5) unfolding rn by simp
  show "if n = 0 then h = g else ReadHeader C db' (hd_ParentHash hdr) (n - 1) \<noteq> None"
  proof (cases "n = 0")
    case False
    then have "n - 1 \<le> head" using n(1) by (simp add: word_le_nat_alt unat_minus_one)
    then show ?thesis using d(8) False by (auto simp: rh)
  qed (use d(7) in simp)
qed

lemma rewound_canonical:
  assumes "canonical_chain C db a0 (unat tn)" "head < tn" "rewound C db head tn db'"
  shows "canonical_chain C db' (ReadCanonicalHash db head) (unat head)"
  unfolding canonical_chain_def
proof (intro allI impI)
  fix i :: nat assume i: "i < 2 ^ 64"
  let ?a = "ReadCanonicalHash db head" and ?n = "unat head"
  have rh: "ReadHeader C db' h m = (if m \<le> head then ReadHeader C db h m else None)"
    and rc: "ReadCanonicalHash db' m = (if head < m \<and> (m \<le> tn \<or> (\<exists>h. HasHeader db h m)) then 0 else ReadCanonicalHash db m)" for h m
    using assms(3) unfolding rewound_def by blast+
  have u: "unat (word_of_nat i :: u64) = i" "?n < 2 ^ 64" "unat tn < 2 ^ 64"
    using num_eq_iff [OF i] unsigned_less [of head, where 'a = nat] unsigned_less [of tn, where 'a = nat] by auto
  show "ReadCanonicalHash db' (word_of_nat i) = (if i \<le> ?n then ancestor C db' ?a ?n (?n - i) else 0)"
  proof (cases "i \<le> ?n")
    case True
    then have "\<not> head < word_of_nat i" using u by (simp add: word_less_nat_alt)
    moreover have "?n - (?n - i) = i" using True by simp
    then have "ReadCanonicalHash db (word_of_nat i) = ancestor C db ?a ?n (?n - i)"
      using canonical_ancestors [OF assms(1) _ u(3), of ?n ?a "?n - i"] assms(2) by (simp add: word_less_nat_alt)
    moreover have "ancestor C db' ?a ?n (?n - i) = ancestor C db ?a ?n (?n - i)"
      using u(2) by (intro ancestor_below) (auto simp: rh word_le_nat_alt unat_of_nat)
    ultimately show ?thesis using True by (simp add: rc)
  next
    case False
    then have "head < word_of_nat i" using u by (simp add: word_less_nat_alt)
    then show ?thesis using False canonicalD [OF assms(1) i] u by (auto simp: rc word_le_nat_alt)
  qed
qed

lemma rewind_all:
  assumes "headers_ok (ce_codec E) (ce_hash E genesis) db" "canonical_chain (ce_codec E) db a0 (unat tn)" "ReadHeader (ce_codec E) db a0 tn \<noteq> None"
    and "rewinding E genesis db tn hc" "head < tn"
  shows "\<exists>ops hc'. rewind E None None True head hc s = Some (ops, hc', s) \<and> rewinding E genesis db head hc' \<and>
    deletes db {m. head < m \<and> (m \<le> tn \<or> (\<exists>h. HasHeader db h m))} ops"
proof -
  obtain cur where cur: "hc_currentHeader hc = Some cur" "hd_num cur = tn" using assms(4) by (auto simp: rewinding_def)
  have nz: "tn \<noteq> 0" using assms(5) by auto
  obtain ops hc1 where r: "rewind_round E None None True head cur hc s = Some (head, ops, hc1, s)" "rewinding E genesis db (tn - 1) hc1"
    "deletes db (insert tn {m. tn + 1 \<le> m \<and> (\<exists>h. HasHeader db h m)}) ops"
    using rewind_round_ok [OF assms(1-4) nz cur(1) refl, of True head s] unfolding if_True by (elim exE conjE)
  have u: "unat (tn - 1) = unat tn - 1" "0 < unat tn" "unat (tn + 1) = Suc (unat tn)"
    using nz stored_number_bound [OF assms(1,3)] by (simp_all add: unat_minus_one unat_gt_0 unat_word_ariths)
  have "head \<le> tn - 1" using assms(5) u by (simp add: word_le_nat_alt word_less_nat_alt)
  from rewind_on [OF assms(1-3) r(2) this, of s] obtain more hc2 where
    m: "rewind E None None False head hc1 s = Some (more, hc2, s)" "rewinding E genesis db head hc2" "deletes db {m. head < m \<and> m \<le> tn - 1} more"
    by (elim exE conjE)
  have "m \<le> tn \<longleftrightarrow> m = tn \<or> m \<le> tn - 1" "tn + 1 \<le> m \<longleftrightarrow> tn < m" for m
    using u unsigned_word_eqI [of m tn, where ?'a = nat] by (auto simp: word_le_nat_alt word_less_nat_alt)
  then have "insert tn {m. tn + 1 \<le> m \<and> (\<exists>h. HasHeader db h m)} \<union> {m. head < m \<and> m \<le> tn - 1} =
      {m. head < m \<and> (m \<le> tn \<or> (\<exists>h. HasHeader db h m))}" (is "?l = ?r")
    using assms(5) by (intro set_eqI) (metis (mono_tags, lifting) Un_iff insert_iff mem_Collect_eq not_le less_trans)
  moreover have "rewind E None None True head hc s = Some (ops @ more, hc2, s)"
    using cur assms(5) r(1) m(1) by (simp add: rewind.simps [of E None None True head hc s] hc_CurrentHeader_def not_le [symmetric])
  ultimately show ?thesis using deletes_append [OF r(3) m(3)] m(2) by (intro exI [of _ "ops @ more"] exI [of _ hc2]) simp
qed


section \<open>Importing a chain of headers\<close>

text \<open>The callback of \<open>BlockChain.InsertHeaderChain\<close>; \<open>coin\<close> gives the draws.\<close>

definition whFunc :: "'g chain_env \<Rightarrow> (nat \<Rightarrow> bool) \<Rightarrow> nat \<Rightarrow> Header \<Rightarrow> header_chain \<Rightarrow> (string option \<times> header_chain) option" where
  "whFunc E coin i header hc = map_option (\<lambda>(status, hc). (None, hc)) (hc_WriteHeader E (coin i) header hc)"

text \<open>A chain of headers that can be imported: encodable, numbered, and without colliding hashes.\<close>

definition importable :: "'g chain_env \<Rightarrow> kvdb \<Rightarrow> Header list \<Rightarrow> bool" where
  "importable E db chain \<longleftrightarrow>
     (\<forall>a \<in> set chain.
        cd_header (ce_codec E) (cr_rlp (cd_crypto (ce_codec E)) (Header_rlp a)) = Some a \<and>
        cr_rlp (cd_crypto (ce_codec E)) (Header_rlp a) \<noteq> [] \<and> ce_hash E a \<noteq> 0 \<and> 0 < hd_Number a \<and> hd_Number a < 2 ^ 64 - 1 \<and>
        (\<forall>m b. ReadHeader (ce_codec E) db (ce_hash E a) m = Some b \<longrightarrow> b = a) \<and>
        (\<forall>b \<in> set chain. ce_hash E b = ce_hash E a \<longrightarrow> b = a))"

lemma importable_step:
  assumes "importable E db (a # chain)"
    and "\<And>h n. ReadHeader (ce_codec E) db' h n = (if h = ce_hash E a \<and> n = hd_num a then Some a else ReadHeader (ce_codec E) db h n)"
  shows "importable E db' chain"
  using assms unfolding importable_def by (auto split: if_splits)

lemma HasHeader_known:
  assumes "hc_inv E genesis hc" "importable E (hc_chainDb hc) (a # chain)" "hc_HasHeader (ce_hash E a) (hd_num a) hc"
  shows "ReadHeader (ce_codec E) (hc_chainDb hc) (ce_hash E a) (hd_num a) = Some a"
proof -
  let ?C = "ce_codec E" and ?db = "hc_chainDb hc"
  have ok: "headers_ok ?C (ce_hash E genesis) ?db" "cache_ok ?C hc" using assms(1) by (simp_all add: hc_inv_def)
  have "\<exists>m b. ReadHeader ?C ?db (ce_hash E a) m = Some b"
    using assms(3) ok HasHeader_iff [OF ok(1)] unfolding hc_HasHeader_def cache_ok_def headers_ok_def by (metis option.exhaust)
  then obtain m b where b: "ReadHeader ?C ?db (ce_hash E a) m = Some b" by blast
  then have "b = a" using assms(2) by (simp add: importable_def)
  then show ?thesis using b headers_okD(6) [OF ok(1) b] by simp
qed

lemma insert_headers_ok:
  assumes "hc_inv E genesis hc" "importable E (hc_chainDb hc) chain" "contiguous_from E j chain = None"
    and "chain = [] \<or> ReadHeader (ce_codec E) (hc_chainDb hc) (hd_ParentHash (hd chain)) (hd_num (hd chain) - 1) \<noteq> None"
  shows "\<exists>hc'. insert_headers E (whFunc E coin) (\<lambda>i. False) i chain hc = Some ((0, None), hc') \<and> hc_inv E genesis hc' \<and>
    (\<forall>h n b. ReadHeader (ce_codec E) (hc_chainDb hc) h n = Some b \<longrightarrow> ReadHeader (ce_codec E) (hc_chainDb hc') h n = Some b) \<and>
    (\<forall>a \<in> set chain. ReadHeader (ce_codec E) (hc_chainDb hc') (ce_hash E a) (hd_num a) = Some a)"
  using assms
proof (induction chain arbitrary: hc i j)
  case (Cons a chain)
  let ?C = "ce_codec E" and ?db = "hc_chainDb hc"
  obtain hc1 where hc1: "hc_inv E genesis hc1"
    "ReadHeader ?C (hc_chainDb hc1) h n = (if h = ce_hash E a \<and> n = hd_num a then Some a else ReadHeader ?C ?db h n)"
    "insert_headers E (whFunc E coin) (\<lambda>i. False) i (a # chain) hc = insert_headers E (whFunc E coin) (\<lambda>i. False) (Suc i) chain hc1" for h n
  proof (cases "hc_HasHeader (ce_hash E a) (hd_num a) hc")
    case True
    then show thesis using that [of hc] Cons.prems(1) HasHeader_known [OF Cons.prems(1,2)] by simp
  next
    case False
    obtain cur where cur: "hc_currentHeader hc = Some cur" using Cons.prems(1) by (auto simp: hc_inv_def)
    have "linkable E ?db a" using Cons.prems(2,4) by (simp add: linkable_def importable_def)
    from hc_WriteHeader_ok [OF Cons.prems(1) this cur, of "coin i"] show thesis using that False by (auto simp: whFunc_def)
  qed
  have old: "ReadHeader ?C (hc_chainDb hc1) h n = Some b" if "ReadHeader ?C ?db h n = Some b" for h n b
    using that Cons.prems(2) unfolding hc1(2) importable_def by auto
  have "contiguous_from E (Suc j) chain = None" using Cons.prems(3) by (cases chain) (simp_all split: if_splits)
  moreover have "chain = [] \<or> ReadHeader ?C (hc_chainDb hc1) (hd_ParentHash (hd chain)) (hd_num (hd chain) - 1) \<noteq> None"
    using Cons.prems(3) hc1(2) by (cases chain) (simp_all split: if_splits)
  ultimately obtain hc' where "insert_headers E (whFunc E coin) (\<lambda>i. False) (Suc i) chain hc1 = Some ((0, None), hc')" "hc_inv E genesis hc'"
    "\<And>h n b. ReadHeader ?C (hc_chainDb hc1) h n = Some b \<Longrightarrow> ReadHeader ?C (hc_chainDb hc') h n = Some b"
    "\<And>a. a \<in> set chain \<Longrightarrow> ReadHeader ?C (hc_chainDb hc') (ce_hash E a) (hd_num a) = Some a"
    using Cons.IH [OF hc1(1) importable_step [OF Cons.prems(2) hc1(2)], of "Suc j" "Suc i"] by blast
  then show ?case using hc1(2,3) old by auto
qed simp

text \<open>
  C34: A contiguous chain of headers whose first parent is stored is imported whole: every header is stored
  afterwards, none that was stored is lost, and the header chain is consistent.
\<close>

theorem insert_header_chain:
  assumes "hc_inv E genesis hc" "importable E (hc_chainDb hc) chain" "chain \<noteq> []" "contiguous_from E 1 chain = None"
    and "ReadHeader (ce_codec E) (hc_chainDb hc) (hd_ParentHash (hd chain)) (hd_num (hd chain) - 1) \<noteq> None"
  shows "\<exists>hc'. hc_InsertHeaderChain E (whFunc E coin) (\<lambda>i. False) chain hc = Some ((0, None), hc') \<and> hc_inv E genesis hc' \<and>
    (\<forall>h n b. ReadHeader (ce_codec E) (hc_chainDb hc) h n = Some b \<longrightarrow> ReadHeader (ce_codec E) (hc_chainDb hc') h n = Some b) \<and>
    (\<forall>a \<in> set chain. ReadHeader (ce_codec E) (hc_chainDb hc') (ce_hash E a) (hd_num a) = Some a)"
  using insert_headers_ok [OF assms(1,2,4), of coin 0] assms(3,5) by (auto simp: hc_InsertHeaderChain_def)

section \<open>A header chain to evaluate\<close>

text \<open>Header \<open>n\<close> is encoded by its number, its hash is \<open>n + 1\<close> and its parent is header \<open>n - 1\<close>; caches keep everything.\<close>

definition sample_header :: "nat \<Rightarrow> Header" where
  "sample_header n =
     \<lparr>hd_ParentHash = word_of_nat n, hd_Root = 0, hd_TxHash = 0, hd_Number = int n, hd_GasLimit = 0, hd_GasUsed = 0, hd_Time = 0, hd_ShardID = 0,
      hd_LastCommitSignature = [], hd_LastCommitBitmap = []\<rparr>"

fun sample_header_rlp :: "rlp \<Rightarrow> bytes" where
  "sample_header_rlp (RList (a # b # c # RBig n # rest)) = [1, word_of_int n]"
| "sample_header_rlp _ = [1, 0]"

definition sample_env :: "nat chain_env" where
  "sample_env =
     \<lparr>ce_codec = sample_codec\<lparr>cd_crypto := sample_crypto\<lparr>cr_rlp := sample_header_rlp, cr_Keccak256 := (\<lambda>b. replicate 31 0 @ [b ! 1 + 1])\<rparr>,
        cd_header := (\<lambda>d. Some (sample_header (unat (d ! 1))))\<rparr>,
      ce_evict = (\<lambda>limit ks. ks)\<rparr>"

lemma sample_hash: "n < 255 \<Longrightarrow> ce_hash sample_env (sample_header n) = word_of_nat (Suc n)"
proof -
  assume "n < 255"
  then have "unat ((word_of_nat n :: u8) + 1) = Suc n" by (simp add: unat_word_ariths unat_of_nat)
  moreover have "ucast ((word_of_nat n :: u8) + 1) = (word_of_nat (unat ((word_of_nat n :: u8) + 1)) :: hash)" by simp
  ultimately have "ucast ((word_of_nat n :: u8) + 1) = (word_of_nat (Suc n) :: hash)" by (simp only:)
  then have "be_word (replicate 31 0 @ [(word_of_nat n :: u8) + 1]) = (word_of_nat (Suc n) :: hash)"
    by (simp add: be_word_def numeral_eq_Suc)
  then show ?thesis by (simp add: Header_Hash_def rlpHash_def sample_env_def Header_rlp_def sample_header_def)
qed

lemma sample_num: "n < 255 \<Longrightarrow> hd_num (sample_header n) = word_of_nat n"
  by (simp add: sample_header_def big_Uint64_def)

definition sample_hc :: header_chain where
  "sample_hc =
     \<lparr>hc_chainDb = db_write (WriteHeader (ce_codec sample_env) (sample_header 0) @ WriteCanonicalHash 1 0 @ WriteHeadHeaderHash 1) [],
      hc_genesisHeader = Some (sample_header 0), hc_currentHeader = Some (sample_header 0), hc_currentHeaderHash = 1,
      hc_headerCache = [], hc_numberCache = []\<rparr>"

lemma sample_look:
  "look (hc_chainDb sample_hc) =
     [NumberK 1 \<mapsto> be_bytes 8 (0 :: u64), HeaderK 0 1 \<mapsto> [1, 0], CanonicalK 0 \<mapsto> be_bytes 32 (1 :: hash), HeadHeaderK \<mapsto> be_bytes 32 (1 :: hash)]"
proof -
  have "ce_hash sample_env (sample_header 0) = 1" "hd_num (sample_header 0) = 0" using sample_hash [of 0] sample_num [of 0] by simp_all
  moreover have "cr_rlp (cd_crypto (ce_codec sample_env)) (Header_rlp (sample_header 0)) = [1, 0]"
    by (simp add: sample_env_def Header_rlp_def sample_header_def)
  moreover have "look [] = Map.empty" by (simp add: look_def fun_eq_iff)
  ultimately show ?thesis by (simp add: sample_hc_def look_WriteHeader)
qed

lemma sample_reads:
  "ReadHeader (ce_codec sample_env) (hc_chainDb sample_hc) h n = (if h = 1 \<and> n = 0 then Some (sample_header 0) else None)"
  "ReadHeaderNumber (hc_chainDb sample_hc) h = (if h = 1 then Some 0 else None)"
  "HasHeader (hc_chainDb sample_hc) h n \<longleftrightarrow> h = 1 \<and> n = 0"
  "ReadCanonicalHash (hc_chainDb sample_hc) n = (if n = 0 then 1 else 0)" "ReadHeadHeaderHash (hc_chainDb sample_hc) = 1"
  by (simp_all add: reads sample_look) (auto simp: sample_env_def)

lemma sample_current:
  "hc_currentHeader sample_hc = Some (sample_header 0)" "hc_genesisHeader sample_hc = Some (sample_header 0)" "hc_currentHeaderHash sample_hc = 1"
  by (simp_all add: sample_hc_def)

lemma sample_inv: "hc_inv sample_env (sample_header 0) sample_hc"
proof -
  have h: "ce_hash sample_env (sample_header 0) = 1" "hd_num (sample_header 0) = 0" "hd_Number (sample_header 0) = 0"
    using sample_hash [of 0] sample_num [of 0] by (simp_all add: sample_header_def)
  have "gomap_ok (hc_chainDb sample_hc)" by (simp add: sample_hc_def)
  then have "headers_ok (ce_codec sample_env) 1 (hc_chainDb sample_hc)" using h(1,3) by (simp add: headers_ok_def sample_reads)
  moreover have "canonical_chain (ce_codec sample_env) (hc_chainDb sample_hc) 1 0"
    using num_inject [of _ 0] by (simp add: canonical_chain_def sample_reads)
  moreover have "cache_ok (ce_codec sample_env) sample_hc" by (simp add: cache_ok_def sample_hc_def)
  ultimately show ?thesis using h by (simp add: hc_inv_def sample_reads sample_current)
qed

lemma sample_importable: "importable sample_env (hc_chainDb sample_hc) [sample_header 1, sample_header 2]"
proof -
  have "ce_hash sample_env (sample_header 1) = 2" "ce_hash sample_env (sample_header 2) = 3" using sample_hash [of 1] sample_hash [of 2] by simp_all
  moreover have hn: "hd_Number (sample_header n) = int n" for n by (simp add: sample_header_def)
  moreover have "unat (word_of_nat n :: u8) = n" if "n < 256" for n using that by (simp add: unat_of_nat)
  then have "cd_header (ce_codec sample_env) (cr_rlp (cd_crypto (ce_codec sample_env)) (Header_rlp (sample_header n))) = Some (sample_header n)"
    "cr_rlp (cd_crypto (ce_codec sample_env)) (Header_rlp (sample_header n)) \<noteq> []" if "n < 256" for n
    using that by (simp_all add: sample_env_def Header_rlp_def hn)
  ultimately show ?thesis by (simp add: importable_def sample_reads)
qed

lemma sample_linkable: "linkable sample_env (hc_chainDb sample_hc) (sample_header 1)"
proof -
  have "hd_num (sample_header 1) - 1 = 0" "hd_ParentHash (sample_header 1) = 1" using sample_num [of 1] by (simp_all add: sample_header_def)
  then show ?thesis using sample_importable by (simp add: importable_def linkable_def sample_reads)
qed

lemma sample_written:
  obtains hc where "hc_WriteHeader sample_env False (sample_header 1) sample_hc = Some (CanonStatTy, hc)" "hc_inv sample_env (sample_header 0) hc"
    "hc_currentHeader hc = Some (sample_header 1)" "ReadHeader (ce_codec sample_env) (hc_chainDb hc) 2 1 = Some (sample_header 1)"
proof -
  have "hd_num (sample_header 1) = 1" "hd_num (sample_header 0) = 0" "ce_hash sample_env (sample_header 1) = 2"
    using sample_num [of 1] sample_num [of 0] sample_hash [of 1] by simp_all
  then show thesis using hc_WriteHeader_ok [OF sample_inv sample_linkable sample_current(1), of False] that by auto
qed

theorem write_header_canonical_witness:
  "\<exists>hc. hc_WriteHeader sample_env False (sample_header 1) sample_hc = Some (CanonStatTy, hc) \<and> hc_inv sample_env (sample_header 0) hc \<and>
     hc_currentHeader hc = Some (sample_header 1)"
proof -
  have "hd_num (sample_header 1) \<noteq> hd_num (sample_header 0)" using sample_num [of 1] sample_num [of 0] by simp
  then show ?thesis using write_header_canonical [OF sample_inv sample_linkable sample_current(1), of False] by auto
qed



theorem insert_header_chain_witness:
  "\<exists>hc. hc_InsertHeaderChain sample_env (whFunc sample_env (\<lambda>i. False)) (\<lambda>i. False) [sample_header 1, sample_header 2] sample_hc = Some ((0, None), hc) \<and>
     hc_inv sample_env (sample_header 0) hc"
proof -
  have num: "hd_num (sample_header 1) = 1" "hd_num (sample_header 2) = 2" using sample_num [of 1] sample_num [of 2] by simp_all
  have "hd_ParentHash (sample_header 1) = 1" "hd_ParentHash (sample_header 2) = ce_hash sample_env (sample_header 1)"
    using sample_hash [of 1] by (simp_all add: sample_header_def)
  then have "contiguous_from sample_env 1 [sample_header 1, sample_header 2] = None"
    "ReadHeader (ce_codec sample_env) (hc_chainDb sample_hc) (hd_ParentHash (hd [sample_header 1, sample_header 2])) (hd_num (hd [sample_header 1, sample_header 2]) - 1) \<noteq> None"
    using num by (simp_all add: sample_reads)
  from insert_header_chain [OF sample_inv sample_importable _ this, of "\<lambda>i. False"] show ?thesis by auto
qed

end
